(* ===== verification/Kos_Prelude.thy ===== *)
theory Kos_Prelude
  imports Main "HOL-Library.Word"
begin

unbundle bit_operations_syntax

text \<open>
  The vocabulary every component of the kOS development shares: the machine integers of the
  i386 build, pointers, the ways the kernel can stop, the bind of fallible code, byte buffers,
  and the lemma collections that carry the component proofs.
\<close>

section \<open>Machine types\<close>

text \<open>
  The fixed-width C types (\<^verbatim>\<open>stdint.h\<close>, \<^verbatim>\<open>types.h\<close>) are words, so that \<open>+\<close>, \<open>-\<close> and
  \<open>*\<close> wrap as they do on the machine. On the i386 target \<^verbatim>\<open>size_t\<close>, \<^verbatim>\<open>uintptr_t\<close> and
  physical or virtual addresses are 32 bits wide.
\<close>

type_synonym u8 = "8 word"
type_synonym u16 = "16 word"
type_synonym u32 = "32 word"
type_synonym u64 = "64 word"

text \<open>
  A pointer to a heap object is a natural number, the key of that object in the store of its
  component; \<open>0\<close> is \<^verbatim>\<open>NULL\<close>.
\<close>

type_synonym ptr = nat

abbreviation (input) NULL :: ptr where
  "NULL \<equiv> 0"

section \<open>Faults and fallible code\<close>

text \<open>
  What stops the kernel: an access through \<^verbatim>\<open>NULL\<close>, an access to memory that is not part of
  a live object or buffer, a division by zero, a call of \<^verbatim>\<open>panic\<close> (which a failing
  \<^verbatim>\<open>kassert\<close> is), and a loop that does not end.
\<close>

datatype fault = Null_deref | Bad_access | Div_by_zero | Panic | Diverges

type_synonym 'a res = "fault + 'a"

fun rbind :: "'a res \<Rightarrow> ('a \<Rightarrow> 'b res) \<Rightarrow> 'b res" where
  "rbind (Inl e) f = Inl e"
| "rbind (Inr x) f = f x"

text \<open>\<^verbatim>\<open>kassert(exp)\<close> of \<^verbatim>\<open>debug.h\<close>, with \<^verbatim>\<open>CONF_DEBUG\<close> set as in \<^verbatim>\<open>kos/config.h\<close>.\<close>

definition kassert :: "bool \<Rightarrow> unit res" where
  "kassert b = (if b then Inr () else Inl Panic)"

named_theorems res_simps "when a fallible computation returns"

lemma rbind_cong [fundef_cong]:
  "m = m' \<Longrightarrow> (\<And>x. m' = Inr x \<Longrightarrow> f x = f' x) \<Longrightarrow> rbind m f = rbind m' f'"
  by (cases m') auto

lemma rbind_Inr_iff [res_simps]: "rbind m f = Inr y \<longleftrightarrow> (\<exists>x. m = Inr x \<and> f x = Inr y)"
  by (cases m) auto

lemma rbind_Inl_iff [res_simps]:
  "rbind m f = Inl e \<longleftrightarrow> m = Inl e \<or> (\<exists>x. m = Inr x \<and> f x = Inl e)"
  by (cases m) auto

lemma kassert_Inr_iff [res_simps]: "kassert b = Inr u \<longleftrightarrow> b"
  by (simp add: kassert_def)

lemma kassert_True [simp]: "kassert True = Inr ()"
  by (simp add: kassert_def)

lemma kassert_False [simp]: "kassert False = Inl Panic"
  by (simp add: kassert_def)

text \<open>Taking apart a computation that returned.\<close>

lemma rbindE: "rbind m f = Inr y \<Longrightarrow> (\<And>x. m = Inr x \<Longrightarrow> f x = Inr y \<Longrightarrow> P) \<Longrightarrow> P"
  by (cases m) auto

lemma case_pairE: "(case p of (a, b) \<Rightarrow> f a b) = y \<Longrightarrow> (\<And>a b. p = (a, b) \<Longrightarrow> f a b = y \<Longrightarrow> P) \<Longrightarrow> P"
  by (cases p) auto

lemma ifE: "(if b then x else y) = z \<Longrightarrow> (b \<Longrightarrow> x = z \<Longrightarrow> P) \<Longrightarrow> (\<not> b \<Longrightarrow> y = z \<Longrightarrow> P) \<Longrightarrow> P"
  by (simp split: if_splits)

lemmas resE = rbindE case_pairE ifE

lemma rbind_assoc: "rbind (rbind m f) g = rbind m (\<lambda>x. rbind (f x) g)"
  by (cases m) auto

text \<open>The outcome of an operation that must return.\<close>

definition returns :: "'a res \<Rightarrow> ('a \<Rightarrow> bool) \<Rightarrow> bool" where
  "returns r P \<longleftrightarrow> (case r of Inl e \<Rightarrow> False | Inr x \<Rightarrow> P x)"

lemma returns_Inr [simp]: "returns (Inr x) P = P x"
  by (simp add: returns_def)

lemma returns_Inl [simp]: "\<not> returns (Inl e) P"
  by (simp add: returns_def)

lemma returns_mono: "returns r P \<Longrightarrow> (\<And>x. P x \<Longrightarrow> Q x) \<Longrightarrow> returns r Q"
  by (cases r) auto

lemma returnsE: "returns r P \<Longrightarrow> (\<And>x. r = Inr x \<Longrightarrow> P x \<Longrightarrow> Q) \<Longrightarrow> Q"
  by (cases r) auto

text \<open>Stores whose live keys are non-null and below a bound, the next address to hand out.\<close>

definition within :: "ptr \<Rightarrow> (ptr \<Rightarrow> 'a option) \<Rightarrow> bool" where
  "within n f \<longleftrightarrow> (\<forall>p. f p \<noteq> None \<longrightarrow> 0 < p \<and> p < n)"

lemma within_upd [simp]: "within n f \<Longrightarrow> 0 < p \<Longrightarrow> p < n \<Longrightarrow> within n (f(p := x))"
  by (simp add: within_def)

lemma within_free [simp]: "within n f \<Longrightarrow> within n (f(p := None))"
  by (simp add: within_def)

lemma within_Suc [simp]: "within n f \<Longrightarrow> within (Suc n) f"
  unfolding within_def by (meson less_SucI)

lemma withinD: "within n f \<Longrightarrow> f p = Some x \<Longrightarrow> 0 < p \<and> p < n"
  by (simp add: within_def)

lemma within_out: "within n f \<Longrightarrow> n \<le> p \<or> p = 0 \<Longrightarrow> f p = None"
  unfolding within_def by (meson leD less_irrefl)

section \<open>Byte buffers\<close>

text \<open>
  A C buffer is the list of its bytes. \<^verbatim>\<open>memcpy\<close> from and to a position of a buffer faults
  when it leaves the buffer; copying no bytes touches nothing.
\<close>

definition buf_read :: "'a list \<Rightarrow> nat \<Rightarrow> nat \<Rightarrow> 'a list res" where
  "buf_read buf off n =
     (if n = 0 then Inr []
      else if off + n \<le> length buf then Inr (take n (drop off buf)) else Inl Bad_access)"

definition buf_write :: "'a list \<Rightarrow> nat \<Rightarrow> 'a list \<Rightarrow> 'a list res" where
  "buf_write buf off src =
     (if src = [] then Inr buf
      else if off + length src \<le> length buf
      then Inr (take off buf @ src @ drop (off + length src) buf) else Inl Bad_access)"

lemma buf_read_ok: "off + n \<le> length buf \<Longrightarrow> buf_read buf off n = Inr (take n (drop off buf))"
  by (simp add: buf_read_def)

lemma buf_write_ok:
  "off + length src \<le> length buf \<Longrightarrow>
     buf_write buf off src = Inr (take off buf @ src @ drop (off + length src) buf)"
  by (simp add: buf_write_def)

lemma buf_read_length: "buf_read buf off n = Inr bs \<Longrightarrow> length bs = n"
  by (auto simp: buf_read_def split: if_splits)

lemma buf_write_length: "buf_write buf off src = Inr buf' \<Longrightarrow> length buf' = length buf"
  by (auto simp: buf_write_def split: if_splits)

subsection \<open>Buffers of elements\<close>

text \<open>Element number \<open>k\<close> of a byte buffer of elements of \<open>E\<close> bytes.\<close>

definition chunk :: "nat \<Rightarrow> u8 list \<Rightarrow> nat \<Rightarrow> u8 list" where
  "chunk E bs k = take E (drop (k * E) bs)"

definition chunks :: "nat \<Rightarrow> u8 list \<Rightarrow> nat \<Rightarrow> u8 list list" where
  "chunks E bs n = map (chunk E bs) [0..<n]"

lemma chunk_length: "(k + 1) * E \<le> length bs \<Longrightarrow> length (chunk E bs k) = E"
  by (simp add: chunk_def)

lemma chunk_nth: "(k + 1) * E \<le> length bs \<Longrightarrow> j < E \<Longrightarrow> chunk E bs k ! j = bs ! (k * E + j)"
  by (simp add: chunk_def)

lemma slot_le: "k < M \<Longrightarrow> (k + 1) * E \<le> M * (E :: nat)"
  by (metis Suc_eq_plus1 Suc_leI mult_le_mono1)

lemma chunk_write:
  assumes w: "w < M" and k: "k < M" and bs: "length bs = M * E" and e: "length e = E"
    and d: "d = take (w * E) bs @ e @ drop (w * E + E) bs"
  shows "chunk E d k = (if k = w then e else chunk E bs k)"
proof (rule nth_equalityI)
  note le = slot_le [OF w, of E] slot_le [OF k, of E]
  have m: "min (M * E) (w * E) = w * E" using w by (intro min_absorb2) simp
  have len: "length d = M * E" using le bs e d by simp
  then show "length (chunk E d k) = length (if k = w then e else chunk E bs k)"
    using le bs e by (simp add: chunk_def)
  fix j assume "j < length (chunk E d k)"
  then have j: "j < E" using le len by (simp add: chunk_def)
  consider "k = w" | "(k + 1) * E \<le> w * E" | "(w + 1) * E \<le> k * E"
    by (metis Suc_eq_plus1 Suc_leI linorder_neqE_nat mult_le_mono1)
  then show "chunk E d k ! j = (if k = w then e else chunk E bs k) ! j"
  proof cases
    case 1
    with j le len bs e d show ?thesis by (simp add: chunk_nth nth_append m)
  next
    case 2
    with j have "k \<noteq> w" by auto
    with 2 j le len bs e d show ?thesis by (simp add: chunk_nth nth_append m)
  next
    case 3
    with j have "k \<noteq> w" by auto
    with 3 j le len bs e d show ?thesis by (auto simp: chunk_nth nth_append m add.commute)
  qed
qed

lemma chunks_length [simp]: "length (chunks E bs n) = n"
  by (simp add: chunks_def)

lemma chunks_nth [simp]: "k < n \<Longrightarrow> chunks E bs n ! k = chunk E bs k"
  by (simp add: chunks_def)

lemma chunk_append: "(k + 1) * E \<le> length bs \<Longrightarrow> chunk E (bs @ cs) k = chunk E bs k"
  by (simp add: chunk_def)

section \<open>Words as numbers\<close>

named_theorems unat_simps "reading words as natural numbers"

lemma unat_u32_lt [simp]: "unat (x :: u32) < 4294967296"
  using unsigned_less [of x] by simp

lemma unat_of_nat_u32 [unat_simps]: "unat (of_nat n :: u32) = n mod 4294967296"
  by (simp add: unat_of_nat)

lemma unat_of_nat_u32_small [simp]: "n < 4294967296 \<Longrightarrow> unat (of_nat n :: u32) = n"
  by (simp add: unat_of_nat_u32)

lemma unat_add_u32 [unat_simps]: "unat (x + y :: u32) = (unat x + unat y) mod 4294967296"
  by (simp add: unat_word_ariths)

lemma unat_mult_u32 [unat_simps]: "unat (x * y :: u32) = (unat x * unat y) mod 4294967296"
  by (simp add: unat_word_ariths)

lemma unat_add_u32_small:
  "unat x + unat y < 4294967296 \<Longrightarrow> unat (x + y :: u32) = unat x + unat y"
  by (simp add: unat_add_u32)

lemma unat_mult_u32_small:
  "unat x * unat y < 4294967296 \<Longrightarrow> unat (x * y :: u32) = unat x * unat y"
  by (simp add: unat_mult_u32)

lemma unat_div_u32 [unat_simps]: "unat (x div y :: u32) = unat x div unat y"
  by (simp add: unat_div)

lemma unat_mod_u32 [unat_simps]: "unat (x mod y :: u32) = unat x mod unat y"
  by (simp add: unat_mod)

lemma u32_eq_iff_unat: "(x :: u32) = y \<longleftrightarrow> unat x = unat y"
  by (simp add: word_unat_eq_iff)

text \<open>The byte offset of element \<open>k\<close> of a buffer of \<open>M\<close> elements does not wrap.\<close>

lemma elem_offset:
  assumes "k < unat M" and "unat M * unat E < 4294967296" and "unat i = k" and "0 < unat E"
  shows "unat (i * E :: u32) = k * unat E \<and> unat (i + 1) = k + 1"
proof -
  have "(k + 1) * unat E < 4294967296"
    using slot_le [OF assms(1), of "unat E"] assms(2) by linarith
  moreover have "k + 1 \<le> (k + 1) * unat E"
    using mult_le_mono2 [of 1 "unat E" "k + 1"] assms(4) by simp
  ultimately show ?thesis using assms(3) by (simp add: unat_mult_u32 unat_add_u32)
qed

text \<open>Counters that are split into a quotient and a remainder, advanced by one.\<close>

lemma mod_next: "(n + 1) mod k = (if n mod k + 1 = k then 0 else n mod k + 1)" for n k :: nat
  using mod_Suc [of n k] by simp

lemma div_next: "(n + 1) div k = (if n mod k + 1 = k then n div k + 1 else n div k)" if "0 < k" for n k :: nat
proof -
  have "Suc n mod k = 0 \<longleftrightarrow> Suc (n mod k) = k" by (simp add: mod_Suc)
  then show ?thesis using div_Suc [of n k] by simp
qed

lemma next_multiple:
  fixes n k :: nat
  assumes "(n + 1) mod k = 0" and "0 < k"
  shows "n + 1 = (n div k + 1) * k"
proof -
  have "n mod k + 1 = k" using assms mod_next [of n k] by (simp split: if_splits)
  then have "(n + 1) div k = n div k + 1" using div_next [OF assms(2), of n] by (simp only: if_True simp_thms)
  with assms(1) div_mult_mod_eq [of "n + 1" k] show ?thesis by simp
qed

lemma sint_u32_small: "unat (w :: 32 word) < 2 ^ 31 \<Longrightarrow> sint w = int (unat w)"
proof -
  assume "unat w < 2 ^ 31"
  then have "int (unat w) < int (2 ^ 31)" by (simp only: of_nat_less_iff)
  then have "uint w < 2 ^ 31" by simp
  then have "signed_take_bit 31 (uint w) = uint w" by (intro signed_take_bit_int_eq_self) (auto intro: order_trans [of _ 0])
  then show ?thesis by (simp add: sint_uint)
qed

end
