(* ===== verification/Kos_Bitop.thy ===== *)
theory Kos_Bitop
  imports Kos_Prelude
begin

text \<open>
  Bit and page arithmetic: the macros and inline functions of
  \<^verbatim>\<open>kernel/include/bitop.h\<close>, \<^verbatim>\<open>kernel/include/arch/i386/page.h\<close> and
  \<^verbatim>\<open>kernel/mm/intern.h\<close>, with the facts that read them as bits and as numbers, which the
  memory managers are proved with.
\<close>

section \<open>bitop.h\<close>

text \<open>
  The macros are polymorphic over the width of the map, as the C macros are. The shift
  \<^verbatim>\<open>1 << n\<close> is used with \<open>n\<close> below the width everywhere in the kernel.
\<close>

definition bset :: "'a::len word \<Rightarrow> 'a word \<Rightarrow> 'a word" where
  "bset mp b = mp OR b"

definition bclr :: "'a::len word \<Rightarrow> 'a word \<Rightarrow> 'a word" where
  "bclr mp b = mp AND NOT b"

definition bsetn :: "'a::len word \<Rightarrow> nat \<Rightarrow> 'a word" where
  "bsetn mp n = mp OR push_bit n 1"

definition bclrn :: "'a::len word \<Rightarrow> nat \<Rightarrow> 'a word" where
  "bclrn mp n = mp AND NOT (push_bit n 1)"

definition bisset :: "'a::len word \<Rightarrow> 'a word \<Rightarrow> bool" where
  "bisset mp b \<longleftrightarrow> mp AND b \<noteq> 0"

definition bissetn :: "'a::len word \<Rightarrow> nat \<Rightarrow> bool" where
  "bissetn mp n \<longleftrightarrow> mp AND push_bit n 1 \<noteq> 0"

definition bnotset :: "'a::len word \<Rightarrow> 'a word \<Rightarrow> bool" where
  "bnotset mp b \<longleftrightarrow> mp AND b = 0"

definition bnotsetn :: "'a::len word \<Rightarrow> nat \<Rightarrow> bool" where
  "bnotsetn mp n \<longleftrightarrow> mp AND push_bit n 1 = 0"

definition bmask :: "'a::len word \<Rightarrow> 'a word \<Rightarrow> 'a word" where
  "bmask var msk = var AND msk"

text \<open>
  \<^verbatim>\<open>bscanfwd\<close> in its \<^verbatim>\<open>CONF_DEBUG\<close> form: a loop over the 32 bits. With no bit set it raises
  the debug interrupt, which no handler of the kernel survives.
\<close>

fun bscanfwd_from :: "u32 \<Rightarrow> nat list \<Rightarrow> nat res" where
  "bscanfwd_from mp [] = Inl Panic"
| "bscanfwd_from mp (i # is) = (if bissetn mp i then Inr i else bscanfwd_from mp is)"

definition bscanfwd :: "u32 \<Rightarrow> nat res" where
  "bscanfwd mp = bscanfwd_from mp [0..<32]"

text \<open>
  \<^verbatim>\<open>bswap(src, dst, size)\<close> writes the first \<open>size - size % 2\<close> bytes of \<open>src\<close> to \<open>dst\<close> in
  reverse order, one byte at a time.
\<close>

fun bswap_loop :: "u8 list \<Rightarrow> u8 list \<Rightarrow> nat \<Rightarrow> nat list \<Rightarrow> u8 list res" where
  "bswap_loop src dst sz [] = Inr dst"
| "bswap_loop src dst sz (i # is) =
     (if i < length src \<and> sz - i - 1 < length dst
      then bswap_loop src (dst[sz - i - 1 := src ! i]) sz is
      else Inl Bad_access)"

definition bswap :: "u8 list \<Rightarrow> u8 list \<Rightarrow> u8 \<Rightarrow> u8 list res" where
  "bswap src dst sz0 =
     (let sz = unat (sz0 - sz0 mod 2)
      in bswap_loop src dst sz [0..<sz])"

text \<open>The bytes of an integer in memory, lowest address first: the i386 is little-endian.\<close>

definition bytes_of_u16 :: "u16 \<Rightarrow> u8 list" where
  "bytes_of_u16 x = [ucast x, ucast (drop_bit 8 x)]"

definition bytes_of_u32 :: "u32 \<Rightarrow> u8 list" where
  "bytes_of_u32 x =
     [ucast x, ucast (drop_bit 8 x), ucast (drop_bit 16 x), ucast (drop_bit 24 x)]"

fun u16_of_bytes :: "u8 list \<Rightarrow> u16" where
  "u16_of_bytes [a, b] = ucast a OR push_bit 8 (ucast b)"
| "u16_of_bytes _ = 0"

fun u32_of_bytes :: "u8 list \<Rightarrow> u32" where
  "u32_of_bytes [a, b, c, d] =
     ucast a OR push_bit 8 (ucast b) OR push_bit 16 (ucast c) OR push_bit 24 (ucast d)"
| "u32_of_bytes _ = 0"

text \<open>
  \<^verbatim>\<open>out\<close> is an uninitialised local in the source; its bytes are the argument \<open>junk\<close>.
\<close>

definition bigendian_word :: "u16 \<Rightarrow> u16 \<Rightarrow> u16 res" where
  "bigendian_word junk x =
     rbind (bswap (bytes_of_u16 x) (bytes_of_u16 junk) 2) (\<lambda>out. Inr (u16_of_bytes out))"

definition bigendian_dword :: "u32 \<Rightarrow> u32 \<Rightarrow> u32 res" where
  "bigendian_dword junk x =
     rbind (bswap (bytes_of_u32 x) (bytes_of_u32 junk) 4) (\<lambda>out. Inr (u32_of_bytes out))"

section \<open>page.h\<close>

abbreviation (input) PAGE_SIZE :: u32 where "PAGE_SIZE \<equiv> 4096"
abbreviation (input) PAGE_MASK :: u32 where "PAGE_MASK \<equiv> 0xFFFFF000"
abbreviation (input) BMASK_4K_ALIGN :: u32 where "BMASK_4K_ALIGN \<equiv> 0xFFF"
abbreviation (input) BMASK_PE_ADDR :: u32 where "BMASK_PE_ADDR \<equiv> 0xFFFFF000"
abbreviation (input) BMASK_PE_FLAGS :: u32 where "BMASK_PE_FLAGS \<equiv> 0xFFF"
abbreviation (input) NO_PAGE :: u32 where "NO_PAGE \<equiv> 1"
abbreviation (input) PDIR_LEN :: nat where "PDIR_LEN \<equiv> 1024"
abbreviation (input) PTAB_LEN :: nat where "PTAB_LEN \<equiv> 1024"

definition NUM_PAGES :: "u32 \<Rightarrow> u32" where
  "NUM_PAGES n = ((n + NOT PAGE_MASK) AND PAGE_MASK) div PAGE_SIZE"

definition PAGE_OFFSET :: "u32 \<Rightarrow> u32" where
  "PAGE_OFFSET addr = addr mod PAGE_SIZE"

definition PAGE_ALIGN_ROUND_UP :: "u32 \<Rightarrow> u32" where
  "PAGE_ALIGN_ROUND_UP n = (n + NOT PAGE_MASK) AND PAGE_MASK"

definition PAGE_ALIGN_ROUND_DOWN :: "u32 \<Rightarrow> u32" where
  "PAGE_ALIGN_ROUND_DOWN n = n AND PAGE_MASK"

definition IS_PAGE_ALIGNED :: "u32 \<Rightarrow> bool" where
  "IS_PAGE_ALIGNED addr \<longleftrightarrow> addr AND BMASK_4K_ALIGN = 0"

section \<open>intern.h\<close>

definition getaddr :: "u32 \<Rightarrow> u32" where
  "getaddr entry = bmask entry BMASK_PE_ADDR"

definition getflags :: "u32 \<Rightarrow> u32" where
  "getflags entry = bmask entry BMASK_PE_FLAGS"

definition page2addr :: "u32 \<Rightarrow> u32" where
  "page2addr page = page * PAGE_SIZE"

definition addr2page :: "u32 \<Rightarrow> u32" where
  "addr2page addr = addr div PAGE_SIZE"

definition align_addr :: "u32 \<Rightarrow> u32" where
  "align_addr addr = addr - PAGE_OFFSET addr"

definition align_size :: "u32 \<Rightarrow> u32 \<Rightarrow> u32" where
  "align_size addr sz = sz + PAGE_OFFSET addr"

definition pdir_index :: "u32 \<Rightarrow> nat" where
  "pdir_index addr = unat (addr2page addr div 1024)"

definition ptab_index :: "u32 \<Rightarrow> nat" where
  "ptab_index addr = unat (addr2page addr mod 1024)"

definition create_addr :: "nat \<Rightarrow> nat \<Rightarrow> u32 \<Rightarrow> u32" where
  "create_addr pdi pti off = push_bit 22 (of_nat pdi) + push_bit 12 (of_nat pti) + off"

definition safe_pti :: "nat \<Rightarrow> nat" where
  "safe_pti pdi = (if pdi = 0 then 1 else 0)"

section \<open>Reading the macros as bits and numbers\<close>

named_theorems page_simps "page arithmetic on natural numbers"

lemma and_4k_align: "(x :: u32) AND 0xFFF = x mod 4096"
  using word_mod_2p_is_mask [of 12 x] by (simp add: mask_eq_exp_minus_1)

lemma and_page_mask: "(x :: u32) AND 0xFFFFF000 = x - x mod 4096"
proof -
  have "(x AND 0xFFFFF000) + (x AND 0xFFF) = (x AND 0xFFFFF000) OR (x AND 0xFFF)"
  proof (rule disjunctive_add)
    fix n
    have m: "(0xFFFFF000 :: u32) = NOT (0xFFF)" by simp
    show "\<not> bit (x AND 0xFFFFF000) n \<or> \<not> bit (x AND 0xFFF) n"
      unfolding m by (auto simp: bit_simps)
  qed
  also have "\<dots> = x AND (0xFFFFF000 OR 0xFFF)"
    by (simp only: bit.conj_disj_distrib)
  also have "(0xFFFFF000 :: u32) OR 0xFFF = - 1"
    by simp
  finally show ?thesis
    by (simp add: and_4k_align eq_diff_eq)
qed

lemma unat_and_page_mask [page_simps]: "unat (x AND 0xFFFFF000 :: u32) = unat x - unat x mod 4096"
  by (simp add: and_page_mask unat_sub word_le_nat_alt unat_mod)

lemma unat_PAGE_OFFSET [page_simps]: "unat (PAGE_OFFSET a) = unat a mod 4096"
  by (simp add: PAGE_OFFSET_def unat_mod)

lemma IS_PAGE_ALIGNED_iff [page_simps]: "IS_PAGE_ALIGNED a \<longleftrightarrow> unat a mod 4096 = 0"
  by (simp add: IS_PAGE_ALIGNED_def and_4k_align word_unat_eq_iff unat_mod)

lemma unat_align_addr [page_simps]: "unat (align_addr a) = unat a - unat a mod 4096"
  by (simp add: align_addr_def PAGE_OFFSET_def unat_sub word_le_nat_alt unat_mod)

lemma unat_getaddr [page_simps]: "unat (getaddr e) = unat e - unat e mod 4096"
  by (simp add: getaddr_def bmask_def unat_and_page_mask)

lemma unat_getflags [page_simps]: "unat (getflags e) = unat e mod 4096"
  by (simp add: getflags_def bmask_def and_4k_align unat_mod)

lemma unat_addr2page [page_simps]: "unat (addr2page a) = unat a div 4096"
  by (simp add: addr2page_def unat_div)

lemma pdir_index_nat [page_simps]: "pdir_index a = unat a div 4194304"
  by (simp add: pdir_index_def unat_div page_simps flip: div_mult2_eq)

lemma ptab_index_nat [page_simps]: "ptab_index a = unat a div 4096 mod 1024"
  by (simp add: ptab_index_def unat_mod page_simps)

lemma pdir_index_lt [simp]: "pdir_index a < 1024"
  unfolding pdir_index_nat by (rule less_mult_imp_div_less) simp

lemma ptab_index_lt [simp]: "ptab_index a < 1024"
  by (simp add: ptab_index_nat)

lemma unat_create_addr [page_simps]:
  "pdi < 1024 \<Longrightarrow> pti < 1024 \<Longrightarrow> unat off < 4096 \<Longrightarrow>
     unat (create_addr pdi pti off) = pdi * 4194304 + pti * 4096 + unat off"
  by (simp add: create_addr_def push_bit_eq_mult unat_word_ariths unat_of_nat)

lemma aligned_or_flags:
  assumes "unat (p :: u32) mod 4096 = 0" and "unat f < 4096"
  shows "p OR f = p + f"
proof (rule disjunctive_add [symmetric])
  fix n
  have p: "take_bit 12 p = 0"
    using assms(1) by (simp add: take_bit_eq_mod u32_eq_iff_unat unat_mod)
  have f: "take_bit 12 f = f"
    using assms(2) by (simp add: take_bit_eq_mod u32_eq_iff_unat unat_mod)
  show "\<not> bit p n \<or> \<not> bit f n"
  proof (cases "n < 12")
    case True
    with p have "\<not> bit p n"
      using bit_take_bit_iff [of 12 p n] by simp
    then show ?thesis ..
  next
    case False
    then have "\<not> bit (take_bit 12 f) n"
      by (simp add: bit_take_bit_iff)
    with f show ?thesis by simp
  qed
qed

lemma unat_aligned_or_flags:
  assumes "unat (p :: u32) mod 4096 = 0" and "unat f < 4096"
  shows "unat (p OR f) = unat p + unat f"
proof -
  have "unat p + unat f < 4294967296"
  proof -
    from assms(1) obtain k where k: "unat p = 4096 * k" by blast
    then have "k < 1048576" using unat_u32_lt [of p] by simp
    with k assms(2) show ?thesis by simp
  qed
  then show ?thesis by (simp add: aligned_or_flags [OF assms] unat_add_u32_small)
qed

lemma getaddr_or_flags:
  assumes "unat p mod 4096 = 0" and "unat f < 4096"
  shows "getaddr (p OR f) = p"
  unfolding u32_eq_iff_unat unat_getaddr unat_aligned_or_flags [OF assms]
  using assms by (simp add: mod_add_eq [symmetric])

lemma getflags_or_flags:
  assumes "unat p mod 4096 = 0" and "unat f < 4096"
  shows "getflags (p OR f) = f"
  unfolding u32_eq_iff_unat unat_getflags unat_aligned_or_flags [OF assms]
  using assms by (simp add: mod_add_eq [symmetric])

lemma not_page_mask: "NOT (0xFFFFF000 :: u32) = 0xFFF"
  by simp

lemma unat_round_up:
  "unat (PAGE_ALIGN_ROUND_UP n) = (unat n + 4095) mod 4294967296 div 4096 * 4096"
proof -
  have "unat (n + 0xFFF) = (unat n + 4095) mod 4294967296"
    unfolding unat_add_u32 by simp
  then show ?thesis
    unfolding PAGE_ALIGN_ROUND_UP_def not_page_mask unat_and_page_mask
    by (simp add: minus_mod_eq_div_mult)
qed

lemma unat_NUM_PAGES: "unat (NUM_PAGES n) = (unat n + 4095) mod 4294967296 div 4096"
  using unat_round_up [of n] unfolding NUM_PAGES_def PAGE_ALIGN_ROUND_UP_def
  by (simp add: unat_div)

lemma NUM_PAGES_nat:
  "unat n \<le> 4294963200 \<Longrightarrow> unat (NUM_PAGES n) = (unat n + 4095) div 4096"
  by (simp add: unat_NUM_PAGES)

lemma NUM_PAGES_wraps: "4294963200 < unat n \<Longrightarrow> NUM_PAGES n = 0"
proof -
  assume n: "4294963200 < unat n"
  then have "(unat n + 4095) mod 4294967296 = unat n + 4095 - 4294967296"
    using unat_u32_lt [of n] by (simp add: le_mod_geq less_imp_diff_less)
  moreover have "unat n + 4095 - 4294967296 < 4096"
    using n unat_u32_lt [of n] by linarith
  ultimately show ?thesis
    unfolding u32_eq_iff_unat unat_NUM_PAGES by simp
qed

lemma bit_bsetn: "n < LENGTH('a) \<Longrightarrow> bit (bsetn (m :: 'a::len word) n) k \<longleftrightarrow> k = n \<or> bit m k"
  by (auto simp: bsetn_def bit_simps)

lemma bit_bclrn: "n < LENGTH('a) \<Longrightarrow> bit (bclrn (m :: 'a::len word) n) k \<longleftrightarrow> k \<noteq> n \<and> bit m k"
  by (auto simp: bclrn_def bit_simps dest: bit_imp_le_length)

lemma bissetn_bit:
  assumes "n < LENGTH('a)"
  shows "bissetn (m :: 'a::len word) n \<longleftrightarrow> bit m n"
proof -
  have "bit (m AND push_bit n 1) k \<longleftrightarrow> k = n \<and> bit m n" for k
    using assms by (auto simp: bit_and_iff bit_exp_iff)
  then have "m AND push_bit n 1 \<noteq> 0 \<longleftrightarrow> bit m n"
    by (metis bit_0_eq bot_apply bot_bool_def bit_word_eqI)
  then show ?thesis by (simp add: bissetn_def)
qed


lemma u32_bytes_roundtrip: "u32_of_bytes (bytes_of_u32 x) = x"
proof (rule bit_word_eqI)
  fix n
  assume "n < LENGTH(32)"
  then consider "n < 8" | "8 \<le> n" "n < 16" | "16 \<le> n" "n < 24" | "24 \<le> n" "n < 32"
    by fastforce
  then show "bit (u32_of_bytes (bytes_of_u32 x)) n = bit x n"
    by cases (auto simp: bytes_of_u32_def bit_simps)
qed

lemma bit_u8_beyond [simp]: "8 \<le> k \<Longrightarrow> \<not> bit (a :: u8) k"
  using bit_imp_le_length [of a k] by auto

lemma bytes_u32_roundtrip: "bytes_of_u32 (u32_of_bytes [a, b, c, d]) = [a, b, c, d]"
  by (auto simp: bytes_of_u32_def bit_simps intro!: bit_word_eqI)

lemma bswap_dword: "bswap [a, b, c, d] [e, f, g, h] 4 = Inr [d, c, b, a]"
proof -
  have "unat (4 - 4 mod 2 :: u8) = 4" "[0..<4] = [0, 1, 2, 3]"
    by (simp_all add: upt_rec)
  then show ?thesis by (simp add: bswap_def)
qed

lemma bswap_word: "bswap [a, b] [e, f] 2 = Inr [b, a]"
proof -
  have "unat (2 - 2 mod 2 :: u8) = 2" "[0..<2] = [0, 1]"
    by (simp_all add: upt_rec)
  then show ?thesis by (simp add: bswap_def)
qed

lemma bigendian_dword_eq: "bigendian_dword junk x = Inr (u32_of_bytes (rev (bytes_of_u32 x)))"
  by (simp add: bigendian_dword_def bswap_dword bytes_of_u32_def)

lemma create_addr_split: "create_addr (pdir_index a) (ptab_index a) (PAGE_OFFSET a) = a"
proof -
  have "unat a = unat a div 4096 div 1024 * 4194304 + unat a div 4096 mod 1024 * 4096 + unat a mod 4096"
    using div_mult_mod_eq [of "unat a" 4096] div_mult_mod_eq [of "unat a div 4096" 1024]
    by linarith
  then show ?thesis
    unfolding u32_eq_iff_unat
    using unat_create_addr [OF pdir_index_lt ptab_index_lt, of "PAGE_OFFSET a" a a]
    by (simp add: unat_PAGE_OFFSET ptab_index_nat pdir_index_nat flip: div_mult2_eq)
qed

lemma create_addr_index:
  assumes "pdi < 1024" "pti < 1024" "unat off < 4096"
  shows "pdir_index (create_addr pdi pti off) = pdi" "ptab_index (create_addr pdi pti off) = pti"
    "PAGE_OFFSET (create_addr pdi pti off) = off"
proof -
  have u: "unat (create_addr pdi pti off) = unat off + 4096 * (pti + 1024 * pdi)"
    using assms by (simp add: page_simps)
  have "unat (create_addr pdi pti off) div 4096 = pti + 1024 * pdi"
    unfolding u using assms(3) by simp
  then show "ptab_index (create_addr pdi pti off) = pti"
    "pdir_index (create_addr pdi pti off) = pdi"
    using assms(2) by (simp_all add: ptab_index_nat pdir_index_def unat_div unat_addr2page)
  show "PAGE_OFFSET (create_addr pdi pti off) = off"
    unfolding u32_eq_iff_unat unat_PAGE_OFFSET u using assms(3)
    by (simp only: mod_mult_self2 mod_less)
qed

section \<open>Properties\<close>

text \<open>
  A virtual address is exactly its page-directory index, its page-table index and its page
  offset: putting the three parts that \<^verbatim>\<open>pdir_index\<close>, \<^verbatim>\<open>ptab_index\<close> and
  \<^verbatim>\<open>PAGE_OFFSET\<close> extract back together with \<^verbatim>\<open>create_addr\<close> gives the address, the two
  indices never leave the 1024 entries of a directory or table, and distinct parts give
  distinct addresses.
\<close>

theorem page_address_roundtrip:
  "create_addr (pdir_index a) (ptab_index a) (PAGE_OFFSET a) = a
   \<and> pdir_index a < PDIR_LEN \<and> ptab_index a < PTAB_LEN
   \<and> (pdir_index a = pdir_index b \<and> ptab_index a = ptab_index b \<and> PAGE_OFFSET a = PAGE_OFFSET b
      \<longleftrightarrow> a = b)"
  by (metis create_addr_split pdir_index_lt ptab_index_lt)

text \<open>
  \<^verbatim>\<open>NUM_PAGES(n)\<close> is the least number of pages that holds \<open>n\<close> bytes for every \<open>n\<close> up to
  4 GB minus one page; for larger \<open>n\<close> the rounding wraps around and the macro answers 0 pages.
\<close>

theorem NUM_PAGES_spec:
  "if unat n \<le> 4294963200 then (\<forall>k. unat (NUM_PAGES n) \<le> k \<longleftrightarrow> unat n \<le> k * 4096)
   else NUM_PAGES n = 0"
proof (cases "unat n \<le> 4294963200")
  case True
  have "(unat n + 4095) div 4096 \<le> k \<longleftrightarrow> unat n \<le> k * 4096" for k
    using div_le_dividend [of "unat n" 4096] by (simp add: less_Suc_eq_le [symmetric] div_less_iff_less_mult)
  with True show ?thesis by (simp add: NUM_PAGES_nat)
next
  case False
  then show ?thesis by (simp add: NUM_PAGES_wraps)
qed

text \<open>
  \<^verbatim>\<open>bigendian_dword\<close> (the SCSI driver's byte order conversion) reverses the four bytes of
  the value whatever the uninitialised result variable held, and applying it twice gives the
  value back.
\<close>

theorem bigendian_dword_spec:
  "\<exists>y. bigendian_dword junk x = Inr y \<and> bytes_of_u32 y = rev (bytes_of_u32 x)
     \<and> bigendian_dword junk' y = Inr x"
proof -
  obtain a b c d where x: "bytes_of_u32 x = [a, b, c, d]"
    by (simp add: bytes_of_u32_def)
  have "u32_of_bytes [a, b, c, d] = x"
    using u32_bytes_roundtrip [of x] x by simp
  with x show ?thesis
    by (simp add: bigendian_dword_eq bytes_u32_roundtrip del: u32_of_bytes.simps)
qed

end
