(* ===== verification/Kos_Fifo.thy ===== *)
theory Kos_Fifo
  imports Kos_Prelude
begin

text \<open>
  The first-in first-out contract that the kernel's clients rely on: the terminal keeps its
  pending read requests in a doubly linked list (\<^verbatim>\<open>util/list.c\<close>), a process keeps its
  messages in a ring buffer (\<^verbatim>\<open>util/ringbuffer.c\<close>). The contract is a locale; the two
  containers interpret it in their own theories.
\<close>

section \<open>Sequences of insertions and removals\<close>

fun put_many :: "('s \<Rightarrow> 'a \<Rightarrow> 's res) \<Rightarrow> 's \<Rightarrow> 'a list \<Rightarrow> 's res" where
  "put_many put s [] = Inr s"
| "put_many put s (x # xs) = rbind (put s x) (\<lambda>s. put_many put s xs)"

fun get_many :: "('s \<Rightarrow> ('a \<times> 's) res) \<Rightarrow> 's \<Rightarrow> nat \<Rightarrow> ('a list \<times> 's) res" where
  "get_many get s 0 = Inr ([], s)"
| "get_many get s (Suc n) =
     rbind (get s) (\<lambda>(x, s). rbind (get_many get s n) (\<lambda>(xs, s). Inr (x # xs, s)))"

section \<open>The contract\<close>

text \<open>
  \<open>items s\<close> is the content, oldest first; \<open>fits s n\<close> says that \<open>n\<close> more items may be put,
  \<open>item_ok x\<close> that \<open>x\<close> is an item the container takes.
\<close>

locale fifo =
  fixes inv :: "'s \<Rightarrow> bool"
    and items :: "'s \<Rightarrow> 'a list"
    and fits :: "'s \<Rightarrow> nat \<Rightarrow> bool"
    and item_ok :: "'a \<Rightarrow> bool"
    and put :: "'s \<Rightarrow> 'a \<Rightarrow> 's res"
    and get :: "'s \<Rightarrow> ('a \<times> 's) res"
  assumes put_ok: "inv s \<Longrightarrow> fits s (Suc n) \<Longrightarrow> item_ok x \<Longrightarrow>
      \<exists>s'. put s x = Inr s' \<and> inv s' \<and> items s' = items s @ [x] \<and> fits s' n"
    and get_ok: "inv s \<Longrightarrow> items s = x # xs \<Longrightarrow>
      \<exists>s'. get s = Inr (x, s') \<and> inv s' \<and> items s' = xs"
begin

lemma put_many_ok:
  "inv s \<Longrightarrow> fits s (length xs) \<Longrightarrow> list_all item_ok xs \<Longrightarrow>
     \<exists>s'. put_many put s xs = Inr s' \<and> inv s' \<and> items s' = items s @ xs"
proof (induction xs arbitrary: s)
  case Nil
  then show ?case by simp
next
  case (Cons x xs)
  then obtain s1 where "put s x = Inr s1" "inv s1" "items s1 = items s @ [x]" "fits s1 (length xs)"
    using put_ok [of s "length xs" x] by auto
  with Cons.IH [of s1] Cons.prems show ?case by auto
qed

lemma get_many_ok:
  "inv s \<Longrightarrow> items s = xs @ ys \<Longrightarrow>
     \<exists>s'. get_many get s (length xs) = Inr (xs, s') \<and> inv s' \<and> items s' = ys"
proof (induction xs arbitrary: s)
  case Nil
  then show ?case by simp
next
  case (Cons x xs)
  then obtain s1 where "get s = Inr (x, s1)" "inv s1" "items s1 = xs @ ys"
    using get_ok [of s x "xs @ ys"] by auto
  with Cons.IH [of s1] Cons.prems show ?case by auto
qed

text \<open>Whatever goes in comes out in the same order, behind what was there before.\<close>

lemma fifo_order:
  assumes "inv s" and "fits s (length xs)" and "list_all item_ok xs"
  shows "\<exists>s1 s2. put_many put s xs = Inr s1
    \<and> get_many get s1 (length (items s) + length xs) = Inr (items s @ xs, s2)
    \<and> inv s2 \<and> items s2 = []"
proof -
  from put_many_ok [OF assms] obtain s1
    where s1: "put_many put s xs = Inr s1" "inv s1" "items s1 = items s @ xs" by blast
  with get_many_ok [of s1 "items s @ xs" "[]"] show ?thesis by auto
qed

end

end
