(* ===== verification/Kos_List.thy ===== *)
theory Kos_List
  imports Kos_Fifo
begin

text \<open>
  The doubly linked list of \<^verbatim>\<open>kernel/util/list.c\<close> on an explicit store, so that shared and
  stale pointers are visible: the list headers and the entries live in a heap, every access
  through \<^verbatim>\<open>NULL\<close> or through a freed pointer is a fault. The theory shows which operations
  keep a list well formed and what they do to its content, that \<^verbatim>\<open>list_add_back\<close> and
  \<^verbatim>\<open>list_del_front\<close> are a first-in first-out queue, and what the unrepaired links of
  \<^verbatim>\<open>list_del_back\<close>, \<^verbatim>\<open>list_del_front\<close> and \<^verbatim>\<open>list_del_entry\<close> lead to.
\<close>

section \<open>Data\<close>

record list_entry =
  le_data :: ptr
  le_next :: ptr
  le_prev :: ptr

record list_t =
  l_front :: ptr
  l_back :: ptr
  l_size :: int

text \<open>
  The part of the kernel heap that list code uses. \<^verbatim>\<open>kmalloc\<close> returns the next address that
  was never used, and never \<^verbatim>\<open>NULL\<close> (with \<^verbatim>\<open>CONF_SAFE_KMALLOC\<close> it panics instead); \<^verbatim>\<open>kfree\<close>
  removes the object, so that a later access through the pointer is \<open>Bad_access\<close>.
\<close>

record list_heap =
  l_entries :: "ptr \<Rightarrow> list_entry option"
  l_lists :: "ptr \<Rightarrow> list_t option"
  l_fresh :: ptr

definition empty_heap :: list_heap where
  "empty_heap = \<lparr>l_entries = Map.empty, l_lists = Map.empty, l_fresh = 1\<rparr>"

definition get_entry :: "list_heap \<Rightarrow> ptr \<Rightarrow> list_entry res" where
  "get_entry h p =
     (if p = NULL then Inl Null_deref
      else case l_entries h p of None \<Rightarrow> Inl Bad_access | Some e \<Rightarrow> Inr e)"

definition upd_entry :: "list_heap \<Rightarrow> ptr \<Rightarrow> (list_entry \<Rightarrow> list_entry) \<Rightarrow> list_heap res" where
  "upd_entry h p f =
     rbind (get_entry h p) (\<lambda>e. Inr (h\<lparr>l_entries := (l_entries h)(p \<mapsto> f e)\<rparr>))"

definition get_list :: "list_heap \<Rightarrow> ptr \<Rightarrow> list_t res" where
  "get_list h l =
     (if l = NULL then Inl Null_deref
      else case l_lists h l of None \<Rightarrow> Inl Bad_access | Some L \<Rightarrow> Inr L)"

definition put_list :: "list_heap \<Rightarrow> ptr \<Rightarrow> list_t \<Rightarrow> list_heap" where
  "put_list h l L = h\<lparr>l_lists := (l_lists h)(l \<mapsto> L)\<rparr>"

section \<open>Operations\<close>

definition list_empty :: "list_heap \<Rightarrow> ptr \<Rightarrow> bool res" where
  "list_empty h l =
     (if l = NULL then Inr True
      else rbind (get_list h l) (\<lambda>L. Inr (l_front L = NULL)))"

definition list_size :: "list_heap \<Rightarrow> ptr \<Rightarrow> int res" where
  "list_size h l =
     rbind (list_empty h l) (\<lambda>b.
       if b then Inr 0 else rbind (get_list h l) (\<lambda>L. Inr (l_size L)))"

definition list_create_entry :: "list_heap \<Rightarrow> ptr \<Rightarrow> ptr \<times> list_heap" where
  "list_create_entry h data =
     (let e = l_fresh h
      in (e, h\<lparr>l_entries := (l_entries h)(e \<mapsto> \<lparr>le_data = data, le_next = NULL, le_prev = NULL\<rparr>),
              l_fresh := Suc e\<rparr>))"

definition list_delete_entry :: "list_heap \<Rightarrow> ptr \<Rightarrow> (ptr \<times> list_heap) res" where
  "list_delete_entry h e =
     rbind (get_entry h e) (\<lambda>x. Inr (le_data x, h\<lparr>l_entries := (l_entries h)(e := None)\<rparr>))"

definition list_add_front :: "list_heap \<Rightarrow> ptr \<Rightarrow> ptr \<Rightarrow> list_heap res" where
  "list_add_front h l data =
     (case list_create_entry h data of (e, h) \<Rightarrow>
       rbind (get_list h l) (\<lambda>L.
       rbind (upd_entry h e (le_next_update (\<lambda>_. l_front L))) (\<lambda>h.
       rbind (if l_front L \<noteq> NULL then upd_entry h (l_front L) (le_prev_update (\<lambda>_. e))
              else Inr h) (\<lambda>h.
       let L = (if l_front L = NULL \<and> l_back L = NULL then L\<lparr>l_back := e\<rparr> else L)
       in Inr (put_list h l (L\<lparr>l_front := e, l_size := l_size L + 1\<rparr>))))))"

definition list_add_back :: "list_heap \<Rightarrow> ptr \<Rightarrow> ptr \<Rightarrow> list_heap res" where
  "list_add_back h l data =
     (case list_create_entry h data of (e, h) \<Rightarrow>
       rbind (get_list h l) (\<lambda>L.
       rbind (upd_entry h e (le_prev_update (\<lambda>_. l_back L))) (\<lambda>h.
       rbind (if l_back L \<noteq> NULL then upd_entry h (l_back L) (le_next_update (\<lambda>_. e))
              else Inr h) (\<lambda>h.
       let L = (if l_back L = NULL \<and> l_front L = NULL then L\<lparr>l_front := e\<rparr> else L)
       in Inr (put_list h l (L\<lparr>l_back := e, l_size := l_size L + 1\<rparr>))))))"

definition list_add_after :: "list_heap \<Rightarrow> ptr \<Rightarrow> ptr \<Rightarrow> ptr \<Rightarrow> list_heap res" where
  "list_add_after h l entry data =
     (case list_create_entry h data of (ne, h) \<Rightarrow>
       rbind (get_entry h entry) (\<lambda>x.
       rbind (if le_next x \<noteq> NULL
              then rbind (upd_entry h ne (le_next_update (\<lambda>_. le_next x))) (\<lambda>h.
                     upd_entry h (le_next x) (le_prev_update (\<lambda>_. ne)))
              else Inr h) (\<lambda>h.
       rbind (upd_entry h entry (le_next_update (\<lambda>_. ne))) (\<lambda>h.
       rbind (upd_entry h ne (le_prev_update (\<lambda>_. entry))) (\<lambda>h.
       rbind (get_list h l) (\<lambda>L.
       let L = (if entry = l_back L then L\<lparr>l_back := ne\<rparr> else L)
       in Inr (put_list h l (L\<lparr>l_size := l_size L + 1\<rparr>))))))))"

definition list_del_front :: "list_heap \<Rightarrow> ptr \<Rightarrow> (ptr \<times> list_heap) res" where
  "list_del_front h l =
     rbind (list_empty h l) (\<lambda>b.
       if b then Inr (NULL, h)
       else rbind (get_list h l) (\<lambda>L.
         let e = l_front L
         in rbind (get_entry h e) (\<lambda>x.
              let L = L\<lparr>l_front := le_next x\<rparr>;
                  L = (if l_back L = e then L\<lparr>l_back := NULL\<rparr> else L);
                  L = L\<lparr>l_size := l_size L - 1\<rparr>
              in list_delete_entry (put_list h l L) e)))"

definition list_del_back :: "list_heap \<Rightarrow> ptr \<Rightarrow> (ptr \<times> list_heap) res" where
  "list_del_back h l =
     rbind (list_empty h l) (\<lambda>b.
       if b then Inr (NULL, h)
       else rbind (get_list h l) (\<lambda>L.
         let e = l_back L
         in rbind (get_entry h e) (\<lambda>x.
              let L = L\<lparr>l_back := le_prev x\<rparr>;
                  L = (if l_front L = e then L\<lparr>l_front := NULL\<rparr> else L);
                  L = L\<lparr>l_size := l_size L - 1\<rparr>
              in list_delete_entry (put_list h l L) e)))"

definition list_del_entry :: "list_heap \<Rightarrow> ptr \<Rightarrow> ptr \<Rightarrow> (ptr \<times> list_heap) res" where
  "list_del_entry h l entry =
     rbind (get_entry h entry) (\<lambda>x.
     rbind (if le_next x \<noteq> NULL then upd_entry h (le_next x) (le_prev_update (\<lambda>_. le_prev x))
            else Inr h) (\<lambda>h.
     rbind (if le_prev x \<noteq> NULL then upd_entry h (le_prev x) (le_next_update (\<lambda>_. le_next x))
            else Inr h) (\<lambda>h.
     rbind (get_list h l) (\<lambda>L.
     let L = (if l_front L = entry then L\<lparr>l_front := le_next x\<rparr> else L);
         L = (if l_back L = entry then L\<lparr>l_back := le_prev x\<rparr> else L)
     in list_delete_entry (put_list h l L) entry))))"

definition list_front :: "list_heap \<Rightarrow> ptr \<Rightarrow> ptr res" where
  "list_front h l =
     rbind (list_empty h l) (\<lambda>b.
       if b then Inr NULL
       else rbind (get_list h l) (\<lambda>L. rbind (get_entry h (l_front L)) (\<lambda>x. Inr (le_data x))))"

definition list_back :: "list_heap \<Rightarrow> ptr \<Rightarrow> ptr res" where
  "list_back h l =
     rbind (list_empty h l) (\<lambda>b.
       if b then Inr NULL
       else rbind (get_list h l) (\<lambda>L. rbind (get_entry h (l_back L)) (\<lambda>x. Inr (le_data x))))"

definition list_create :: "list_heap \<Rightarrow> ptr \<times> list_heap" where
  "list_create h =
     (let l = l_fresh h
      in (l, h\<lparr>l_lists := (l_lists h)(l \<mapsto> \<lparr>l_front = NULL, l_back = NULL, l_size = 0\<rparr>),
              l_fresh := Suc l\<rparr>))"

text \<open>
  \<^verbatim>\<open>while (list_del_front(list));\<close> with a bound on the number of rounds; every round that
  goes on has freed an entry, and there are fewer than \<open>l_fresh h\<close> of them.
\<close>

fun list_destroy_loop :: "nat \<Rightarrow> list_heap \<Rightarrow> ptr \<Rightarrow> list_heap res" where
  "list_destroy_loop 0 h l = Inl Diverges"
| "list_destroy_loop (Suc n) h l =
     rbind (list_del_front h l) (\<lambda>(data, h).
       if data \<noteq> NULL then list_destroy_loop n h l else Inr h)"

definition list_destroy :: "list_heap \<Rightarrow> ptr \<Rightarrow> list_heap res" where
  "list_destroy h l =
     rbind (list_destroy_loop (l_fresh h) h l) (\<lambda>h. Inr (h\<lparr>l_lists := (l_lists h)(l := None)\<rparr>))"

text \<open>
  \<^verbatim>\<open>list_iterate(pos, list)\<close>: the entries the loop visits, in order. A walk of more steps than
  the heap has addresses is in a cycle.
\<close>

fun list_walk :: "nat \<Rightarrow> list_heap \<Rightarrow> ptr \<Rightarrow> ptr list res" where
  "list_walk n h p =
     (if p = NULL then Inr []
      else case n of
        0 \<Rightarrow> Inl Diverges
      | Suc n \<Rightarrow> rbind (get_entry h p) (\<lambda>x. rbind (list_walk n h (le_next x)) (\<lambda>ps. Inr (p # ps))))"

definition list_iterate :: "list_heap \<Rightarrow> ptr \<Rightarrow> ptr list res" where
  "list_iterate h l = rbind (get_list h l) (\<lambda>L. list_walk (l_fresh h) h (l_front L))"

section \<open>Well-formed lists\<close>

definition heap_ok :: "list_heap \<Rightarrow> bool" where
  "heap_ok h \<longleftrightarrow> 0 < l_fresh h \<and> within (l_fresh h) (l_entries h) \<and> within (l_fresh h) (l_lists h)"

lemma heap_ok_entry: "heap_ok h \<Longrightarrow> l_entries h p = Some e \<Longrightarrow> 0 < p \<and> p < l_fresh h"
  unfolding heap_ok_def by (meson withinD)

lemma heap_ok_list: "heap_ok h \<Longrightarrow> l_lists h p = Some L \<Longrightarrow> 0 < p \<and> p < l_fresh h"
  unfolding heap_ok_def by (meson withinD)

fun dseg :: "(ptr \<Rightarrow> list_entry option) \<Rightarrow> ptr \<Rightarrow> ptr \<Rightarrow> ptr list \<Rightarrow> ptr \<Rightarrow> bool" where
  "dseg E q p [] r = (p = r)"
| "dseg E q p (a # as) r = (p = a \<and> a \<noteq> NULL \<and>
     (case E a of None \<Rightarrow> False
      | Some e \<Rightarrow> (q \<noteq> NULL \<longrightarrow> le_prev e = q) \<and> dseg E a (le_next e) as r))"

definition last_or :: "ptr \<Rightarrow> ptr list \<Rightarrow> ptr" where
  "last_or q as = (if as = [] then q else last as)"

definition list_rep :: "list_heap \<Rightarrow> ptr \<Rightarrow> ptr list \<Rightarrow> bool" where
  "list_rep h l as \<longleftrightarrow> heap_ok h \<and>
     (case l_lists h l of None \<Rightarrow> False
      | Some L \<Rightarrow> dseg (l_entries h) NULL (l_front L) as NULL \<and> l_back L = last_or NULL as)
     \<and> distinct as"

definition datas :: "list_heap \<Rightarrow> ptr list \<Rightarrow> ptr list" where
  "datas h as = map (\<lambda>a. case l_entries h a of None \<Rightarrow> NULL | Some e \<Rightarrow> le_data e) as"

definition list_sized :: "list_heap \<Rightarrow> ptr \<Rightarrow> ptr list \<Rightarrow> bool" where
  "list_sized h l as \<longleftrightarrow> (case l_lists h l of None \<Rightarrow> False | Some L \<Rightarrow> l_size L = int (length as))"

named_theorems list_defs "the operations of list.c, unfolded"
lemmas [list_defs] = get_entry_def upd_entry_def get_list_def put_list_def list_create_entry_def
  list_delete_entry_def

lemma dseg_append:
  "dseg E q p (as @ bs) r \<longleftrightarrow> (\<exists>m. dseg E q p as m \<and> dseg E (last_or q as) m bs r)"
  by (induction as arbitrary: q p) (auto simp: last_or_def split: option.splits)

lemma dseg_upd_other [simp]:
  "a \<notin> set as \<Longrightarrow> dseg (E(a := x)) q p as r = dseg E q p as r"
  by (induction as arbitrary: q p) (auto split: option.splits)

lemma dseg_cases_front: "dseg E q p as NULL \<Longrightarrow> p = NULL \<longleftrightarrow> as = []"
  by (cases as) auto

lemma dseg_alloc: "dseg E q p as r \<Longrightarrow> a \<in> set as \<Longrightarrow> a \<noteq> NULL \<and> E a \<noteq> None"
  by (induction as arbitrary: q p) (auto split: option.splits)

lemma dseg_weaken: "dseg E q p as r \<Longrightarrow> dseg E NULL p as r"
  by (cases as) (auto split: option.splits)

lemma list_rep_alloc:
  "list_rep h l as \<Longrightarrow> a \<in> set as \<Longrightarrow> 0 < a \<and> a < l_fresh h \<and> l_entries h a \<noteq> None"
  by (auto simp: list_rep_def split: option.splits dest: dseg_alloc heap_ok_entry)

lemma list_repE:
  assumes "list_rep h l as"
  obtains L where "l_lists h l = Some L" "0 < l" "l < l_fresh h"
    "dseg (l_entries h) NULL (l_front L) as NULL"
    "l_back L = last_or NULL as" "distinct as" "heap_ok h" "0 < l_fresh h" "l_fresh h \<notin> set as"
    "l_front L = NULL \<longleftrightarrow> as = []"
proof -
  from assms obtain L where L: "l_lists h l = Some L"
    "dseg (l_entries h) NULL (l_front L) as NULL" "l_back L = last_or NULL as" "distinct as"
    "heap_ok h"
    by (auto simp: list_rep_def split: option.splits)
  moreover from L have "0 < l" "l < l_fresh h" "0 < l_fresh h"
    using heap_ok_list [of h l L] by (simp_all add: heap_ok_def)
  moreover have "l_fresh h \<notin> set as" using list_rep_alloc [OF assms] by blast
  moreover from L have "l_front L = NULL \<longleftrightarrow> as = []" by (auto dest: dseg_cases_front)
  ultimately show thesis by (intro that [of L]) assumption+
qed

lemma get_entry_ok [simp]: "l_entries h p = Some e \<Longrightarrow> 0 < p \<Longrightarrow> get_entry h p = Inr e"
  by (simp add: get_entry_def)

lemma upd_entry_ok [simp]:
  "l_entries h p = Some e \<Longrightarrow> 0 < p \<Longrightarrow> upd_entry h p f = Inr (h\<lparr>l_entries := (l_entries h)(p \<mapsto> f e)\<rparr>)"
  by (simp add: upd_entry_def)

lemma get_list_ok [simp]: "l_lists h l = Some L \<Longrightarrow> 0 < l \<Longrightarrow> get_list h l = Inr L"
  by (simp add: get_list_def)

lemma list_create_rep:
  assumes "heap_ok h" and "list_create h = (l, h')"
  shows "list_rep h' l [] \<and> list_sized h' l []"
  using assms by (auto simp: list_create_def list_rep_def list_sized_def heap_ok_def last_or_def Let_def split: if_splits)

lemmas list_op_defs = list_create_entry_def list_delete_entry_def list_empty_def Let_def
  put_list_def

lemmas list_rep_defs = list_rep_def list_sized_def datas_def last_or_def heap_ok_def

lemma list_add_front_rep:
  assumes rep: "list_rep h l as"
  shows "returns (list_add_front h l data) (\<lambda>h'. list_rep h' l (l_fresh h # as)
    \<and> datas h' (l_fresh h # as) = data # datas h as \<and> l_fresh h' = Suc (l_fresh h)
    \<and> (list_sized h l as \<longrightarrow> list_sized h' l (l_fresh h # as)))"
proof -
  from rep obtain L where L: "l_lists h l = Some L" "0 < l" "l < l_fresh h"
    "dseg (l_entries h) NULL (l_front L) as NULL"
    "l_back L = last_or NULL as" "distinct as" "heap_ok h" "0 < l_fresh h" "l_fresh h \<notin> set as"
    "l_front L = NULL \<longleftrightarrow> as = []" by (rule list_repE)
  show ?thesis
  proof (cases as)
    case Nil
    with L show ?thesis
      by (simp add: list_add_front_def list_op_defs list_rep_defs)
  next
    case (Cons a as')
    with L obtain e where e: "l_entries h a = Some e" "l_front L = a" "a \<noteq> NULL"
      by (auto split: option.splits)
    have "a < l_fresh h" using e L heap_ok_entry by blast
    with e L Cons show ?thesis
      by (auto simp: list_add_front_def list_op_defs list_rep_defs  fun_upd_twist less_Suc_eq)
  qed
qed

lemma list_add_back_rep:
  assumes rep: "list_rep h l as"
  shows "returns (list_add_back h l data) (\<lambda>h'. list_rep h' l (as @ [l_fresh h])
    \<and> datas h' (as @ [l_fresh h]) = datas h as @ [data] \<and> l_fresh h' = Suc (l_fresh h)
    \<and> (list_sized h l as \<longrightarrow> list_sized h' l (as @ [l_fresh h])))"
proof -
  from assms obtain L where L: "l_lists h l = Some L" "0 < l" "l < l_fresh h"
    "dseg (l_entries h) NULL (l_front L) as NULL"
    "l_back L = last_or NULL as" "distinct as" "heap_ok h" "0 < l_fresh h" "l_fresh h \<notin> set as"
    "l_front L = NULL \<longleftrightarrow> as = []" by (rule list_repE)
  show ?thesis
  proof (cases as rule: rev_cases)
    case Nil
    with L show ?thesis
      by (simp add: list_add_back_def list_op_defs list_rep_defs)
  next
    case (snoc bs a)
    with L obtain e where e: "l_entries h a = Some e" "0 < a" "dseg (l_entries h) NULL (l_front L) bs a"
       "last_or 0 bs \<noteq> 0 \<longrightarrow> le_prev e = last_or 0 bs" "le_next e = 0"
      by (auto simp: dseg_append split: option.splits)
    have "a < l_fresh h" using e L heap_ok_entry by blast
    with L snoc e show ?thesis
      by (auto simp: list_add_back_def list_op_defs list_rep_defs fun_upd_twist less_Suc_eq dseg_append)
  qed
qed

lemma list_del_front_rep:
  assumes rep: "list_rep h l (a # as)"
  shows "returns (list_del_front h l) (\<lambda>(d, h'). d = hd (datas h [a]) \<and> list_rep h' l as
    \<and> datas h' as = datas h as \<and> l_fresh h' = l_fresh h
    \<and> l_entries h' = (l_entries h)(a := None)
    \<and> (list_sized h l (a # as) \<longrightarrow> list_sized h' l as))"
proof -
  from rep obtain L where L: "l_lists h l = Some L" "0 < l" "l < l_fresh h"
    "dseg (l_entries h) NULL (l_front L) (a # as) NULL"
    "l_back L = last_or NULL (a # as)" "distinct (a # as)" "heap_ok h" "0 < l_fresh h" "l_fresh h \<notin> set (a # as)"
    "l_front L = NULL \<longleftrightarrow> (a # as) = []" by (rule list_repE)
  then obtain e where e: "l_entries h a = Some e" "l_front L = a" "0 < a"
    "dseg (l_entries h) a (le_next e) as NULL" 
      by (auto split: option.splits)
  then have w: "dseg (l_entries h) NULL (le_next e) as NULL" by (auto dest: dseg_weaken)
  show ?thesis
  proof (cases "as = []")
    case True
    with L e w show ?thesis
      by (simp add: list_del_front_def list_op_defs list_rep_defs)
  next
    case False
    with L have "last as \<noteq> a" by (metis distinct.simps(2) last_in_set)
    with False L e w show ?thesis
      by (auto simp: list_del_front_def list_op_defs list_rep_defs)
  qed
qed

lemma list_del_front_empty: "list_rep h l [] \<Longrightarrow> list_del_front h l = Inr (NULL, h)"
  by (auto elim!: list_repE simp: list_del_front_def list_empty_def)

lemma dseg_split:
  "dseg E q p (bs @ a # cs) r \<longleftrightarrow> dseg E q p bs a \<and> a \<noteq> NULL \<and>
     (case E a of None \<Rightarrow> False | Some e \<Rightarrow> (last_or q bs \<noteq> NULL \<longrightarrow> le_prev e = last_or q bs)
        \<and> dseg E a (le_next e) cs r)"
  by (auto simp: dseg_append)

declare list_walk.simps [simp del]

lemma list_walk_dseg:
  "dseg (l_entries h) q p as NULL \<Longrightarrow> length as \<le> n \<Longrightarrow> list_walk n h p = Inr as"
proof (induction as arbitrary: q p n)
  case (Cons a as)
  then obtain m where "n = Suc m" by (cases n) auto
  with Cons show ?case by (auto simp: list_walk.simps [of "Suc m"] split: option.splits)
qed (simp add: list_walk.simps)

lemma list_rep_length: 
  assumes "list_rep h l as" shows "length as < l_fresh h"
proof -
  have "set as \<subseteq> {0<..<l_fresh h}" using list_rep_alloc [OF assms] by auto
  then have "card (set as) \<le> l_fresh h - 1" by (metis card_greaterThanLessThan card_mono finite_greaterThanLessThan diff_zero minus_nat.diff_Suc One_nat_def)
  with assms show ?thesis by (auto simp: distinct_card elim!: list_repE)
qed

lemma list_iterate_rep: "list_rep h l as \<Longrightarrow> list_iterate h l = Inr as"
  using list_rep_length [of h l as]
  by (auto elim!: list_repE simp: list_iterate_def dest: list_walk_dseg [where n = "l_fresh h"])

lemma list_front_rep: "list_rep h l as \<Longrightarrow> list_front h l = Inr (case datas h as of [] \<Rightarrow> NULL | d # _ \<Rightarrow> d)"
  by (cases as) (auto elim!: list_repE simp: list_front_def list_empty_def datas_def split: option.splits)

lemma list_back_rep: "list_rep h l as \<Longrightarrow> list_back h l = Inr (if as = [] then NULL else last (datas h as))"
  by (cases as rule: rev_cases) (auto elim!: list_repE simp: list_back_def list_empty_def datas_def last_or_def dseg_split split: option.splits)

lemma list_size_rep: "list_rep h l as \<Longrightarrow> list_sized h l as \<Longrightarrow> list_size h l = Inr (int (length as))"
  by (cases as) (auto elim!: list_repE simp: list_size_def list_empty_def list_sized_def split: option.splits)

lemma list_destroy_loop_rep:
  "list_rep h l as \<Longrightarrow> NULL \<notin> set (datas h as) \<Longrightarrow> length as < n \<Longrightarrow>
    returns (list_destroy_loop n h l) (\<lambda>h'. list_rep h' l [] \<and> l_entries h' = l_entries h |` (- set as))"
proof (induction as arbitrary: h n)
  case Nil
  then show ?case by (cases n) (auto simp: list_del_front_empty)
next
  case (Cons a as)
  then obtain m where n: "n = Suc m" by (cases n) auto
  from list_del_front_rep [OF Cons.prems(1)] obtain h' where
   h': "list_del_front h l = Inr (hd (datas h [a]), h')" "list_rep h' l as" "datas h' as = datas h as"
   "l_entries h' = (l_entries h)(a := None)"
    by (auto elim!: returnsE)
  moreover have "hd (datas h [a]) \<noteq> NULL" using Cons.prems(2) by (auto simp: datas_def)
  moreover have "returns (list_destroy_loop m h' l) (\<lambda>h''. list_rep h'' l [] \<and> l_entries h'' = l_entries h' |` (- set as))"
    using Cons n h' by (intro Cons.IH) (auto simp: datas_def)
  moreover have "l_entries h' |` (- set as) = l_entries h |` (- set (a # as))"
    using h' by (auto simp: restrict_map_def)
  ultimately show ?case using n by simp
qed

text \<open>The facts about the entry in the middle of a list, and about its neighbours.\<close>

lemma list_rep_splitE:
  assumes rep: "list_rep h l (bs @ a # cs)"
  obtains L e where "l_lists h l = Some L" "0 < l" "l < l_fresh h"
    "l_back L = last (a # cs)" "distinct (bs @ a # cs)" "heap_ok h" "l_fresh h \<notin> set (bs @ a # cs)"
    "0 < l_front L" "l_entries h a = Some e" "0 < a" "a < l_fresh h"
    "dseg (l_entries h) NULL (l_front L) bs a" "dseg (l_entries h) a (le_next e) cs NULL"
    "bs \<noteq> [] \<Longrightarrow> le_prev e = last bs" "l_front L = a \<longleftrightarrow> bs = []" "last (a # cs) = a \<longleftrightarrow> cs = []"
proof -
  from rep obtain L where L: "l_lists h l = Some L" "0 < l" "l < l_fresh h"
    "dseg (l_entries h) NULL (l_front L) (bs @ a # cs) NULL"
    "l_back L = last_or NULL (bs @ a # cs)" "distinct (bs @ a # cs)" "heap_ok h" "0 < l_fresh h"
    "l_fresh h \<notin> set (bs @ a # cs)" "l_front L = NULL \<longleftrightarrow> bs @ a # cs = []" by (rule list_repE)
  then obtain e where e: "l_entries h a = Some e" "0 < a" "dseg (l_entries h) NULL (l_front L) bs a"
     "last_or 0 bs \<noteq> 0 \<longrightarrow> le_prev e = last_or 0 bs" "dseg (l_entries h) a (le_next e) cs 0"
    by (auto simp: dseg_split split: option.splits)
  moreover have "bs \<noteq> [] \<Longrightarrow> last bs \<noteq> 0" using list_rep_alloc [OF rep, of "last bs"] by auto
  moreover have "l_front L = a \<longleftrightarrow> bs = []" using e L by (cases bs) auto
  moreover have "last (a # cs) = a \<longleftrightarrow> cs = []" using L by (auto dest: last_in_set)
  moreover have "a < l_fresh h" using e L heap_ok_entry by blast
  ultimately show thesis using L by (intro that [of L e]) (auto simp: last_or_def)
qed

lemma list_add_after_rep:
  assumes rep: "list_rep h l (bs @ a # cs)"
  shows "returns (list_add_after h l a data) (\<lambda>h'. list_rep h' l (bs @ a # l_fresh h # cs)
    \<and> datas h' (bs @ a # l_fresh h # cs) = datas h (bs @ [a]) @ data # datas h cs
    \<and> (list_sized h l (bs @ a # cs) \<longrightarrow> list_sized h' l (bs @ a # l_fresh h # cs)))"
  using rep
proof (rule list_rep_splitE)
  fix L e
  assume L: "l_lists h l = Some L" "0 < l" "l < l_fresh h"
    "l_back L = last (a # cs)" "distinct (bs @ a # cs)" "heap_ok h" "l_fresh h \<notin> set (bs @ a # cs)"
    "l_entries h a = Some e" "0 < a" "a < l_fresh h"
    "dseg (l_entries h) NULL (l_front L) bs a" "dseg (l_entries h) a (le_next e) cs NULL"
    "bs \<noteq> [] \<Longrightarrow> le_prev e = last bs" "last (a # cs) = a \<longleftrightarrow> cs = []"
  show ?thesis
  proof (cases cs)
    case Nil
    with L show ?thesis
      by (auto simp: list_add_after_def list_op_defs list_rep_defs dseg_split fun_upd_twist)
  next
    case (Cons c cs')
    with L obtain e2 where e2: "l_entries h c = Some e2" "le_next e = c" "0 < c"
       "dseg (l_entries h) c (le_next e2) cs' NULL"
      by (auto split: option.splits)
    have c: "c < l_fresh h" using e2 L heap_ok_entry by blast
    with L Cons e2 show ?thesis
      by (auto simp: list_add_after_def list_op_defs list_rep_defs dseg_split fun_upd_twist less_Suc_eq)
  qed
qed

definition front_clean :: "list_heap \<Rightarrow> ptr list \<Rightarrow> bool" where
  "front_clean h as \<longleftrightarrow> (case as of [] \<Rightarrow> True | a # _ \<Rightarrow>
     (case l_entries h a of None \<Rightarrow> False | Some e \<Rightarrow> le_prev e = NULL))"

lemma front_clean_Cons [simp]: "l_entries h a = Some e \<Longrightarrow> front_clean h (a # as) = (le_prev e = NULL)"
  by (simp add: front_clean_def)

lemma list_del_entry_front:
  assumes rep: "list_rep h l (a # cs)" and clean: "front_clean h (a # cs)"
  shows "returns (list_del_entry h l a) (\<lambda>(d, h'). d = hd (datas h [a]) \<and> list_rep h' l cs
    \<and> datas h' cs = datas h cs \<and> front_clean h' cs
    \<and> (list_sized h l (a # cs) \<longrightarrow> list_sized h' l (a # cs)))"
proof (rule list_rep_splitE [of h l "[]" a cs])
  from rep show "list_rep h l ([] @ a # cs)" by simp
next
  fix L e
  assume L: "l_lists h l = Some L" "0 < l" "l < l_fresh h"
    "l_back L = last (a # cs)" "distinct ([] @ a # cs)" "heap_ok h" "l_fresh h \<notin> set ([] @ a # cs)"
    "l_entries h a = Some e" "0 < a" "a < l_fresh h"
    "dseg (l_entries h) a (le_next e) cs NULL"
    "l_front L = a \<longleftrightarrow> ([] :: ptr list) = []" "last (a # cs) = a \<longleftrightarrow> cs = []"
  with clean have p: "le_prev e = NULL" by simp
  show ?thesis
  proof (cases cs)
    case Nil
    with L p show ?thesis
      by (simp add: list_del_entry_def list_op_defs list_rep_defs front_clean_def)
  next
    case (Cons c cs')
    with L obtain e2 where e2: "l_entries h c = Some e2" "le_next e = c" "0 < c"
      "dseg (l_entries h) c (le_next e2) cs' NULL"
      by (auto split: option.splits)
    have c: "c < l_fresh h" using e2 L heap_ok_entry by blast
    with L p Cons e2 show ?thesis
      by (auto simp: list_del_entry_def list_op_defs list_rep_defs front_clean_def)
  qed
qed

lemma list_del_entry_inner:
  assumes rep: "list_rep h l (bs @ a # cs)" and bs: "bs \<noteq> []"
  shows "returns (list_del_entry h l a) (\<lambda>(d, h'). d = hd (datas h [a]) \<and> list_rep h' l (bs @ cs)
    \<and> datas h' (bs @ cs) = datas h (bs @ cs) \<and> (front_clean h (bs @ a # cs) \<longrightarrow> front_clean h' (bs @ cs))
    \<and> (list_sized h l (bs @ a # cs) \<longrightarrow> list_sized h' l (bs @ a # cs)))"
  using rep
proof (rule list_rep_splitE)
  fix L e
  assume L: "l_lists h l = Some L" "0 < l" "l < l_fresh h"
    "l_back L = last (a # cs)" "distinct (bs @ a # cs)" "heap_ok h" "l_fresh h \<notin> set (bs @ a # cs)"
    "l_entries h a = Some e" "0 < a" "a < l_fresh h"
    "dseg (l_entries h) NULL (l_front L) bs a" "dseg (l_entries h) a (le_next e) cs NULL"
    "bs \<noteq> [] \<Longrightarrow> le_prev e = last bs" "l_front L = a \<longleftrightarrow> bs = []" "last (a # cs) = a \<longleftrightarrow> cs = []"
  from bs obtain bs' b where b: "bs = bs' @ [b]" by (cases bs rule: rev_cases) auto
  with L obtain eb where eb: "l_entries h b = Some eb" "le_next eb = a" "0 < b" "le_prev e = b"
     "dseg (l_entries h) NULL (l_front L) bs' b" "last_or NULL bs' \<noteq> NULL \<Longrightarrow> le_prev eb = last_or NULL bs'"
    by (auto simp: dseg_split split: option.splits)
  have b2: "b < l_fresh h" using eb L heap_ok_entry by blast
  show ?thesis
  proof (cases cs)
    case Nil
    with b b2 L eb show ?thesis
      by (cases bs') (auto simp: list_del_entry_def list_op_defs list_rep_defs front_clean_def dseg_split split: option.splits)
  next
    case (Cons c cs')
    with L obtain e2 where e2: "l_entries h c = Some e2" "le_next e = c" "0 < c"
      "dseg (l_entries h) c (le_next e2) cs' NULL"
      by (auto split: option.splits)
    have c: "c < l_fresh h" using e2 L heap_ok_entry by blast
    with b b2 L eb Cons e2 show ?thesis
      by (cases bs') (auto simp: list_del_entry_def list_op_defs list_rep_defs front_clean_def dseg_split fun_upd_twist split: option.splits)
  qed
qed

lemma list_del_entry_rep:
  assumes "list_rep h l (bs @ a # cs)" and "front_clean h (bs @ a # cs)"
  shows "returns (list_del_entry h l a) (\<lambda>(d, h'). d = hd (datas h [a]) \<and> list_rep h' l (bs @ cs)
    \<and> datas h' (bs @ cs) = datas h (bs @ cs) \<and> front_clean h' (bs @ cs)
    \<and> (list_sized h l (bs @ a # cs) \<longrightarrow> list_sized h' l (bs @ a # cs)))"
proof (cases bs)
  case Nil
  with list_del_entry_front [of h l a cs] assms show ?thesis by simp
next
  case (Cons b bs')
  with list_del_entry_inner [of h l bs a cs] assms show ?thesis by auto
qed

section \<open>The list as a queue\<close>

type_synonym list_handle = "list_heap \<times> ptr"

definition list_queue_inv :: "list_handle \<Rightarrow> bool" where
  "list_queue_inv s \<longleftrightarrow> (\<exists>as. list_rep (fst s) (snd s) as \<and> list_sized (fst s) (snd s) as)"

definition list_items :: "list_handle \<Rightarrow> ptr list" where
  "list_items s = (case list_iterate (fst s) (snd s) of Inl e \<Rightarrow> [] | Inr as \<Rightarrow> datas (fst s) as)"

definition list_put :: "list_handle \<Rightarrow> ptr \<Rightarrow> list_handle res" where
  "list_put s d = rbind (list_add_back (fst s) (snd s) d) (\<lambda>h. Inr (h, snd s))"

definition list_get :: "list_handle \<Rightarrow> (ptr \<times> list_handle) res" where
  "list_get s = rbind (list_del_front (fst s) (snd s)) (\<lambda>(d, h). Inr (d, (h, snd s)))"

lemma list_items_rep: "list_rep h l as \<Longrightarrow> list_items (h, l) = datas h as"
  by (simp add: list_items_def list_iterate_rep)

lemma list_put_step:
  assumes "list_queue_inv s"
  shows "\<exists>s'. list_put s d = Inr s' \<and> list_queue_inv s' \<and> list_items s' = list_items s @ [d]"
proof -
  obtain h l where s: "s = (h, l)" by (cases s)
  with assms obtain as where "list_rep h l as" "list_sized h l as" by (auto simp: list_queue_inv_def)
  with list_add_back_rep [of h l as d] s show ?thesis
    by (auto elim!: returnsE simp: list_put_def list_queue_inv_def list_items_rep)
qed

lemma list_get_step:
  assumes "list_queue_inv s" and "list_items s = d # ds"
  shows "\<exists>s'. list_get s = Inr (d, s') \<and> list_queue_inv s' \<and> list_items s' = ds"
proof -
  obtain h l where s: "s = (h, l)" by (cases s)
  with assms obtain as where as: "list_rep h l as" "list_sized h l as" "datas h as = d # ds"
    by (auto simp: list_queue_inv_def list_items_rep)
  then obtain a bs where "as = a # bs" "hd (datas h [a]) = d" "datas h bs = ds" by (cases as) (auto simp: datas_def)
  with as list_del_front_rep [of h l a bs] s show ?thesis
    by (auto elim!: returnsE simp: list_get_def list_queue_inv_def list_items_rep)
qed

interpretation lq: fifo list_queue_inv list_items "\<lambda>_ _. True" "\<lambda>_. True" list_put list_get
proof
  fix s :: list_handle and x n
  assume "list_queue_inv s"
  then show "\<exists>s'. list_put s x = Inr s' \<and> list_queue_inv s' \<and> list_items s' = list_items s @ [x] \<and> True"
    using list_put_step [of s x] by auto
next
  fix s :: list_handle and x xs
  assume "list_queue_inv s" "list_items s = x # xs"
  then show "\<exists>s'. list_get s = Inr (x, s') \<and> list_queue_inv s' \<and> list_items s' = xs"
    by (rule list_get_step)
qed

lemma list_create_inv: "heap_ok h \<Longrightarrow> list_create h = (l, h') \<Longrightarrow> list_queue_inv (h', l) \<and> list_items (h', l) = []"
  using list_create_rep [of h l h'] by (auto simp: list_queue_inv_def list_items_rep datas_def)

lemma empty_heap_ok [simp]: "heap_ok empty_heap"
  by (simp add: heap_ok_def empty_heap_def within_def)

lemma list_size_counter:
  "list_rep h l as \<Longrightarrow> as \<noteq> [] \<Longrightarrow> list_sized h l bs \<Longrightarrow> list_size h l = Inr (int (length bs))"
  by (auto elim!: list_repE simp: list_size_def list_empty_def list_sized_def split: option.splits)

lemma list_walk_dangling:
  "dseg (l_entries h) q p as r \<Longrightarrow> r \<noteq> NULL \<Longrightarrow> l_entries h r = None \<Longrightarrow> length as < n \<Longrightarrow>
     list_walk n h p = Inl Bad_access"
proof (induction as arbitrary: q p n)
  case Nil
  then show ?case by (cases n) (auto simp: list_walk.simps get_entry_def)
next
  case (Cons a as)
  then obtain m where "n = Suc m" by (cases n) auto
  with Cons show ?case by (auto simp: list_walk.simps [of "Suc m"] split: option.splits)
qed

lemma list_del_front_stale:
  assumes rep: "list_rep h l (a # b # cs)" and h': "list_rep h' l (b # cs)"
    "l_entries h' = (l_entries h)(a := None)"
  shows "list_del_entry h' l b = Inl Bad_access"
proof -
  have "b \<noteq> a" using rep by (auto elim!: list_repE)
  moreover obtain e where "l_entries h b = Some e" "le_prev e = a" "0 < a" "0 < b"
     "dseg (l_entries h) b (le_next e) cs NULL"
    using rep by (auto elim!: list_repE split: option.splits)
  moreover have "a \<notin> set cs" using rep by (auto elim!: list_repE)
  ultimately show ?thesis using h'
    by (cases cs) (auto simp: list_del_entry_def get_entry_def upd_entry_def split: option.splits)
qed

section \<open>What the operations do to a list\<close>

text \<open>A list of three entries, for the concrete instances below.\<close>

definition three_list :: list_heap where
  "three_list = \<lparr>
     l_entries = [2 \<mapsto> \<lparr>le_data = 70, le_next = 3, le_prev = 0\<rparr>,
                  3 \<mapsto> \<lparr>le_data = 80, le_next = 4, le_prev = 2\<rparr>,
                  4 \<mapsto> \<lparr>le_data = 90, le_next = 0, le_prev = 3\<rparr>],
     l_lists = [1 \<mapsto> \<lparr>l_front = 2, l_back = 4, l_size = 3\<rparr>],
     l_fresh = 5\<rparr>"

lemma three_list_rep:
  "list_rep three_list 1 [2, 3, 4]" "list_sized three_list 1 [2, 3, 4]"
  "front_clean three_list [2, 3, 4]" "datas three_list [2, 3, 4] = [70, 80, 90]"
  by (simp_all add: three_list_def list_rep_def heap_ok_def within_def list_sized_def front_clean_def
    datas_def last_or_def)






text \<open>
  \<^verbatim>\<open>list_del_entry\<close> removes exactly the given entry and returns its pointer, wherever it is in
  the list, provided the first entry's \<^verbatim>\<open>prev\<close> is \<^verbatim>\<open>NULL\<close>; but the size counter keeps its old
  value, so \<^verbatim>\<open>list_size\<close> is one too large from then on.
\<close>

theorem list_del_entry_spec:
  assumes "list_rep h l (bs @ a # cs)" and "list_sized h l (bs @ a # cs)" and "front_clean h (bs @ a # cs)"
    and "bs @ cs \<noteq> []"
  shows "returns (list_del_entry h l a) (\<lambda>(d, h'). [d] = datas h [a]
    \<and> list_iterate h' l = Inr (bs @ cs) \<and> datas h' (bs @ cs) = datas h (bs @ cs)
    \<and> list_size h' l = Inr (int (length (bs @ cs)) + 1))"
  using list_del_entry_rep [OF assms(1,3)] assms(2,4)
  by (auto elim!: returnsE simp: list_iterate_rep datas_def list_size_counter [where bs = "bs @ a # cs"])

theorem list_del_entry_spec_witness:
  "returns (list_del_entry three_list 1 3) (\<lambda>(d, h'). d = 80 \<and> list_iterate h' 1 = Inr [2, 4]
     \<and> list_size h' 1 = Inr 3)"
  using list_del_entry_spec [of three_list 1 "[2]" 3 "[4]"] three_list_rep
  by (auto elim!: returnsE simp: datas_def)

text \<open>
  \<^verbatim>\<open>list_del_front\<close> leaves the \<^verbatim>\<open>prev\<close> link of the new first entry pointing at the entry it
  freed: \<^verbatim>\<open>list_del_entry\<close> on that entry then writes through the freed pointer.
\<close>

theorem list_del_front_stale_prev:
  assumes "list_rep h l (a # b # cs)"
  shows "returns (list_del_front h l) (\<lambda>(d, h'). list_del_entry h' l b = Inl Bad_access)"
  using list_del_front_rep [OF assms] list_del_front_stale [OF assms] by (auto elim!: returnsE)

theorem list_del_front_stale_prev_witness:
  "returns (list_del_front three_list 1) (\<lambda>(d, h'). list_del_entry h' 1 3 = Inl Bad_access)"
  using list_del_front_stale_prev [OF three_list_rep(1)] .

text \<open>
  \<^verbatim>\<open>list_del_back\<close> does not clear the \<^verbatim>\<open>next\<close> link of the new last entry: when the list had
  more than one entry, the next iteration over it runs into the freed one.
\<close>

theorem list_del_back_dangles:
  assumes "list_rep h l (bs @ [b, a])"
  shows "returns (list_del_back h l) (\<lambda>(d, h'). [d] = datas h [a] \<and> list_iterate h' l = Inl Bad_access)"
  using assms
proof (rule list_rep_splitE)
  fix L e
  assume L: "l_lists h l = Some L" "0 < l" "l < l_fresh h"
    "l_back L = last (b # [a])" "distinct (bs @ b # [a])" "heap_ok h"
    "0 < l_front L" "l_entries h b = Some e" "0 < b" 
    "dseg (l_entries h) NULL (l_front L) bs b" "dseg (l_entries h) b (le_next e) [a] NULL"
    "bs \<noteq> [] \<Longrightarrow> le_prev e = last bs" "l_front L = b \<longleftrightarrow> bs = []"
  then obtain x where x: "l_entries h a = Some x" "0 < a" "le_next e = a"
    by (auto split: option.splits)
  have "l_front L \<noteq> a" using L by (cases bs) auto
  moreover have "list_walk (l_fresh h) h' (l_front L) = Inl Bad_access"
    if "l_entries h' = (l_entries h)(a := None)" for h'
    using that L x list_rep_length [OF assms]
    by (intro list_walk_dangling [where as = "bs @ [b]" and r = a and q = NULL])
      (auto simp: dseg_split last_or_def split: option.splits)
  ultimately show ?thesis using L x
    by (simp add: list_del_back_def list_op_defs list_iterate_def datas_def)
qed

theorem list_del_back_dangles_witness:
  "returns (list_del_back three_list 1) (\<lambda>(d, h'). [d] = datas three_list [4] \<and> list_iterate h' 1 = Inl Bad_access)"
  by (rule list_del_back_dangles [of three_list 1 "[2]" 3 4]) (simp add: three_list_rep [unfolded One_nat_def])



end
