(* ===== verification/Kos_Ringbuffer.thy ===== *)
theory Kos_Ringbuffer
  imports Kos_Fifo
begin

text \<open>
  The ring buffer of \<^verbatim>\<open>kernel/util/ringbuffer.c\<close>, which carries the messages of a process and
  the input of a terminal: a byte buffer with read and write indices in bytes, all counts at
  their 32 bits. The theory shows that without the override flag it is a bounded queue of
  elements, that reads and writes of any count return what they say, and what the override
  flag does to the counters.
\<close>

section \<open>Data and operations\<close>

record ringbuffer =
  rb_data :: "u8 list"
  rb_esize :: u32
  rb_maxcnt :: u32
  rb_count :: u32
  rb_ridx :: u32
  rb_widx :: u32
  rb_override :: bool

text \<open>
  \<^verbatim>\<open>kmalloc\<close> does not fail (with \<^verbatim>\<open>CONF_SAFE_KMALLOC\<close> it panics instead) and returns a block
  of the size asked for with arbitrary content \<open>mem\<close>; \<^verbatim>\<open>esize * num\<close> wraps.
\<close>

definition rbuf_create :: "(nat \<Rightarrow> u8) \<Rightarrow> u32 \<Rightarrow> u32 \<Rightarrow> bool \<Rightarrow> ringbuffer" where
  "rbuf_create mem esize num ovr =
     \<lparr>rb_data = map mem [0..<unat (esize * num)], rb_esize = esize, rb_maxcnt = num,
      rb_count = 0, rb_ridx = 0, rb_widx = 0, rb_override = ovr\<rparr>"

text \<open>The first two arguments may be \<^verbatim>\<open>NULL\<close>; then nothing happens.\<close>

definition rbuf_init_static ::
    "ringbuffer option \<Rightarrow> u8 list option \<Rightarrow> u32 \<Rightarrow> u32 \<Rightarrow> bool \<Rightarrow> ringbuffer option" where
  "rbuf_init_static rb data esize num ovr =
     (case rb of None \<Rightarrow> None
      | Some r \<Rightarrow> (case data of None \<Rightarrow> Some r
        | Some d \<Rightarrow> Some (r\<lparr>rb_data := d, rb_esize := esize, rb_maxcnt := num, rb_override := ovr,
                            rb_count := 0, rb_ridx := 0, rb_widx := 0\<rparr>)))"

definition rbuf_empty :: "ringbuffer \<Rightarrow> bool" where
  "rbuf_empty rb = (rb_count rb = 0)"

definition rbuf_avail :: "ringbuffer \<Rightarrow> u32" where
  "rbuf_avail rb = rb_count rb"

definition rbuf_freesize :: "ringbuffer \<Rightarrow> u32" where
  "rbuf_freesize rb = rb_maxcnt rb - rb_count rb"

text \<open>\<^verbatim>\<open>idx += esize; idx %= maxcnt * esize;\<close>\<close>

definition rbuf_next :: "ringbuffer \<Rightarrow> u32 \<Rightarrow> u32 res" where
  "rbuf_next rb idx =
     (if rb_maxcnt rb * rb_esize rb = 0 then Inl Div_by_zero
      else Inr ((idx + rb_esize rb) mod (rb_maxcnt rb * rb_esize rb)))"

fun rbuf_write_loop :: "nat \<Rightarrow> u32 \<Rightarrow> ringbuffer \<Rightarrow> u8 list \<Rightarrow> ringbuffer res" where
  "rbuf_write_loop 0 i rb src = Inr rb"
| "rbuf_write_loop (Suc n) i rb src =
     rbind (buf_read src (unat (i * rb_esize rb)) (unat (rb_esize rb))) (\<lambda>e.
     rbind (buf_write (rb_data rb) (unat (rb_widx rb)) e) (\<lambda>d.
     rbind (rbuf_next rb (rb_widx rb)) (\<lambda>w.
     rbuf_write_loop n (i + 1) (rb\<lparr>rb_data := d, rb_widx := w\<rparr>) src)))"

definition rbuf_write :: "ringbuffer \<Rightarrow> u8 list \<Rightarrow> u32 \<Rightarrow> (u32 \<times> ringbuffer) res" where
  "rbuf_write rb src count =
     (let num = (if count > rbuf_freesize rb \<and> \<not> rb_override rb then rbuf_freesize rb else count)
      in rbind (rbuf_write_loop (unat num) 0 rb src) (\<lambda>rb.
           Inr (num, rb\<lparr>rb_count := rb_count rb + num\<rparr>)))"

fun rbuf_read_loop :: "nat \<Rightarrow> u32 \<Rightarrow> ringbuffer \<Rightarrow> u8 list \<Rightarrow> (u8 list \<times> ringbuffer) res" where
  "rbuf_read_loop 0 i rb dst = Inr (dst, rb)"
| "rbuf_read_loop (Suc n) i rb dst =
     rbind (buf_read (rb_data rb) (unat (rb_ridx rb)) (unat (rb_esize rb))) (\<lambda>e.
     rbind (buf_write dst (unat (i * rb_esize rb)) e) (\<lambda>dst.
     rbind (rbuf_next rb (rb_ridx rb)) (\<lambda>r.
     rbuf_read_loop n (i + 1) (rb\<lparr>rb_ridx := r\<rparr>) dst)))"

definition rbuf_read :: "ringbuffer \<Rightarrow> u8 list \<Rightarrow> u32 \<Rightarrow> (u32 \<times> u8 list \<times> ringbuffer) res" where
  "rbuf_read rb dst count =
     (let num = (if count > rbuf_avail rb then rbuf_avail rb else count)
      in rbind (rbuf_read_loop (unat num) 0 rb dst) (\<lambda>(dst, rb).
           Inr (num, dst, rb\<lparr>rb_count := rb_count rb - num\<rparr>)))"

section \<open>The buffer as a sequence of elements\<close>

text \<open>
  \<open>rb_at rb r c\<close>: the buffer has its read index at element \<open>r\<close> and its write index \<open>c\<close> elements
  further on. Between the loop of \<^verbatim>\<open>rbuf_write\<close> and the update of \<^verbatim>\<open>count\<close> the two differ, so
  \<open>c\<close> is a separate argument.
\<close>

definition rb_at :: "ringbuffer \<Rightarrow> nat \<Rightarrow> nat \<Rightarrow> bool" where
  "rb_at rb r c \<longleftrightarrow>
     (let E = unat (rb_esize rb); M = unat (rb_maxcnt rb)
      in 0 < E \<and> 0 < M \<and> M * E < 2 ^ 32 \<and> length (rb_data rb) = M * E
         \<and> r < M \<and> unat (rb_ridx rb) = r * E \<and> c \<le> M
         \<and> unat (rb_widx rb) = ((r + c) mod M) * E)"

definition items_at :: "ringbuffer \<Rightarrow> nat \<Rightarrow> nat \<Rightarrow> u8 list list" where
  "items_at rb r c =
     map (\<lambda>k. chunk (unat (rb_esize rb)) (rb_data rb) ((r + k) mod unat (rb_maxcnt rb))) [0..<c]"

definition rb_first :: "ringbuffer \<Rightarrow> nat" where
  "rb_first rb = unat (rb_ridx rb) div unat (rb_esize rb)"

definition rb_inv :: "ringbuffer \<Rightarrow> bool" where
  "rb_inv rb \<longleftrightarrow> rb_at rb (rb_first rb) (unat (rb_count rb)) \<and> \<not> rb_override rb"

definition rb_items :: "ringbuffer \<Rightarrow> u8 list list" where
  "rb_items rb = items_at rb (rb_first rb) (unat (rb_count rb))"

lemma rbuf_next_at:
  assumes at: "rb_at rb r c" and k: "k < unat (rb_maxcnt rb)" and idx: "unat idx = k * unat (rb_esize rb)"
  shows "\<exists>w. rbuf_next rb idx = Inr w \<and> unat w = ((k + 1) mod unat (rb_maxcnt rb)) * unat (rb_esize rb)"
proof -
  define E M where "E = unat (rb_esize rb)" and "M = unat (rb_maxcnt rb)"
  from at have EM: "0 < E" "0 < M" "M * E < 4294967296" by (simp_all add: rb_at_def Let_def E_def M_def)
  have me: "unat (rb_maxcnt rb * rb_esize rb) = M * E"
    using EM by (simp add: unat_mult_u32 E_def M_def)
  moreover have "unat (idx + rb_esize rb) = (k + 1) * E"
    using EM slot_le [of k M E] k idx by (simp add: unat_add_u32 E_def M_def)
  ultimately have "unat ((idx + rb_esize rb) mod (rb_maxcnt rb * rb_esize rb)) = ((k + 1) mod M) * E"
    by (simp only: unat_mod_u32 mod_mult_mult2)
  moreover have "rb_maxcnt rb * rb_esize rb \<noteq> 0" using me EM by auto
  ultimately show ?thesis by (auto simp: rbuf_next_def E_def M_def)
qed


text \<open>One round of the write loop puts one element behind the others.\<close>

lemma rb_write_step:
  assumes at: "rb_at rb r c" and c: "c < unat (rb_maxcnt rb)" and e: "length e = unat (rb_esize rb)"
  shows "\<exists>d w. buf_write (rb_data rb) (unat (rb_widx rb)) e = Inr d \<and> rbuf_next rb (rb_widx rb) = Inr w
    \<and> rb_at (rb\<lparr>rb_data := d, rb_widx := w\<rparr>) r (Suc c)
    \<and> items_at (rb\<lparr>rb_data := d, rb_widx := w\<rparr>) r (Suc c) = items_at rb r c @ [e]"
proof -
  define E M p where "E = unat (rb_esize rb)" and "M = unat (rb_maxcnt rb)" and "p = (r + c) mod M"
  from at have A: "0 < E" "0 < M" "M * E < 4294967296" "length (rb_data rb) = M * E" "r < M"
    "unat (rb_ridx rb) = r * E" "c \<le> M" "unat (rb_widx rb) = p * E" 
    by (simp_all add: rb_at_def Let_def E_def M_def p_def)
  have p: "p < M" using A by (simp add: p_def)
  define d where "d = take (p * E) (rb_data rb) @ e @ drop (p * E + E) (rb_data rb)"
  have d: "buf_write (rb_data rb) (unat (rb_widx rb)) e = Inr d"
    using A e slot_le [OF p, of E] unfolding d_def E_def [symmetric] 
    by (simp add: buf_write_ok add.commute E_def)
  from rbuf_next_at [OF at, of p "rb_widx rb"] obtain w where
    w: "rbuf_next rb (rb_widx rb) = Inr w" "unat w = ((p + 1) mod M) * E"
    using A p by (auto simp: E_def M_def)
  have len: "length d = M * E" using buf_write_length [OF d] A by simp
  have pc: "(p + 1) mod M = (r + Suc c) mod M" by (simp add: p_def mod_Suc_eq)
  have "rb_at (rb\<lparr>rb_data := d, rb_widx := w\<rparr>) r (Suc c)"
    using A w len c pc by (simp add: rb_at_def Let_def E_def M_def)
  moreover have "chunk E d ((r + k) mod M) = chunk E (rb_data rb) ((r + k) mod M)" if k: "k < c" for k
  proof -
    have "(r + k) mod M \<noteq> p"
    proof
      assume eq: "(r + k) mod M = p"
      have "c - k = (r + c) - (r + k)" by simp
      then have "M dvd c - k" using eq unfolding p_def by (metis k add_le_cancel_left less_imp_le mod_eq_dvd_iff_nat)
      then show False using k c by (auto simp: M_def dest: dvd_imp_le)
    qed
    then show ?thesis using chunk_write [OF p, of "(r + k) mod M" "rb_data rb" E e d] A e
      by (simp add: d_def E_def)
  qed
  moreover have "chunk E d p = e"
    using chunk_write [OF p p, of "rb_data rb" E e d] A e by (simp add: d_def E_def)
  ultimately show ?thesis using d w
    by (auto simp: items_at_def E_def M_def p_def)
qed


lemma rb_atD:
  assumes "rb_at rb r c"
  shows "0 < unat (rb_esize rb)" "0 < unat (rb_maxcnt rb)"
    "unat (rb_maxcnt rb) * unat (rb_esize rb) < 4294967296"
    "length (rb_data rb) = unat (rb_maxcnt rb) * unat (rb_esize rb)"
    "r < unat (rb_maxcnt rb)" "unat (rb_ridx rb) = r * unat (rb_esize rb)"
    "c \<le> unat (rb_maxcnt rb)" "unat (rb_widx rb) = ((r + c) mod unat (rb_maxcnt rb)) * unat (rb_esize rb)"
  using assms by (simp_all add: rb_at_def Let_def)

lemma elem_index:
  assumes "rb_at rb r c" and "k < unat (rb_maxcnt rb)" and "unat i = k"
  shows "unat (i * rb_esize rb) = k * unat (rb_esize rb) \<and> unat (i + 1) = k + 1"
  using elem_offset [OF assms(2) _ assms(3)] rb_atD(1,3) [OF assms(1)] by blast

lemma rbuf_write_loop_at:
  assumes "rb_at rb r c" and "c + n \<le> unat (rb_maxcnt rb)" and "k + n \<le> unat (rb_maxcnt rb)"
    and "unat i = k" and "(k + n) * unat (rb_esize rb) \<le> length src"
  shows "\<exists>rb'. rbuf_write_loop n i rb src = Inr rb' \<and> rb_at rb' r (c + n)
    \<and> items_at rb' r (c + n) = items_at rb r c @ map (\<lambda>j. chunk (unat (rb_esize rb)) src (k + j)) [0..<n]
    \<and> rb_count rb' = rb_count rb \<and> rb_esize rb' = rb_esize rb \<and> rb_maxcnt rb' = rb_maxcnt rb
    \<and> rb_override rb' = rb_override rb"
  using assms
proof (induction n arbitrary: rb c i k)
  case 0
  then show ?case by auto
next
  case (Suc n)
  let ?E = "unat (rb_esize rb)"
  have i: "unat (i * rb_esize rb) = k * ?E" "unat (i + 1) = k + 1"
    using elem_index [OF Suc.prems(1), of k i] Suc.prems by auto
  have "(k + 1) * ?E \<le> (k + Suc n) * ?E" by (intro mult_le_mono1) simp
  also have "\<dots> \<le> length src" by (rule Suc.prems)
  finally have src: "k * ?E + ?E \<le> length src" by simp
  then have e: "buf_read src (k * ?E) ?E = Inr (chunk ?E src k)" "length (chunk ?E src k) = ?E"
    by (simp_all add: buf_read_ok chunk_def)
  from rb_write_step [OF Suc.prems(1) _ e(2)] Suc.prems obtain d w where dw:
    "buf_write (rb_data rb) (unat (rb_widx rb)) (chunk ?E src k) = Inr d"
    "rbuf_next rb (rb_widx rb) = Inr w" "rb_at (rb\<lparr>rb_data := d, rb_widx := w\<rparr>) r (Suc c)"
    "items_at (rb\<lparr>rb_data := d, rb_widx := w\<rparr>) r (Suc c) = items_at rb r c @ [chunk ?E src k]"
    by auto
  have "map (\<lambda>j. chunk ?E src (k + j)) [0..<Suc n] = chunk ?E src k # map (\<lambda>j. chunk ?E src (Suc k + j)) [0..<n]"
    by (simp add: map_upt_Suc del: upt_Suc)
  with Suc.IH [OF dw(3), of "k + 1" "i + 1"] Suc.prems dw i e show ?case by (auto simp del: upt_Suc)
qed

text \<open>One round of the read loop takes the oldest element.\<close>

lemma rb_read_step:
  assumes at: "rb_at rb r (Suc c)"
  shows "\<exists>e w. buf_read (rb_data rb) (unat (rb_ridx rb)) (unat (rb_esize rb)) = Inr e
    \<and> length e = unat (rb_esize rb) \<and> rbuf_next rb (rb_ridx rb) = Inr w
    \<and> rb_at (rb\<lparr>rb_ridx := w\<rparr>) ((r + 1) mod unat (rb_maxcnt rb)) c
    \<and> items_at rb r (Suc c) = e # items_at (rb\<lparr>rb_ridx := w\<rparr>) ((r + 1) mod unat (rb_maxcnt rb)) c"
proof -
  let ?E = "unat (rb_esize rb)" and ?M = "unat (rb_maxcnt rb)"
  note A = rb_atD [OF at]
  from rbuf_next_at [OF at, of r "rb_ridx rb"] obtain w where
    w: "rbuf_next rb (rb_ridx rb) = Inr w" "unat w = ((r + 1) mod ?M) * ?E" using A by auto
  have e: "buf_read (rb_data rb) (unat (rb_ridx rb)) ?E = Inr (chunk ?E (rb_data rb) r)"
    "length (chunk ?E (rb_data rb) r) = ?E"
    using slot_le [OF A(5), of ?E] A by (simp_all add: buf_read_ok chunk_def add.commute)
  have "((r + 1) mod ?M + c) mod ?M = (r + Suc c) mod ?M"
    by (metis add_Suc_right add_Suc Suc_eq_plus1 mod_add_left_eq)
  then have "rb_at (rb\<lparr>rb_ridx := w\<rparr>) ((r + 1) mod ?M) c"
    using A w by (simp add: rb_at_def Let_def)
  moreover have "items_at rb r (Suc c) = chunk ?E (rb_data rb) r # items_at (rb\<lparr>rb_ridx := w\<rparr>) ((r + 1) mod ?M) c"
    using A by (simp add: items_at_def map_upt_Suc mod_simps del: upt_Suc)
  ultimately show ?thesis using e w by blast
qed

lemma buf_write_at:
  assumes "length pre + length e \<le> length dst" "dst = pre @ post"
  shows "buf_write dst (length pre) e = Inr (pre @ e @ drop (length e) post)"
  using assms by (auto simp: buf_write_ok)

lemma rbuf_read_loop_at:
  assumes "rb_at rb r (n + c)" and "unat i = k" and "k + n \<le> unat (rb_maxcnt rb)"
    and "length pre = k * unat (rb_esize rb)" and "n * unat (rb_esize rb) \<le> length post"
  shows "\<exists>rb' r'. rbuf_read_loop n i rb (pre @ post)
      = Inr (pre @ concat (take n (items_at rb r (n + c))) @ drop (n * unat (rb_esize rb)) post, rb')
    \<and> rb_at rb' r' c \<and> items_at rb' r' c = drop n (items_at rb r (n + c))
    \<and> rb_count rb' = rb_count rb \<and> rb_esize rb' = rb_esize rb \<and> rb_maxcnt rb' = rb_maxcnt rb
    \<and> rb_override rb' = rb_override rb"
  using assms
proof (induction n arbitrary: rb r i k pre post)
  case 0
  then show ?case by auto
next
  case (Suc n)
  let ?E = "unat (rb_esize rb)"
  from rb_read_step [of rb r "n + c"] Suc.prems(1) obtain e w where
    s: "buf_read (rb_data rb) (unat (rb_ridx rb)) ?E = Inr e" "length e = ?E"
    "rbuf_next rb (rb_ridx rb) = Inr w"
    "rb_at (rb\<lparr>rb_ridx := w\<rparr>) ((r + 1) mod unat (rb_maxcnt rb)) (n + c)"
    "items_at rb r (Suc n + c) = e # items_at (rb\<lparr>rb_ridx := w\<rparr>) ((r + 1) mod unat (rb_maxcnt rb)) (n + c)"
    by auto
  have i: "unat (i * rb_esize rb) = length pre" "unat (i + 1) = k + 1"
    using elem_index [OF Suc.prems(1), of k i] Suc.prems by auto
  have w: "buf_write (pre @ post) (length pre) e = Inr ((pre @ e) @ drop ?E post)"
    using buf_write_at [of pre e "pre @ post" post] s(2) Suc.prems(5) by simp
  from Suc.IH [OF s(4), of "i + 1" "k + 1" "pre @ e" "drop ?E post"] s i w Suc.prems
  show ?case by (auto simp: add.commute)
qed


lemma rb_first_at: "rb_at rb r c \<Longrightarrow> rb_first rb = r"
  using rb_atD(1,6) [of rb r c] by (simp add: rb_first_def)

lemma items_at_cong:
  "rb_data rb' = rb_data rb \<Longrightarrow> rb_esize rb' = rb_esize rb \<Longrightarrow> rb_maxcnt rb' = rb_maxcnt rb \<Longrightarrow>
     items_at rb' r c = items_at rb r c"
  by (simp add: items_at_def)

lemma rb_inv_freesize:
  assumes "rb_inv rb"
  shows "unat (rbuf_freesize rb) = unat (rb_maxcnt rb) - unat (rb_count rb)"
  using rb_atD(7) assms unfolding rb_inv_def rbuf_freesize_def
  by (metis unat_sub word_le_nat_alt)

lemma rb_inv_count: "rb_inv rb \<Longrightarrow> length (rb_items rb) = unat (rb_count rb) \<and> unat (rb_count rb) \<le> unat (rb_maxcnt rb)"
  using rb_atD(7) by (auto simp: rb_inv_def rb_items_def items_at_def)

lemma rbuf_write_inv:
  assumes inv: "rb_inv rb" and src: "unat count * unat (rb_esize rb) \<le> length src"
  shows "returns (rbuf_write rb src count) (\<lambda>(num, rb').
    unat num = min (unat count) (unat (rb_maxcnt rb) - length (rb_items rb)) \<and> rb_inv rb'
    \<and> rb_items rb' = rb_items rb @ chunks (unat (rb_esize rb)) src (unat num)
    \<and> rb_esize rb' = rb_esize rb \<and> rb_maxcnt rb' = rb_maxcnt rb)"
proof -
  let ?E = "unat (rb_esize rb)"
  define num where "num = (if count > rbuf_freesize rb then rbuf_freesize rb else count)"
  have at: "rb_at rb (rb_first rb) (unat (rb_count rb))" and ovr: "\<not> rb_override rb"
    using inv by (auto simp: rb_inv_def)
  have cnt: "unat (rb_count rb) \<le> unat (rb_maxcnt rb)" using rb_atD(7) [OF at] .
  have num: "unat num = min (unat count) (unat (rb_maxcnt rb) - unat (rb_count rb))"
    using rb_inv_freesize [OF inv] by (auto simp: num_def word_less_nat_alt)
  have "unat num * ?E \<le> unat count * ?E" using num by (intro mult_le_mono1) simp
  with src have "(0 + unat num) * ?E \<le> length src" unfolding add_0 by (rule order_trans [rotated])
  moreover have "unat (rb_count rb) + unat num \<le> unat (rb_maxcnt rb)" "0 + unat num \<le> unat (rb_maxcnt rb)"
    using num cnt by auto
  ultimately obtain rb' where L: "rbuf_write_loop (unat num) 0 rb src = Inr rb'"
    "rb_at rb' (rb_first rb) (unat (rb_count rb) + unat num)"
    "items_at rb' (rb_first rb) (unat (rb_count rb) + unat num) = rb_items rb @ chunks ?E src (unat num)"
    "rb_count rb' = rb_count rb" "rb_esize rb' = rb_esize rb" "rb_maxcnt rb' = rb_maxcnt rb"
    "rb_override rb' = rb_override rb"
    using rbuf_write_loop_at [OF at, of "unat num" 0 0 src] by (auto simp: rb_items_def chunks_def)
  let ?rb = "rb'\<lparr>rb_count := rb_count rb' + num\<rparr>"
  have "unat (rb_count rb) + unat num < 4294967296"
    using num cnt unat_u32_lt [of "rb_maxcnt rb"] by linarith
  then have c: "unat (rb_count rb' + num) = unat (rb_count rb) + unat num"
    using L(4) by (simp add: unat_add_u32)
  have a: "rb_at ?rb (rb_first rb) (unat (rb_count ?rb))"
    using L(2) c by (simp add: rb_at_def Let_def)
  then have f: "rb_first ?rb = rb_first rb" by (rule rb_first_at)
  have "rb_items ?rb = rb_items rb @ chunks ?E src (unat num)"
    using L(3) c f by (simp add: rb_items_def items_at_def)
  then show ?thesis using L a f ovr num rb_inv_count [OF inv]
    by (simp add: rbuf_write_def Let_def flip: num_def) (auto simp: rb_inv_def)
qed

lemma rbuf_read_inv:
  assumes inv: "rb_inv rb" and dst: "unat count * unat (rb_esize rb) \<le> length dst"
  shows "returns (rbuf_read rb dst count) (\<lambda>(num, dst', rb').
    unat num = min (unat count) (length (rb_items rb)) \<and> rb_inv rb'
    \<and> dst' = concat (take (unat num) (rb_items rb)) @ drop (unat num * unat (rb_esize rb)) dst
    \<and> rb_items rb' = drop (unat num) (rb_items rb)
    \<and> rb_esize rb' = rb_esize rb \<and> rb_maxcnt rb' = rb_maxcnt rb)"
proof -
  let ?E = "unat (rb_esize rb)"
  define num where "num = (if count > rbuf_avail rb then rbuf_avail rb else count)"
  have at: "rb_at rb (rb_first rb) (unat (rb_count rb))" and ovr: "\<not> rb_override rb"
    using inv by (auto simp: rb_inv_def)
  have cnt: "unat (rb_count rb) \<le> unat (rb_maxcnt rb)" using rb_atD(7) [OF at] .
  have num: "unat num = min (unat count) (unat (rb_count rb))"
    by (auto simp: num_def rbuf_avail_def word_less_nat_alt)
  then have sum: "unat num + (unat (rb_count rb) - unat num) = unat (rb_count rb)" by simp
  have "unat num * ?E \<le> unat count * ?E" using num by (intro mult_le_mono1) simp
  with dst have "unat num * ?E \<le> length dst" by (rule order_trans [rotated])
  moreover have "0 + unat num \<le> unat (rb_maxcnt rb)" using num cnt by auto
  ultimately obtain rb' r' where L: "rbuf_read_loop (unat num) 0 rb dst
      = Inr (concat (take (unat num) (rb_items rb)) @ drop (unat num * ?E) dst, rb')"
    "rb_at rb' r' (unat (rb_count rb) - unat num)"
    "items_at rb' r' (unat (rb_count rb) - unat num) = drop (unat num) (rb_items rb)"
    "rb_count rb' = rb_count rb" "rb_esize rb' = rb_esize rb" "rb_maxcnt rb' = rb_maxcnt rb"
    "rb_override rb' = rb_override rb"
    using rbuf_read_loop_at [of rb "rb_first rb" "unat num" "unat (rb_count rb) - unat num" 0 0 "[]" dst]
      at unfolding sum by (auto simp: rb_items_def)
  let ?rb = "rb'\<lparr>rb_count := rb_count rb' - num\<rparr>"
  have c: "unat (rb_count rb' - num) = unat (rb_count rb) - unat num"
    using L(4) num by (simp add: unat_sub word_le_nat_alt)
  have a: "rb_at ?rb r' (unat (rb_count ?rb))"
    using L(2) c by (simp add: rb_at_def Let_def)
  then have f: "rb_first ?rb = r'" by (rule rb_first_at)
  have "rb_items ?rb = drop (unat num) (rb_items rb)"
    using L(3) c f by (simp add: rb_items_def items_at_def)
  then show ?thesis using L a f ovr num rb_inv_count [OF inv]
    by (simp add: rbuf_read_def Let_def flip: num_def) (auto simp: rb_inv_def)
qed


lemma rbuf_create_inv:
  assumes "0 < unat esize" "0 < unat num" "unat num * unat esize < 2 ^ 32"
  shows "rb_inv (rbuf_create mem esize num False) \<and> rb_items (rbuf_create mem esize num False) = []"
  using assms
  by (simp add: rb_inv_def rb_at_def Let_def rbuf_create_def rb_first_def rb_items_def items_at_def
    unat_mult_u32 mult.commute)

section \<open>The queue contract\<close>

text \<open>Queues of elements of \<open>E\<close> bytes.\<close>

definition rb_queue_inv :: "nat \<Rightarrow> ringbuffer \<Rightarrow> bool" where
  "rb_queue_inv E rb \<longleftrightarrow> rb_inv rb \<and> unat (rb_esize rb) = E"

definition rb_fits :: "ringbuffer \<Rightarrow> nat \<Rightarrow> bool" where
  "rb_fits rb n \<longleftrightarrow> n \<le> unat (rbuf_freesize rb)"

definition rb_put :: "ringbuffer \<Rightarrow> u8 list \<Rightarrow> ringbuffer res" where
  "rb_put rb e = rbind (rbuf_write rb e 1) (\<lambda>(num, rb). Inr rb)"

definition rb_get :: "ringbuffer \<Rightarrow> (u8 list \<times> ringbuffer) res" where
  "rb_get rb = rbind (rbuf_read rb (replicate (unat (rb_esize rb)) 0) 1) (\<lambda>(num, dst, rb). Inr (dst, rb))"

lemma rb_fits_items: "rb_inv rb \<Longrightarrow> rb_fits rb n \<longleftrightarrow> length (rb_items rb) + n \<le> unat (rb_maxcnt rb)"
  using rb_inv_count [of rb] by (auto simp: rb_fits_def rb_inv_freesize)

interpretation rbq: fifo "rb_queue_inv E" rb_items rb_fits "\<lambda>e. length e = E" rb_put rb_get
  for E
proof
  fix rb :: ringbuffer and n and x :: "u8 list"
  assume inv: "rb_queue_inv E rb" and "rb_fits rb (Suc n)" and x: "length x = E"
  moreover have "chunks E x 1 = [x]" using x by (simp add: chunks_def chunk_def)
  moreover have "rb_inv rb" using inv by (simp add: rb_queue_inv_def)
  ultimately show "\<exists>rb'. rb_put rb x = Inr rb' \<and> rb_queue_inv E rb' \<and> rb_items rb' = rb_items rb @ [x] \<and> rb_fits rb' n"
    using rbuf_write_inv [of rb 1 x] rb_inv_count [of rb]
    by (auto elim!: returnsE simp: rb_put_def rb_queue_inv_def rb_fits_items)
next
  fix rb :: ringbuffer and x :: "u8 list" and xs
  assume inv: "rb_queue_inv E rb" and items: "rb_items rb = x # xs"
  then show "\<exists>rb'. rb_get rb = Inr (x, rb') \<and> rb_queue_inv E rb' \<and> rb_items rb' = xs"
    using rbuf_read_inv [of rb 1 "replicate (unat (rb_esize rb)) 0"]
    by (auto elim!: returnsE simp: rb_get_def rb_queue_inv_def)
qed

section \<open>What the operations do\<close>



text \<open>
  \<^verbatim>\<open>rbuf_write\<close> of \<open>count\<close> elements on a well-formed buffer without override returns how many
  fit, appends exactly those, in order, to the content, and keeps the buffer well formed.
\<close>

theorem rbuf_write_spec:
  assumes "rb_inv rb" and "unat count * unat (rb_esize rb) \<le> length src"
  shows "returns (rbuf_write rb src count) (\<lambda>(num, rb').
    unat num = min (unat count) (unat (rb_maxcnt rb) - length (rb_items rb)) \<and> rb_inv rb'
    \<and> rb_items rb' = rb_items rb @ chunks (unat (rb_esize rb)) src (unat num)
    \<and> (unat num < unat count \<longrightarrow> rbuf_freesize rb' = 0))"
proof -
  from rbuf_write_inv [OF assms] obtain num rb' where w: "rbuf_write rb src count = Inr (num, rb')"
    "unat num = min (unat count) (unat (rb_maxcnt rb) - length (rb_items rb))" "rb_inv rb'"
    "rb_items rb' = rb_items rb @ chunks (unat (rb_esize rb)) src (unat num)" "rb_maxcnt rb' = rb_maxcnt rb"
    by (auto elim!: returnsE)
  moreover have "rbuf_freesize rb' = 0" if "unat num < unat count"
  proof -
    have "unat (rbuf_freesize rb') = 0"
      using that w rb_inv_freesize [OF w(3)] rb_inv_count [OF w(3)] rb_inv_count [OF assms(1)] by (auto simp: chunks_def)
    then show ?thesis unfolding u32_eq_iff_unat by simp
  qed
  ultimately show ?thesis by simp
qed

theorem rbuf_write_spec_witness:
  "returns (rbuf_write (rbuf_create (\<lambda>_. 0) 1 2 False) [7, 8, 9] 3)
     (\<lambda>(num, rb'). num = 2 \<and> rb_items rb' = [[7], [8]])"
  using rbuf_write_spec [of "rbuf_create (\<lambda>_. 0) 1 2 False" 3 "[7, 8, 9]"] rbuf_create_inv [of 1 2 "\<lambda>_. 0"]
  by (auto elim!: returnsE simp: rbuf_create_def chunks_def chunk_def u32_eq_iff_unat upt_rec)

text \<open>
  \<^verbatim>\<open>rbuf_read\<close> returns the number of elements it had, up to \<open>count\<close>, copies the oldest ones to
  the front of the destination and leaves the rest of the destination alone, and removes them from
  the buffer.
\<close>

theorem rbuf_read_spec:
  assumes "rb_inv rb" and "unat count * unat (rb_esize rb) \<le> length dst"
  shows "returns (rbuf_read rb dst count) (\<lambda>(num, dst', rb').
    unat num = min (unat count) (length (rb_items rb)) \<and> rb_inv rb'
    \<and> dst' = concat (take (unat num) (rb_items rb)) @ drop (unat num * unat (rb_esize rb)) dst
    \<and> rb_items rb' = drop (unat num) (rb_items rb))"
  using rbuf_read_inv [OF assms] by (auto elim!: returnsE)

theorem rbuf_read_spec_witness:
  "returns (rbuf_read (rbuf_create (\<lambda>_. 0) 1 2 False) [5] 1) (\<lambda>(num, dst', rb'). dst' = [5])"
  using rbuf_read_spec [of "rbuf_create (\<lambda>_. 0) 1 2 False" 1 "[5]"] rbuf_create_inv [of 1 2 "\<lambda>_. 0"]
  by (auto elim!: returnsE simp: rbuf_create_def)

text \<open>
  With the override flag a write past the capacity is not clipped and moves neither the read
  index nor clips \<^verbatim>\<open>count\<close>: writing \<open>maxcnt + 1\<close> one-byte elements into an empty buffer leaves
  \<^verbatim>\<open>rbuf_avail\<close> above the capacity and \<^verbatim>\<open>rbuf_freesize\<close> at the largest 32-bit number.
\<close>

theorem rbuf_override_overcounts:
  "returns (rbuf_write (rbuf_create mem 1 2 True) [7, 8, 9] 3)
     (\<lambda>(num, rb'). num = 3 \<and> rbuf_avail rb' = 3 \<and> rbuf_freesize rb' = 0xFFFFFFFF \<and> rb_data rb' = [9, 8])"
  by code_simp

end
