(* ===== verification/Kos_Array.thy ===== *)
theory Kos_Array
  imports Kos_Prelude
begin

text \<open>
  The growing array of \<^verbatim>\<open>kernel/util/array.c\<close>, with \<^verbatim>\<open>ARRAY_INIT_WITH_ZERO\<close> as in
  \<^verbatim>\<open>util/array.h\<close> and all sizes at 32 bits. The theory shows that the array is a sequence of
  elements that \<^verbatim>\<open>array_push_back\<close>, \<^verbatim>\<open>array_pop_back\<close>, \<^verbatim>\<open>array_set\<close> and \<^verbatim>\<open>array_get\<close> change
  and read as expected while the index stays below twice the capacity, and that beyond it
  \<^verbatim>\<open>array_set\<close> writes behind its buffer.
\<close>

section \<open>Data and operations\<close>

text \<open>\<^verbatim>\<open>data == NULL\<close> is the empty byte list: there is nothing to access behind either.\<close>

record array_t =
  ar_data :: "u8 list"
  ar_esize :: u32
  ar_maxcnt :: u32
  ar_count :: u32

abbreviation (input) AR_INIT_ELEMENTS :: u32 where
  "AR_INIT_ELEMENTS \<equiv> 10"

abbreviation (input) AR_RESIZE_FACT :: u32 where
  "AR_RESIZE_FACT \<equiv> 2"

definition array_create :: "u32 \<Rightarrow> array_t" where
  "array_create esize =
     \<lparr>ar_data = replicate (unat (AR_INIT_ELEMENTS * esize)) 0, ar_esize = esize,
      ar_maxcnt = AR_INIT_ELEMENTS, ar_count = 0\<rparr>"

definition array_count :: "array_t \<Rightarrow> u32" where
  "array_count ar = ar_count ar"

text \<open>The pointer \<^verbatim>\<open>array_get\<close> returns is the byte offset in \<^verbatim>\<open>data\<close>, \<open>None\<close> is \<^verbatim>\<open>NULL\<close>.\<close>

definition array_get :: "array_t \<Rightarrow> u32 \<Rightarrow> u32 option" where
  "array_get ar index =
     (if index \<ge> ar_count ar then None else Some (index * ar_esize ar))"

text \<open>
  \<^verbatim>\<open>krealloc\<close> as \<^verbatim>\<open>resize\<close> calls it: the block keeps its bytes up to the smaller of the two
  sizes, what is new has arbitrary content \<open>mem\<close>.
\<close>

definition realloc_block :: "(nat \<Rightarrow> u8) \<Rightarrow> u8 list \<Rightarrow> u32 \<Rightarrow> u8 list" where
  "realloc_block mem data sz = take (unat sz) data @ map mem [length data..<unat sz]"

definition resize :: "(nat \<Rightarrow> u8) \<Rightarrow> array_t \<Rightarrow> u32 \<Rightarrow> array_t res" where
  "resize mem ar num =
     (let old_max = ar_maxcnt ar;
          ar = ar\<lparr>ar_data := realloc_block mem (ar_data ar) (num * ar_esize ar), ar_maxcnt := num,
                  ar_count := (if ar_count ar > num then num else ar_count ar)\<rparr>
      in if old_max < num
         then rbind (buf_write (ar_data ar) (unat (old_max * ar_esize ar))
                       (replicate (unat ((num - old_max) * ar_esize ar)) 0)) (\<lambda>d.
                Inr (ar\<lparr>ar_data := d\<rparr>))
         else Inr ar)"

definition array_set :: "(nat \<Rightarrow> u8) \<Rightarrow> array_t \<Rightarrow> u32 \<Rightarrow> u8 list \<Rightarrow> (u32 \<times> array_t) res" where
  "array_set mem ar index src =
     rbind (if index \<ge> ar_maxcnt ar
            then resize mem ar (max (ar_maxcnt ar * AR_RESIZE_FACT) index) else Inr ar) (\<lambda>ar.
     rbind (buf_read src 0 (unat (ar_esize ar))) (\<lambda>e.
     rbind (buf_write (ar_data ar) (unat (index * ar_esize ar)) e) (\<lambda>d.
     Inr (index * ar_esize ar, ar\<lparr>ar_data := d, ar_count := max (ar_count ar) (index + 1)\<rparr>))))"

text \<open>
  The success path of \<^verbatim>\<open>array_pop_back\<close> ends without a \<^verbatim>\<open>return\<close>, so the value the caller
  sees is not determined: \<open>None\<close>. The destination may be \<^verbatim>\<open>NULL\<close>.
\<close>

definition array_pop_back ::
    "array_t \<Rightarrow> u8 list option \<Rightarrow> (bool option \<times> u8 list option \<times> array_t) res" where
  "array_pop_back ar dst =
     (case dst of
        None \<Rightarrow> Inr (Some False, None, ar)
      | Some d \<Rightarrow>
          if ar_count ar = 0 then Inr (Some False, Some d, ar)
          else (case array_get ar (ar_count ar - 1) of
            None \<Rightarrow> Inl Null_deref
          | Some off \<Rightarrow>
              rbind (buf_read (ar_data ar) (unat off) (unat (ar_esize ar))) (\<lambda>e.
              rbind (buf_write d 0 e) (\<lambda>d.
              Inr (None, Some d, ar\<lparr>ar_count := ar_count ar - 1\<rparr>)))))"

definition array_push_back :: "(nat \<Rightarrow> u8) \<Rightarrow> array_t \<Rightarrow> u8 list \<Rightarrow> (u32 \<times> array_t) res" where
  "array_push_back mem ar src =
     rbind (array_set mem ar (ar_count ar) src) (\<lambda>(p, ar'). Inr (ar_count ar, ar'))"

definition array_resize :: "(nat \<Rightarrow> u8) \<Rightarrow> array_t \<Rightarrow> u32 \<Rightarrow> array_t res" where
  "array_resize mem ar num = rbind (resize mem ar num) (\<lambda>ar. Inr (ar\<lparr>ar_count := num\<rparr>))"

definition array_reserve :: "(nat \<Rightarrow> u8) \<Rightarrow> array_t \<Rightarrow> u32 \<Rightarrow> array_t res" where
  "array_reserve mem ar num = resize mem ar (ar_count ar + num)"

definition array_shrink :: "(nat \<Rightarrow> u8) \<Rightarrow> array_t \<Rightarrow> array_t res" where
  "array_shrink mem ar = resize mem ar (ar_count ar)"

section \<open>The array as a sequence of elements\<close>

definition array_inv :: "array_t \<Rightarrow> bool" where
  "array_inv ar \<longleftrightarrow>
     0 < unat (ar_esize ar) \<and> unat (ar_maxcnt ar) * unat (ar_esize ar) < 2 ^ 32
     \<and> length (ar_data ar) = unat (ar_maxcnt ar) * unat (ar_esize ar)
     \<and> unat (ar_count ar) \<le> unat (ar_maxcnt ar)"

definition array_elems :: "array_t \<Rightarrow> u8 list list" where
  "array_elems ar = chunks (unat (ar_esize ar)) (ar_data ar) (unat (ar_count ar))"

text \<open>Growing keeps the bytes and adds zeros.\<close>

lemma resize_grow:
  assumes inv: "array_inv ar" and num: "unat (ar_maxcnt ar) \<le> unat num"
    and small: "unat num * unat (ar_esize ar) < 4294967296"
  shows "resize mem ar num = Inr (ar\<lparr>ar_maxcnt := num,
     ar_data := ar_data ar @ replicate ((unat num - unat (ar_maxcnt ar)) * unat (ar_esize ar)) 0\<rparr>)"
proof -
  let ?E = "unat (ar_esize ar)" and ?M = "unat (ar_maxcnt ar)" and ?N = "unat num"
  have A: "length (ar_data ar) = ?M * ?E" "unat (ar_count ar) \<le> ?M" "?M * ?E < 4294967296"
    using inv by (simp_all add: array_inv_def)
  have le: "?M * ?E \<le> ?N * ?E" using num by (rule mult_le_mono1)
  have u: "unat (num * ar_esize ar) = ?N * ?E" "unat (ar_maxcnt ar * ar_esize ar) = ?M * ?E"
    using small A by (simp_all add: unat_mult_u32)
  have nm: "unat (num - ar_maxcnt ar) = ?N - ?M" using num by (simp add: unat_sub word_le_nat_alt)
  have d: "(?N - ?M) * ?E = ?N * ?E - ?M * ?E" by (simp add: diff_mult_distrib)
  have um: "unat ((num - ar_maxcnt ar) * ar_esize ar) = ?N * ?E - ?M * ?E"
    using small nm d by (simp add: unat_mult_u32)
  have blk: "realloc_block mem (ar_data ar) (num * ar_esize ar) = ar_data ar @ map mem [?M * ?E..<?N * ?E]"
    using u le A by (simp add: realloc_block_def)
  have c: "\<not> ar_count ar > num" using A num by (simp add: word_less_nat_alt)
  show ?thesis
  proof (cases "ar_maxcnt ar < num")
    case True
    then show ?thesis using u um blk A le c d
      by (simp add: resize_def Let_def buf_write_ok)
  next
    case False
    then have "ar_maxcnt ar = num" using num by (simp add: word_less_nat_alt u32_eq_iff_unat)
    then show ?thesis using u blk A c by (simp add: resize_def Let_def)
  qed
qed

lemma resize_grow_inv:
  assumes "array_inv ar" "unat (ar_maxcnt ar) \<le> unat num" "unat num * unat (ar_esize ar) < 4294967296"
  shows "\<exists>ar'. resize mem ar num = Inr ar' \<and> array_inv ar' \<and> array_elems ar' = array_elems ar
    \<and> ar_maxcnt ar' = num \<and> ar_count ar' = ar_count ar \<and> ar_esize ar' = ar_esize ar"
proof -
  have "chunk (unat (ar_esize ar)) (ar_data ar @ cs) k = chunk (unat (ar_esize ar)) (ar_data ar) k"
    if "k < unat (ar_count ar)" for k cs
    using that assms(1) slot_le [of k "unat (ar_maxcnt ar)" "unat (ar_esize ar)"]
    by (intro chunk_append) (simp add: array_inv_def)
  moreover have "unat (ar_maxcnt ar) * unat (ar_esize ar) + (unat num - unat (ar_maxcnt ar)) * unat (ar_esize ar)
     = unat num * unat (ar_esize ar)"
    using assms(2) by (simp flip: add_mult_distrib)
  ultimately show ?thesis using assms
    by (auto simp: resize_grow array_inv_def array_elems_def chunks_def)
qed

text \<open>Writing one element below the capacity.\<close>

lemma array_write:
  assumes inv: "array_inv ar" and i: "unat index < unat (ar_maxcnt ar)" and src: "unat (ar_esize ar) \<le> length src"
  shows "\<exists>d. buf_write (ar_data ar) (unat (index * ar_esize ar)) (take (unat (ar_esize ar)) src) = Inr d
    \<and> array_inv (ar\<lparr>ar_data := d, ar_count := max (ar_count ar) (index + 1)\<rparr>)
    \<and> unat (max (ar_count ar) (index + 1)) = max (unat (ar_count ar)) (unat index + 1)
    \<and> (\<forall>k < unat (ar_maxcnt ar). chunk (unat (ar_esize ar)) d k =
        (if k = unat index then take (unat (ar_esize ar)) src else chunk (unat (ar_esize ar)) (ar_data ar) k))"
proof -
  let ?E = "unat (ar_esize ar)" and ?M = "unat (ar_maxcnt ar)" and ?e = "take (unat (ar_esize ar)) src"
  have A: "0 < ?E" "length (ar_data ar) = ?M * ?E" "unat (ar_count ar) \<le> ?M" "?M * ?E < 4294967296"
    using inv by (simp_all add: array_inv_def)
  from elem_offset [OF i A(4) refl A(1)]
  have o: "unat (index * ar_esize ar) = unat index * ?E" "unat (index + 1) = unat index + 1" by auto
  have e: "length ?e = ?E" using src by simp
  let ?d = "take (unat index * ?E) (ar_data ar) @ ?e @ drop (unat index * ?E + ?E) (ar_data ar)"
  have w: "buf_write (ar_data ar) (unat (index * ar_esize ar)) ?e = Inr ?d"
    using slot_le [OF i, of ?E] A e o by (simp add: buf_write_ok add.commute)
  have m: "unat (max (ar_count ar) (index + 1)) = max (unat (ar_count ar)) (unat index + 1)"
    using o by (auto simp: max_def word_le_nat_alt)
  have "array_inv (ar\<lparr>ar_data := ?d, ar_count := max (ar_count ar) (index + 1)\<rparr>)"
    using inv buf_write_length [OF w] m i by (simp add: array_inv_def)
  then show ?thesis using w m chunk_write [OF i _ A(2) e refl] by auto
qed

text \<open>The growth step of \<^verbatim>\<open>array_set\<close>.\<close>

lemma array_set_room:
  assumes inv: "array_inv ar" and i: "unat index < 2 * unat (ar_maxcnt ar)"
    and small: "2 * unat (ar_maxcnt ar) * unat (ar_esize ar) < 4294967296"
  shows "\<exists>ar'. (if index \<ge> ar_maxcnt ar then resize mem ar (max (ar_maxcnt ar * 2) index) else Inr ar) = Inr ar'
     \<and> array_inv ar' \<and> unat index < unat (ar_maxcnt ar') \<and> array_elems ar' = array_elems ar
     \<and> ar_count ar' = ar_count ar \<and> ar_esize ar' = ar_esize ar"
proof (cases "index \<ge> ar_maxcnt ar")
  case True
  have "2 * unat (ar_maxcnt ar) * 1 \<le> 2 * unat (ar_maxcnt ar) * unat (ar_esize ar)"
    using inv by (intro mult_le_mono2) (simp add: array_inv_def)
  then have "unat (ar_maxcnt ar) * unat (2 :: u32) < 4294967296"
    using order.strict_trans1 [OF _ small] by (simp add: mult.commute)
  then have M2: "unat (ar_maxcnt ar * 2) = 2 * unat (ar_maxcnt ar)"
    using unat_mult_u32_small [of "ar_maxcnt ar" 2] by simp
  then have "max (ar_maxcnt ar * 2) index = ar_maxcnt ar * 2"
    using i by (simp add: max_def word_le_nat_alt)
  with True M2 i small resize_grow_inv [OF inv, of "ar_maxcnt ar * 2" mem] show ?thesis by auto
next
  case False
  with inv show ?thesis by (auto simp: word_le_nat_alt)
qed

lemma array_set_ok:
  assumes inv: "array_inv ar" and src: "unat (ar_esize ar) \<le> length src"
    and i: "unat index < 2 * unat (ar_maxcnt ar)"
    and small: "2 * unat (ar_maxcnt ar) * unat (ar_esize ar) < 4294967296"
  shows "returns (array_set mem ar index src) (\<lambda>(p, ar'). p = index * ar_esize ar \<and> array_inv ar'
    \<and> ar_esize ar' = ar_esize ar
    \<and> length (array_elems ar') = max (length (array_elems ar)) (unat index + 1)
    \<and> (\<forall>k < length (array_elems ar). k \<noteq> unat index \<longrightarrow> array_elems ar' ! k = array_elems ar ! k)
    \<and> array_elems ar' ! unat index = take (unat (ar_esize ar)) src)"
proof -
  let ?E = "unat (ar_esize ar)"
  from array_set_room [OF inv i small] obtain ar1 where a:
    "(if index \<ge> ar_maxcnt ar then resize mem ar (max (ar_maxcnt ar * 2) index) else Inr ar) = Inr ar1"
    "array_inv ar1" "unat index < unat (ar_maxcnt ar1)" "array_elems ar1 = array_elems ar"
    "ar_count ar1 = ar_count ar" "ar_esize ar1 = ar_esize ar" by blast
  from array_write [OF a(2,3), of src] src a(6) obtain d where d:
    "buf_write (ar_data ar1) (unat (index * ar_esize ar)) (take ?E src) = Inr d"
    "array_inv (ar1\<lparr>ar_data := d, ar_count := max (ar_count ar1) (index + 1)\<rparr>)"
    "unat (max (ar_count ar) (index + 1)) = max (unat (ar_count ar)) (unat index + 1)"
    "\<And>k. k < unat (ar_maxcnt ar1) \<Longrightarrow> chunk ?E d k = (if k = unat index then take ?E src else chunk ?E (ar_data ar1) k)"
    unfolding a(5) a(6) by blast
  have le: "unat (ar_count ar) \<le> unat (ar_maxcnt ar1)" using a by (simp add: array_inv_def)
  have el: "array_elems ar ! k = chunk ?E (ar_data ar1) k" if "k < unat (ar_count ar)" for k
    using that arg_cong [OF a(4), of "\<lambda>xs. xs ! k"] a(5,6) by (simp add: array_elems_def)
  have r: "array_set mem ar index src =
     Inr (index * ar_esize ar, ar1\<lparr>ar_data := d, ar_count := max (ar_count ar) (index + 1)\<rparr>)"
    using a d src by (simp add: array_set_def buf_read_ok)
  show ?thesis unfolding r using d a le el
    by (auto simp: array_elems_def)
qed

lemma array_push_ok:
  assumes inv: "array_inv ar" and src: "unat (ar_esize ar) \<le> length src"
    and i: "0 < unat (ar_maxcnt ar)"
    and small: "2 * unat (ar_maxcnt ar) * unat (ar_esize ar) < 4294967296"
  shows "returns (array_push_back mem ar src) (\<lambda>(i, ar'). i = ar_count ar \<and> array_inv ar'
    \<and> ar_esize ar' = ar_esize ar \<and> array_elems ar' = array_elems ar @ [take (unat (ar_esize ar)) src])"
proof -
  have c: "unat (ar_count ar) < 2 * unat (ar_maxcnt ar)" using inv i by (simp add: array_inv_def)
  have l: "length (array_elems ar) = unat (ar_count ar)" by (simp add: array_elems_def)
  from array_set_ok [OF inv src c small, of mem] obtain p ar' where s:
    "array_set mem ar (ar_count ar) src = Inr (p, ar')" "array_inv ar'" "ar_esize ar' = ar_esize ar"
    "length (array_elems ar') = unat (ar_count ar) + 1"
    "\<And>k. k < unat (ar_count ar) \<Longrightarrow> array_elems ar' ! k = array_elems ar ! k"
    "array_elems ar' ! unat (ar_count ar) = take (unat (ar_esize ar)) src"
    by (auto elim!: returnsE simp: l)
  have "array_elems ar' = array_elems ar @ [take (unat (ar_esize ar)) src]"
    using s l by (intro nth_equalityI) (auto simp: nth_append less_Suc_eq)
  with s show ?thesis by (simp add: array_push_back_def)
qed

lemma array_pop_ok:
  assumes inv: "array_inv ar" and el: "array_elems ar = es @ [e]" and dst: "unat (ar_esize ar) \<le> length dst"
  shows "returns (array_pop_back ar (Some dst)) (\<lambda>(b, dst', ar'). array_inv ar' \<and> array_elems ar' = es
    \<and> dst' = Some (e @ drop (unat (ar_esize ar)) dst))"
proof -
  let ?E = "unat (ar_esize ar)" and ?c = "unat (ar_count ar)"
  have A: "0 < ?E" "length (ar_data ar) = unat (ar_maxcnt ar) * ?E" "?c \<le> unat (ar_maxcnt ar)"
    "unat (ar_maxcnt ar) * ?E < 4294967296"
    using inv by (simp_all add: array_inv_def)
  have l: "?c = length es + 1" using arg_cong [OF el, of length] by (simp add: array_elems_def)
  have "ar_count ar \<noteq> 0" using l by auto
  moreover have u: "unat (ar_count ar - 1) = length es" 
    using l by (simp add: unat_sub word_le_nat_alt)
  moreover have "ar_count ar - 1 < ar_count ar" using u l by (simp add: word_less_nat_alt)
  moreover have i: "length es < unat (ar_maxcnt ar)" using l A by simp
  moreover have "unat ((ar_count ar - 1) * ar_esize ar) = length es * ?E"
    using elem_offset [OF i A(4) u A(1)] by simp
  moreover have e: "e = chunk ?E (ar_data ar) (length es)"
    using arg_cong [OF el, of "\<lambda>xs. xs ! length es"] l by (simp add: array_elems_def)
  moreover have "length e = ?E" using slot_le [OF i, of ?E] A e by (simp add: chunk_def)
  moreover have "buf_read (ar_data ar) (length es * ?E) ?E = Inr e"
    using slot_le [OF i, of ?E] A e by (simp add: buf_read_ok chunk_def add.commute)
  moreover have "chunks ?E (ar_data ar) (length es) = es"
    using arg_cong [OF el, of butlast] l by (simp add: array_elems_def chunks_def)
  ultimately show ?thesis using inv dst l
    by (simp add: array_pop_back_def array_get_def buf_write_ok array_elems_def array_inv_def linorder_not_less [symmetric])
qed

section \<open>What the operations do\<close>

text \<open>
  C32. On a well-formed array whose doubled size stays below 4 GiB, \<^verbatim>\<open>array_push_back\<close> returns the
  old count and appends the element, growing the buffer when it is full; \<^verbatim>\<open>array_pop_back\<close> into a
  large enough destination then gives the element back, byte for byte, and restores the content.
\<close>

theorem array_push_pop:
  assumes "array_inv ar" and "0 < unat (ar_maxcnt ar)"
    and "2 * unat (ar_maxcnt ar) * unat (ar_esize ar) < 2 ^ 32"
    and "length e = unat (ar_esize ar)" and "length dst = unat (ar_esize ar)"
  shows "returns (array_push_back mem ar e) (\<lambda>(i, ar').
    i = array_count ar \<and> array_inv ar' \<and> array_elems ar' = array_elems ar @ [e]
    \<and> returns (array_pop_back ar' (Some dst)) (\<lambda>(b, dst', ar'').
        array_inv ar'' \<and> array_elems ar'' = array_elems ar \<and> dst' = Some e))"
proof -
  from array_push_ok [of ar e mem] assms obtain ar' where p: "array_push_back mem ar e = Inr (ar_count ar, ar')"
    "array_inv ar'" "ar_esize ar' = ar_esize ar" "array_elems ar' = array_elems ar @ [e]"
    by (auto elim!: returnsE)
  with array_pop_ok [OF p(2,4), of dst] assms show ?thesis
    by (auto elim!: returnsE simp: array_count_def)
qed

lemma array_create_inv:
  assumes "0 < unat esize" and "10 * unat esize < 4294967296"
  shows "array_inv (array_create esize) \<and> array_elems (array_create esize) = []"
  using assms by (simp add: array_inv_def array_create_def array_elems_def chunks_def unat_mult_u32)

theorem array_push_pop_witness:
  "returns (array_push_back (\<lambda>_. 9) (array_create 2) [1, 2]) (\<lambda>(i, ar').
    i = 0 \<and> array_elems ar' = [[1, 2]]
    \<and> returns (array_pop_back ar' (Some [0, 0])) (\<lambda>(b, dst', ar''). dst' = Some [1, 2]))"
  using array_push_pop [of "array_create 2" "[1, 2]" "[0, 0]" "\<lambda>_. 9"] array_create_inv [of 2]
  by (auto elim!: returnsE simp: array_create_def array_count_def)

text \<open>
  \<^verbatim>\<open>array_set\<close> at an index below twice the capacity replaces that element and no other, grows
  the array up to the index if it was shorter, and \<^verbatim>\<open>array_get\<close> then returns the offset of the
  bytes just written.
\<close>

theorem array_set_get:
  assumes "array_inv ar" and "length e = unat (ar_esize ar)"
    and "unat index < 2 * unat (ar_maxcnt ar)"
    and "2 * unat (ar_maxcnt ar) * unat (ar_esize ar) < 2 ^ 32"
  shows "returns (array_set mem ar index e) (\<lambda>(p, ar'). array_inv ar' \<and> array_get ar' index = Some p
    \<and> length (array_elems ar') = max (length (array_elems ar)) (unat index + 1)
    \<and> array_elems ar' ! unat index = e
    \<and> (\<forall>k < length (array_elems ar). k \<noteq> unat index \<longrightarrow> array_elems ar' ! k = array_elems ar ! k))"
proof -
  from array_set_ok [of ar e index mem] assms obtain p ar' where s:
    "array_set mem ar index e = Inr (p, ar')" "p = index * ar_esize ar" "array_inv ar'" "ar_esize ar' = ar_esize ar"
    "length (array_elems ar') = max (length (array_elems ar)) (unat index + 1)"
    "array_elems ar' ! unat index = e"
    "\<forall>k < length (array_elems ar). k \<noteq> unat index \<longrightarrow> array_elems ar' ! k = array_elems ar ! k"
    by (auto elim!: returnsE)
  have "unat index < unat (ar_count ar')" using s(5) by (simp add: array_elems_def)
  then have "array_get ar' index = Some p" using s by (simp add: array_get_def word_le_nat_alt)
  with s show ?thesis by simp
qed

theorem array_set_get_witness:
  "returns (array_set (\<lambda>_. 9) (array_create 1) 12 [5])
     (\<lambda>(p, ar'). array_get ar' 12 = Some p \<and> array_elems ar' ! 12 = [5])"
  using array_set_get [of "array_create 1" "[5]" 12 "\<lambda>_. 9"] array_create_inv [of 1]
  by (auto elim!: returnsE simp: array_create_def)

text \<open>
  \<^verbatim>\<open>array_set\<close> at an index of at least twice the capacity grows the buffer to \<open>index\<close> elements,
  one too few, and then writes behind it: on every well-formed array, and whatever the element.
\<close>

theorem array_set_overflow:
  assumes "array_inv ar" and "unat (ar_esize ar) \<le> length src"
    and "2 * unat (ar_maxcnt ar) \<le> unat index"
    and "unat index * unat (ar_esize ar) < 2 ^ 32"
  shows "array_set mem ar index src = Inl Bad_access"
proof -
  let ?E = "unat (ar_esize ar)" and ?M = "unat (ar_maxcnt ar)"
  have A: "0 < ?E" "length (ar_data ar) = ?M * ?E" using assms(1) by (simp_all add: array_inv_def)
  have lt: "?M * 2 < 4294967296" using assms(3) unat_u32_lt [of index] by linarith
  then have "unat (ar_maxcnt ar * 2) = 2 * ?M" by (simp add: unat_mult_u32)
  then have m: "max (ar_maxcnt ar * 2) index = index" "index \<ge> ar_maxcnt ar"
    using assms(3) by (auto simp: max_def word_le_nat_alt u32_eq_iff_unat)
  from resize_grow_inv [of ar index mem] assms obtain ar' where
    "resize mem ar index = Inr ar'" "array_inv ar'" "ar_maxcnt ar' = index" "ar_esize ar' = ar_esize ar" by auto
  moreover have "unat (index * ar_esize ar) = unat index * ?E" using assms(4) by (simp add: unat_mult_u32)
  ultimately show ?thesis using m assms(2) A
    by (auto simp: array_set_def buf_read_ok array_inv_def buf_write_def)
qed

theorem array_set_overflow_witness:
  "array_set (\<lambda>_. 9) (array_create 4) 20 [1, 2, 3, 4] = Inl Bad_access"
  using array_set_overflow [of "array_create 4" "[1, 2, 3, 4]" 20 "\<lambda>_. 9"] array_create_inv [of 4]
  by (simp add: array_create_def)

end
