(* ===== verification/Kos_Error_Context.thy ===== *)
theory Kos_Error_Context
  imports Kos_Prelude
begin

text \<open>
  Two small global services of the kernel: the last error code (\<^verbatim>\<open>kernel/error.c\<close>) and the
  execution context with the table of what each context may do (\<^verbatim>\<open>kernel/context.c\<close>).
\<close>

section \<open>error.c\<close>

abbreviation (input) E_ALIGN :: u32 where "E_ALIGN \<equiv> 1"
abbreviation (input) E_NO_MEM :: u32 where "E_NO_MEM \<equiv> 2"
abbreviation (input) E_INVALID :: u32 where "E_INVALID \<equiv> 3"
abbreviation (input) E_UNKNOWN :: u32 where "E_UNKNOWN \<equiv> 4"
abbreviation (input) E_NUM_ERRORS :: u32 where "E_NUM_ERRORS \<equiv> 5"

text \<open>
  The \<^verbatim>\<open>int\<close> argument is a 32-bit word read as signed; the negation wraps for the smallest
  integer. The state is \<^verbatim>\<open>last_error\<close>, which every call overwrites.
\<close>

definition seterr_code :: "u32 \<Rightarrow> u32" where
  "seterr_code err =
     (let err = (if sint err < 0 then - err else err)
      in if sint E_NUM_ERRORS \<le> sint err then E_UNKNOWN else err)"

definition geterr :: "u32 \<Rightarrow> u32" where
  "geterr last_error = last_error"

text \<open>
  Every error code \<^verbatim>\<open>seterr\<close> stores is one of the named codes, except for the one argument that
  has no positive counterpart: for \<^verbatim>\<open>INT_MIN\<close> the negation wraps and the invalid code is stored
  as it is. A negative code is replaced by its absolute value, not by \<^verbatim>\<open>E_UNKNOWN\<close>.
\<close>

theorem seterr_spec:
  "seterr_code err =
     (if sint err = - (2 ^ 31) then err
      else if \<bar>sint err\<bar> < 5 then word_of_int \<bar>sint err\<bar> else E_UNKNOWN)"
proof -
  have r: "- (2 ^ 31) \<le> sint err" "sint err < 2 ^ 31"
    using sint_range_size [of err] by (simp_all add: word_size)
  show ?thesis
  proof (cases "sint err < 0")
    case True
    show ?thesis
    proof (cases "sint err = - (2 ^ 31)")
      case True
      have "err = word_of_int (sint err)" by simp
      with True have "err = word_of_int (- (2 ^ 31))" by (simp only: True)
      then show ?thesis by (simp add: seterr_code_def)
    next
      case False
      then have "sint (- err) = - sint err"
        using r True by (simp add: sint_word_ariths signed_take_bit_int_eq_self)
      with True False show ?thesis
        by (auto simp: seterr_code_def Let_def)
    qed
  next
    case False
    then show ?thesis using r by (auto simp: seterr_code_def Let_def)
  qed
qed

section \<open>context.c\<close>

datatype context_t = CX_INIT_EARLY | CX_INIT | CX_INIT_DONE | CX_IRQ | CX_SYSCALL | CX_PROC | CX_PANIC
  | CX_END

datatype action_t = A_CHANGE_IF | A_DELAY_EXEC | A_DYN_MEM | A_END

text \<open>The table \<^verbatim>\<open>allowed\<close>, row by row.\<close>

fun allowed :: "context_t \<Rightarrow> action_t \<Rightarrow> bool" where
  "allowed CX_INIT_EARLY a = (case a of A_CHANGE_IF \<Rightarrow> False | A_DELAY_EXEC \<Rightarrow> False | _ \<Rightarrow> False)"
| "allowed CX_INIT a = (case a of A_CHANGE_IF \<Rightarrow> False | A_DELAY_EXEC \<Rightarrow> False | _ \<Rightarrow> True)"
| "allowed CX_INIT_DONE a = (case a of A_CHANGE_IF \<Rightarrow> True | A_DELAY_EXEC \<Rightarrow> False | _ \<Rightarrow> True)"
| "allowed CX_IRQ a = (case a of A_CHANGE_IF \<Rightarrow> False | A_DELAY_EXEC \<Rightarrow> False | _ \<Rightarrow> True)"
| "allowed CX_SYSCALL a = (case a of A_CHANGE_IF \<Rightarrow> True | A_DELAY_EXEC \<Rightarrow> True | _ \<Rightarrow> True)"
| "allowed CX_PROC a = (case a of A_CHANGE_IF \<Rightarrow> False | A_DELAY_EXEC \<Rightarrow> True | _ \<Rightarrow> True)"
| "allowed CX_PANIC a = (case a of A_CHANGE_IF \<Rightarrow> False | A_DELAY_EXEC \<Rightarrow> False | _ \<Rightarrow> False)"
| "allowed CX_END a = False"

definition cx_set :: "context_t \<Rightarrow> context_t \<Rightarrow> context_t res" where
  "cx_set cur ctx = rbind (kassert (ctx \<noteq> CX_END)) (\<lambda>_. Inr ctx)"

definition cx_allowed :: "context_t \<Rightarrow> action_t \<Rightarrow> bool res" where
  "cx_allowed cur act = rbind (kassert (act \<noteq> A_END)) (\<lambda>_. Inr (allowed cur act))"

definition cx_assert_allowed :: "context_t \<Rightarrow> action_t \<Rightarrow> unit res" where
  "cx_assert_allowed cur act = rbind (cx_allowed cur act) (\<lambda>b. if b then Inr () else Inl Panic)"

lemma cx_assert_allowed_iff:
  "cx_assert_allowed cur act = Inr u \<longleftrightarrow> act \<noteq> A_END \<and> allowed cur act"
  by (auto simp: cx_assert_allowed_def cx_allowed_def kassert_def)

end
