(* ===== verification/Kos_Mm.thy ===== *)
theory Kos_Mm
  imports Kos_Bitop Kos_Error_Context
begin

text \<open>
  The physical memory manager \<^verbatim>\<open>kernel/mm/mm.c\<close>: a bitmap of 4 KiB pages, one bit for each page
  of the 4 GiB address space, set when the page is free. The theory relates the bitmap to the set
  of free page numbers, shows what \<^verbatim>\<open>find\<close> finds, what allocation and freeing do to the set, what
  \<^verbatim>\<open>init_mm\<close> leaves free, and where the code departs from what its comments say.
\<close>

section \<open>State\<close>

text \<open>
  The static variables of \<^verbatim>\<open>mm.c\<close> and \<^verbatim>\<open>last_error\<close> of \<^verbatim>\<open>error.c\<close>. The bitmap has \<^verbatim>\<open>0x8000\<close>
  words, so that \<^verbatim>\<open>addr_to_idx\<close> of any 32-bit address is a valid index.
\<close>

record mm_state =
  mmap :: "nat \<Rightarrow> u32"
  total_mem :: u32
  mem_end :: u32
  last_error :: u32

definition seterr :: "'a mm_state_scheme \<Rightarrow> u32 \<Rightarrow> 'a mm_state_scheme" where
  "seterr s err = s\<lparr>last_error := seterr_code err\<rparr>"

abbreviation (input) NUM_DMA :: nat where "NUM_DMA \<equiv> 8"
abbreviation (input) DMA_RANGE_LENGTH :: u32 where "DMA_RANGE_LENGTH \<equiv> 0x10000"
abbreviation (input) MMAP_BITS :: nat where "MMAP_BITS \<equiv> 32"
abbreviation (input) MMAP_SIZE :: nat where "MMAP_SIZE \<equiv> 0x8000"

definition dma_addrs :: "u32 list" where
  "dma_addrs = [0x10000, 0x20000, 0x30000, 0x40000, 0x50000, 0x60000, 0x70000, 0x80000]"

definition dma_end :: u32 where
  "dma_end = 0x10000 + of_nat NUM_DMA * DMA_RANGE_LENGTH"

definition addr_to_idx :: "u32 \<Rightarrow> nat" where
  "addr_to_idx a = unat ((a div PAGE_SIZE) div 32)"

definition idx_to_addr :: "nat \<Rightarrow> u32" where
  "idx_to_addr i = of_nat i * PAGE_SIZE * 32"

definition page_to_pos :: "u32 \<Rightarrow> nat" where
  "page_to_pos p = unat ((p div PAGE_SIZE) AND 31)"

definition pos_to_offs :: "nat \<Rightarrow> u32" where
  "pos_to_offs p = of_nat p * PAGE_SIZE"

section \<open>The bitmap\<close>

definition mark_free :: "'a mm_state_scheme \<Rightarrow> u32 \<Rightarrow> 'a mm_state_scheme" where
  "mark_free s page =
     s\<lparr>mmap := (mmap s)(addr_to_idx page := bsetn (mmap s (addr_to_idx page)) (page_to_pos page))\<rparr>"

definition mark_used :: "'a mm_state_scheme \<Rightarrow> u32 \<Rightarrow> 'a mm_state_scheme" where
  "mark_used s page =
     s\<lparr>mmap := (mmap s)(addr_to_idx page := bclrn (mmap s (addr_to_idx page)) (page_to_pos page))\<rparr>"

definition mark_range_free :: "'a mm_state_scheme \<Rightarrow> u32 \<Rightarrow> u32 \<Rightarrow> 'a mm_state_scheme" where
  "mark_range_free s start num =
     fold (\<lambda>i s. mark_free s (start + of_nat i * PAGE_SIZE)) [0..<unat num] s"

definition mark_range_used :: "'a mm_state_scheme \<Rightarrow> u32 \<Rightarrow> u32 \<Rightarrow> 'a mm_state_scheme" where
  "mark_range_used s start num =
     fold (\<lambda>i s. mark_used s (start + of_nat i * PAGE_SIZE)) [0..<unat num] s"

definition is_free :: "'a mm_state_scheme \<Rightarrow> u32 \<Rightarrow> bool" where
  "is_free s page = bissetn (mmap s (addr_to_idx page)) (page_to_pos page)"

definition is_range_free :: "'a mm_state_scheme \<Rightarrow> u32 \<Rightarrow> u32 \<Rightarrow> bool" where
  "is_range_free s start num = list_all (\<lambda>i. is_free s (start + of_nat i * PAGE_SIZE)) [0..<unat num]"

section \<open>Searching\<close>

text \<open>
  The helper \<^verbatim>\<open>test\<close> of \<^verbatim>\<open>find\<close>: the pair is \<open>(*count, *result)\<close>, the flag says that the run is
  long enough.
\<close>

definition test_page ::
    "'a mm_state_scheme \<Rightarrow> nat \<Rightarrow> nat \<Rightarrow> u32 \<Rightarrow> nat \<times> u32 \<Rightarrow> bool \<times> nat \<times> u32" where
  "test_page s idx pos num st =
     (case st of (count, result) \<Rightarrow>
        if bissetn (mmap s idx) pos
        then let result = (if count = 0 then idx_to_addr idx + pos_to_offs pos else result);
                 count = count + 1
             in (unat num \<le> count, count, result)
        else (False, 0, result))"

text \<open>The loop over bit positions of one word: \<open>Inl\<close> is \<^verbatim>\<open>return result\<close>.\<close>

fun find_bits :: "'a mm_state_scheme \<Rightarrow> nat \<Rightarrow> nat list \<Rightarrow> u32 \<Rightarrow> nat \<times> u32 \<Rightarrow> u32 + nat \<times> u32" where
  "find_bits s idx [] num st = Inr st"
| "find_bits s idx (p # ps) num st =
     (case test_page s idx p num st of (b, st) \<Rightarrow>
        if b then Inl (snd st) else find_bits s idx ps num st)"

text \<open>The loop over whole words, which skips words with no free page.\<close>

fun find_words :: "'a mm_state_scheme \<Rightarrow> nat list \<Rightarrow> u32 \<Rightarrow> nat \<times> u32 \<Rightarrow> u32 + nat \<times> u32" where
  "find_words s [] num st = Inr st"
| "find_words s (i # is) num st =
     (if mmap s i = 0 then find_words s is num (0, snd st)
      else case find_bits s i [0..<MMAP_BITS] num st of
        Inl r \<Rightarrow> Inl r
      | Inr st \<Rightarrow> find_words s is num st)"

definition find_page :: "'a mm_state_scheme \<Rightarrow> u32 \<Rightarrow> u32 \<Rightarrow> u32 \<Rightarrow> u32" where
  "find_page s num start end =
     (let start_index = addr_to_idx start;
          end_index = addr_to_idx end;
          start_pos = page_to_pos start;
          end_pos = page_to_pos end;
          end_index = (if end_pos \<noteq> 0 then end_index - 1 else end_index)
      in case (if start_pos \<noteq> 0 then find_bits s start_index [start_pos..<MMAP_BITS] num (0, NO_PAGE)
               else Inr (0, NO_PAGE)) of
           Inl r \<Rightarrow> r
         | Inr st \<Rightarrow>
             let start_index = (if start_pos \<noteq> 0 then start_index + 1 else start_index)
             in (case find_words s [start_index..<end_index] num st of
                   Inl r \<Rightarrow> r
                 | Inr st \<Rightarrow>
                     if end_pos \<noteq> 0
                     then (case find_bits s (addr_to_idx end) [0..<end_pos] num st of
                             Inl r \<Rightarrow> r
                           | Inr st \<Rightarrow> NO_PAGE)
                     else NO_PAGE))"

section \<open>The interface\<close>

definition mm_alloc_page :: "'a mm_state_scheme \<Rightarrow> u32 \<times> 'a mm_state_scheme" where
  "mm_alloc_page s =
     (let page = find_page s 1 dma_end (mem_end s)
      in if page = NO_PAGE then (NO_PAGE, seterr s E_NO_MEM) else (page, mark_used s page))"

definition mm_free_page :: "'a mm_state_scheme \<Rightarrow> u32 \<Rightarrow> 'a mm_state_scheme" where
  "mm_free_page s page =
     (if page = NO_PAGE then s
      else if \<not> IS_PAGE_ALIGNED page then seterr s E_ALIGN else mark_free s page)"

definition mm_alloc_range :: "'a mm_state_scheme \<Rightarrow> u32 \<Rightarrow> u32 \<times> 'a mm_state_scheme" where
  "mm_alloc_range s num =
     (if num = 0 then (NO_PAGE, seterr s E_INVALID)
      else let start = find_page s num dma_end (mem_end s)
           in if start = NO_PAGE then (NO_PAGE, seterr s E_NO_MEM)
              else (start, mark_range_used s start num))"

definition mm_free_range :: "'a mm_state_scheme \<Rightarrow> u32 \<Rightarrow> u32 \<Rightarrow> 'a mm_state_scheme" where
  "mm_free_range s start num =
     (if start = NO_PAGE then s
      else if \<not> IS_PAGE_ALIGNED start then seterr s E_ALIGN
      else if num = 0 then seterr s E_INVALID
      else mark_range_free s start num)"

definition mm_alloc_phys_range :: "'a mm_state_scheme \<Rightarrow> u32 \<Rightarrow> u32 \<Rightarrow> bool \<times> 'a mm_state_scheme" where
  "mm_alloc_phys_range s start num =
     (if \<not> IS_PAGE_ALIGNED start then (False, seterr s E_ALIGN)
      else if num = 0 then (False, seterr s E_INVALID)
      else if list_ex (\<lambda>i. \<not> is_free s (start + of_nat i * PAGE_SIZE)) [0..<unat num]
      then (False, seterr s E_NO_MEM)
      else (True, mark_range_used s start num))"

definition mm_free_phys_range :: "'a mm_state_scheme \<Rightarrow> u32 \<Rightarrow> u32 \<Rightarrow> 'a mm_state_scheme" where
  "mm_free_phys_range s start num =
     (if \<not> IS_PAGE_ALIGNED start then seterr s E_ALIGN
      else if num = 0 then seterr s E_INVALID
      else mark_range_free s start num)"

fun mm_alloc_dma_loop :: "'a mm_state_scheme \<Rightarrow> u32 list \<Rightarrow> u32 \<times> 'a mm_state_scheme" where
  "mm_alloc_dma_loop s [] = (NO_PAGE, seterr s E_NO_MEM)"
| "mm_alloc_dma_loop s (a # as) =
     (if is_range_free s a DMA_RANGE_LENGTH then (a, mark_range_used s a DMA_RANGE_LENGTH)
      else mm_alloc_dma_loop s as)"

definition mm_alloc_dma :: "'a mm_state_scheme \<Rightarrow> u32 \<times> 'a mm_state_scheme" where
  "mm_alloc_dma s = mm_alloc_dma_loop s dma_addrs"

definition mm_free_dma :: "'a mm_state_scheme \<Rightarrow> u32 \<Rightarrow> 'a mm_state_scheme" where
  "mm_free_dma s start =
     (if start = NO_PAGE then s else mark_range_free s start DMA_RANGE_LENGTH)"

definition mm_total_mem :: "'a mm_state_scheme \<Rightarrow> u32" where
  "mm_total_mem s = total_mem s"

definition mm_num_pages :: "'a mm_state_scheme \<Rightarrow> u32" where
  "mm_num_pages s = total_mem s div PAGE_SIZE"

definition mm_num_free_pages :: "'a mm_state_scheme \<Rightarrow> u32" where
  "mm_num_free_pages s =
     fold (\<lambda>i num. fold (\<lambda>j num. if bissetn (mmap s i) j then num + 1 else num) [0..<32] num)
       [0..<MMAP_SIZE] 0"

section \<open>Initialisation\<close>

text \<open>
  The boot loader's data are arguments: the entries of its memory map (a function of the index,
  because the code reads one entry more than it should, and far more than there are), the module
  descriptor at \<^verbatim>\<open>mods_addr\<close>, the length of its command line and the section headers of the
  kernel image; and the linker's \<^verbatim>\<open>kernel_phys_start\<close> and \<^verbatim>\<open>kernel_phys_end\<close>.
\<close>

record mb_mmap_entry =
  mb_base :: u64
  mb_length :: u64
  mb_type :: u32

record multiboot_mod =
  mod_start :: u32
  mod_end :: u32
  mod_cmdline :: u32

record boot_info =
  mb_flags :: u32
  mb_mmap_length :: u32
  mb_mmap_at :: "nat \<Rightarrow> mb_mmap_entry"
  mb_mods_count :: u32
  mb_mods_addr :: u32
  mb_mod :: multiboot_mod
  mb_mod_cmdline_len :: u32
  mb_sec_addr :: u32
  mb_sec_size :: u32
  mb_sec_num :: u32
  mb_shdr :: "nat \<Rightarrow> u32 \<times> u32"
  kernel_phys_start :: u32
  kernel_phys_end :: u32

abbreviation (input) MB_MMAP :: u32 where "MB_MMAP \<equiv> 0x40"

datatype block_type = USABLE_BLOCK u32 u32 | UNUSABLE_BLOCK | END_OF_BLOCKS

text \<open>\<^verbatim>\<open>mb_mmap + mmap_length\<close> is pointer arithmetic: the byte length is used as a number of entries.\<close>

definition get_avail_block :: "boot_info \<Rightarrow> nat \<Rightarrow> block_type" where
  "get_avail_block mb i =
     (if i > unat (mb_mmap_length mb) then END_OF_BLOCKS
      else if mb_type (mb_mmap_at mb i) \<noteq> 1 then UNUSABLE_BLOCK
      else USABLE_BLOCK (ucast (mb_base (mb_mmap_at mb i))) (ucast (mb_length (mb_mmap_at mb i))))"

text \<open>The body of the loop over blocks, for a usable one.\<close>

definition align_block :: "u32 \<Rightarrow> u32 \<Rightarrow> u32 \<times> u32" where
  "align_block start len =
     (if \<not> IS_PAGE_ALIGNED start
      then (PAGE_ALIGN_ROUND_UP start, len - (PAGE_ALIGN_ROUND_UP start - start))
      else (start, len))"

definition add_block :: "'a mm_state_scheme \<Rightarrow> u32 \<Rightarrow> u32 \<Rightarrow> 'a mm_state_scheme" where
  "add_block s start len =
     (case align_block start len of (start, len) \<Rightarrow>
        let this_end = start + len;
            s = s\<lparr>total_mem := total_mem s + len,
                  mem_end := (if this_end > mem_end s then this_end else mem_end s)\<rparr>
        in mark_range_free s start (NUM_PAGES len))"

text \<open>\<^verbatim>\<open>while (true)\<close>: block \<open>mmap_length + 1\<close> is the first that ends the loop.\<close>

function add_blocks :: "boot_info \<Rightarrow> nat \<Rightarrow> 'a mm_state_scheme \<Rightarrow> 'a mm_state_scheme" where
  "add_blocks mb i s =
     (case get_avail_block mb i of
        END_OF_BLOCKS \<Rightarrow> s
      | UNUSABLE_BLOCK \<Rightarrow> add_blocks mb (i + 1) s
      | USABLE_BLOCK start len \<Rightarrow> add_blocks mb (i + 1) (add_block s start len))"
  by pat_completeness auto
termination
  by (relation "measure (\<lambda>(mb, i, s). unat (mb_mmap_length mb) + 1 - i)")
    (auto simp: get_avail_block_def split: if_splits)

text \<open>The loop over modules never advances \<^verbatim>\<open>mod\<close>: every round handles the first one.\<close>

definition reserve_mod :: "boot_info \<Rightarrow> 'a mm_state_scheme \<Rightarrow> 'a mm_state_scheme" where
  "reserve_mod mb s =
     (let m = mb_mod mb;
          s = mark_range_used s (mb_mods_addr mb) (NUM_PAGES 16);
          s = mark_range_used s (mod_start m) (NUM_PAGES (mod_end m - mod_start m))
      in if mod_cmdline m \<noteq> 0
         then mark_range_used s (mod_cmdline m) (NUM_PAGES (mb_mod_cmdline_len mb)) else s)"

definition init_mm :: "boot_info \<Rightarrow> 'a mm_state_scheme \<Rightarrow> 'a mm_state_scheme res" where
  "init_mm mb s =
     (let s = s\<lparr>mmap := (\<lambda>_. 0), total_mem := 0, mem_end := 0\<rparr>
      in if \<not> bisset (mb_flags mb) MB_MMAP then Inl Panic
         else
           let s = add_blocks mb 0 s;
               s = mark_range_used s (kernel_phys_start mb)
                     (NUM_PAGES (kernel_phys_end mb - kernel_phys_start mb));
               s = fold (\<lambda>_ s. reserve_mod mb s) [0..<unat (mb_mods_count mb)] s;
               s = mark_range_used s (mb_sec_addr mb) (NUM_PAGES (mb_sec_size mb));
               s = fold (\<lambda>i s. mark_range_used s (fst (mb_shdr mb i)) (NUM_PAGES (snd (mb_shdr mb i))))
                     [0..<unat (mb_sec_num mb)] s
           in Inr (mark_used s 0))"

section \<open>The bitmap as a set of page numbers\<close>

definition page_no :: "u32 \<Rightarrow> nat" where
  "page_no a = unat a div 4096"

definition page_addr :: "nat \<Rightarrow> u32" where
  "page_addr p = of_nat p * 4096"

definition pfree :: "'a mm_state_scheme \<Rightarrow> nat \<Rightarrow> bool" where
  "pfree s p = bit (mmap s (p div 32)) (p mod 32)"

lemma page_no_lt [simp]: "page_no a < 1048576"
  using unat_u32_lt [of a] by (simp add: page_no_def less_mult_imp_div_less)

lemma addr_to_idx_page: "addr_to_idx a = page_no a div 32"
  by (simp add: addr_to_idx_def page_no_def unat_simps)

lemma and_31: "(x :: u32) AND 31 = x mod 32"
  using take_bit_eq_mask [of 5 x] by (simp add: take_bit_eq_mod mask_eq_exp_minus_1)

lemma page_to_pos_page: "page_to_pos a = page_no a mod 32"
  by (simp add: page_to_pos_def page_no_def and_31 unat_simps)

lemma unat_page_addr: "p < 1048576 \<Longrightarrow> unat (page_addr p) = p * 4096"
  by (simp add: page_addr_def unat_mult_u32)

lemma page_no_addr [simp]: "p < 1048576 \<Longrightarrow> page_no (page_addr p) = p"
  by (simp add: page_no_def unat_page_addr)

lemma page_addr_not_NO_PAGE: "page_addr p \<noteq> NO_PAGE"
proof
  assume "page_addr p = NO_PAGE"
  then have "unat (page_addr p) mod 4096 = 1" by simp
  moreover have "unat (page_addr p) mod 4096 = 0"
    by (simp add: page_addr_def unat_mult_u32 mod_mod_cancel)
  ultimately show False by simp
qed

lemma page_no_step: "page_no (start + of_nat i * 4096) = (page_no start + i) mod 1048576"
proof -
  have "unat (start + of_nat i * 4096) = (unat start + i * 4096) mod 4294967296"
    by (simp add: unat_add_u32 unat_mult_u32 unat_of_nat_u32 mod_simps)
  also have "\<dots> div 4096 = ((unat start + i * 4096) div 4096) mod 1048576"
    using mod_mult2_eq [of "unat start + i * 4096" 4096 1048576] by simp
  finally show ?thesis by (simp add: page_no_def add.commute)
qed

lemma pos_lt [simp]: "page_to_pos a < 32"
  by (simp add: page_to_pos_page)

lemma is_free_iff: "is_free s a \<longleftrightarrow> pfree s (page_no a)"
  by (simp add: is_free_def pfree_def bissetn_bit addr_to_idx_page page_to_pos_page)

lemma page_idx_eq: "p div 32 = q div 32 \<and> p mod 32 = q mod 32 \<longleftrightarrow> p = (q :: nat)"
  by (metis div_mult_mod_eq)

lemma pfree_mark_free [simp]: "pfree (mark_free s a) p \<longleftrightarrow> p = page_no a \<or> pfree s p"
  using page_idx_eq [of p "page_no a"]
  by (auto simp: pfree_def mark_free_def bit_bsetn addr_to_idx_page page_to_pos_page)

lemma pfree_mark_used [simp]: "pfree (mark_used s a) p \<longleftrightarrow> p \<noteq> page_no a \<and> pfree s p"
  using page_idx_eq [of p "page_no a"]
  by (auto simp: pfree_def mark_used_def bit_bclrn addr_to_idx_page page_to_pos_page)

definition range_pages :: "u32 \<Rightarrow> u32 \<Rightarrow> nat set" where
  "range_pages start num = (\<lambda>i. (page_no start + i) mod 1048576) ` {0..<unat num}"

lemma pfree_mark_range_free [simp]:
  "pfree (mark_range_free s start num) p \<longleftrightarrow> p \<in> range_pages start num \<or> pfree s p"
proof -
  have "pfree (fold (\<lambda>i s. mark_free s (start + of_nat i * 4096)) is s) p
     \<longleftrightarrow> p \<in> (\<lambda>i. (page_no start + i) mod 1048576) ` set is \<or> pfree s p" for "is"
    by (induction "is" arbitrary: s) (auto simp: page_no_step)
  then show ?thesis by (simp add: mark_range_free_def range_pages_def)
qed

lemma pfree_mark_range_used [simp]:
  "pfree (mark_range_used s start num) p \<longleftrightarrow> p \<notin> range_pages start num \<and> pfree s p"
proof -
  have "pfree (fold (\<lambda>i s. mark_used s (start + of_nat i * 4096)) is s) p
     \<longleftrightarrow> p \<notin> (\<lambda>i. (page_no start + i) mod 1048576) ` set is \<and> pfree s p" for "is"
    by (induction "is" arbitrary: s) (auto simp: page_no_step)
  then show ?thesis by (simp add: mark_range_used_def range_pages_def)
qed

lemma is_range_free_iff: "is_range_free s start num \<longleftrightarrow> (\<forall>p\<in>range_pages start num. pfree s p)"
  by (auto simp: is_range_free_def range_pages_def list_all_iff is_free_iff page_no_step)

lemma range_pages_nowrap:
  assumes "page_no start + unat num \<le> 1048576"
  shows "range_pages start num = {page_no start..<page_no start + unat num}"
proof -
  have "range_pages start num = (\<lambda>i. page_no start + i) ` {0..<unat num}"
    unfolding range_pages_def using assms by (intro image_cong) auto
  then show ?thesis by (simp add: add.commute)
qed

text \<open>Marking pages touches the bitmap and nothing else.\<close>

lemma mark_frame [simp]:
  "total_mem (mark_free s a) = total_mem s" "mem_end (mark_free s a) = mem_end s"
  "last_error (mark_free s a) = last_error s" "mm_state.more (mark_free s a) = mm_state.more s"
  "total_mem (mark_used s a) = total_mem s" "mem_end (mark_used s a) = mem_end s"
  "last_error (mark_used s a) = last_error s" "mm_state.more (mark_used s a) = mm_state.more s"
  by (simp_all add: mark_free_def mark_used_def)

lemma fold_frame: "(\<And>x s. P (f x s) = P s) \<Longrightarrow> P (fold f xs s) = P s"
  by (induction xs arbitrary: s) auto

lemma mark_range_frame [simp]:
  "total_mem (mark_range_free s a n) = total_mem s" "mem_end (mark_range_free s a n) = mem_end s"
  "last_error (mark_range_free s a n) = last_error s"
  "total_mem (mark_range_used s a n) = total_mem s" "mem_end (mark_range_used s a n) = mem_end s"
  "last_error (mark_range_used s a n) = last_error s"
  by (simp_all add: mark_range_free_def mark_range_used_def fold_frame)

lemma mark_range_more [simp]:
  "mm_state.more (mark_range_free s a n) = mm_state.more s" 
  "mm_state.more (mark_range_used s a n) = mm_state.more s"
  by (simp_all add: mark_range_free_def mark_range_used_def fold_frame)

lemma pfree_seterr [simp]: "pfree (seterr s e) p = pfree s p"
  by (simp add: pfree_def seterr_def)

section \<open>What find finds\<close>

fun scan :: "'a mm_state_scheme \<Rightarrow> nat list \<Rightarrow> u32 \<Rightarrow> nat \<times> u32 \<Rightarrow> u32 + nat \<times> u32" where
  "scan s [] num st = Inr st"
| "scan s (p # ps) num (c, r) =
     (if pfree s p
      then let r = (if c = 0 then page_addr p else r)
           in if unat num \<le> c + 1 then Inl r else scan s ps num (c + 1, r)
      else scan s ps num (0, r))"

lemma scan_append:
  "scan s (xs @ ys) num st = (case scan s xs num st of Inl r \<Rightarrow> Inl r | Inr st \<Rightarrow> scan s ys num st)"
  by (induction xs arbitrary: st) (auto simp: Let_def)

lemma idx_pos_addr: "idx_to_addr i + pos_to_offs p = page_addr (i * 32 + p)"
  by (simp add: idx_to_addr_def pos_to_offs_def page_addr_def algebra_simps)

lemma find_bits_scan:
  "\<forall>p\<in>set ps. p < 32 \<Longrightarrow> find_bits s i ps num st = scan s (map (\<lambda>p. i * 32 + p) ps) num st"
proof (induction ps arbitrary: st)
  case (Cons p ps)
  then show ?case 
    by (cases st) (auto simp: test_page_def bissetn_bit pfree_def idx_pos_addr Let_def)
qed simp

lemma scan_none: "\<forall>p\<in>set ps. \<not> pfree s p \<Longrightarrow> ps \<noteq> [] \<Longrightarrow> scan s ps num st = Inr (0, snd st)"
proof (induction ps arbitrary: st)
  case (Cons p ps)
  then show ?case by (cases st; cases "ps = []") auto
qed simp

definition word_pages :: "nat \<Rightarrow> nat list" where
  "word_pages i = [i * 32..<i * 32 + 32]"

lemma word_pages_idx: "p \<in> set (word_pages i) \<Longrightarrow> p div 32 = i"
  by (auto simp: word_pages_def intro!: div_nat_eqI)

lemma find_words_scan: "find_words s is num st = scan s (concat (map word_pages is)) num st"
proof (induction "is" arbitrary: st)
  case (Cons i "is")
  have w: "word_pages i = map (\<lambda>p. i * 32 + p) [0..<32]"
    by (simp add: word_pages_def map_add_upt add.commute)
  have "scan s (word_pages i) num st = Inr (0, snd st)" if "mmap s i = 0"
    using that word_pages_idx [of _ i] by (intro scan_none) (auto simp: pfree_def word_pages_def)
  moreover have "find_bits s i [0..<32] num st = scan s (word_pages i) num st"
    using find_bits_scan [of "[0..<32]" s i num st] w by simp
  ultimately show ?case using Cons by (auto simp: scan_append split: sum.splits)
qed simp

lemma concat_word_pages: "a \<le> b \<Longrightarrow> concat (map word_pages [a..<b]) = [a * 32..<b * 32]"
proof (induction b)
  case (Suc b)
  then show ?case
    using upt_add_eq_append [of "a * 32" "b * 32" 32]
    by (cases "a = Suc b") (auto simp: word_pages_def le_Suc_eq add.commute)
qed simp

lemma map_add_upt2: "map (\<lambda>p. k + p) [a..<b] = [k + a..<k + b]"
  using map_add_upt [of "k + a" "b - a"] by (cases "a \<le> b") (auto intro!: nth_equalityI)

text \<open>The pages \<^verbatim>\<open>find\<close> looks at, in order.\<close>

definition find_pages :: "u32 \<Rightarrow> u32 \<Rightarrow> nat list" where
  "find_pages start end =
     (if page_to_pos start \<noteq> 0 then [page_no start..<(addr_to_idx start + 1) * 32] else [])
     @ concat (map word_pages [(if page_to_pos start \<noteq> 0 then addr_to_idx start + 1 else addr_to_idx start)
         ..<(if page_to_pos end \<noteq> 0 then addr_to_idx end - 1 else addr_to_idx end)])
     @ (if page_to_pos end \<noteq> 0 then [addr_to_idx end * 32..<page_no end] else [])"

lemma page_no_split: "page_no a = addr_to_idx a * 32 + page_to_pos a"
  by (simp add: addr_to_idx_page page_to_pos_page)

lemma find_page_scan:
  "find_page s num start end =
     (case scan s (find_pages start end) num (0, NO_PAGE) of Inl r \<Rightarrow> r | Inr st \<Rightarrow> NO_PAGE)"
proof -
  have 1: "find_bits s i [0..<page_to_pos end] num st = scan s [i * 32..<i * 32 + page_to_pos end] num st" for i st
    using find_bits_scan [of "[0..<page_to_pos end]" s i num st] pos_lt [of "end"]
    by (auto simp: map_add_upt add.commute)
  have 2: "find_bits s i [page_to_pos start..<32] num st = scan s [i * 32 + page_to_pos start..<(i + 1) * 32] num st" for i st
    using find_bits_scan [of "[page_to_pos start..<32]" s i num st]
    by (simp only: map_add_upt2) (simp add: add.commute)
  show ?thesis
    by (auto simp: find_page_def find_pages_def Let_def scan_append find_words_scan 1 2 page_no_split split: sum.splits)
qed


lemma find_pages_aligned:
  assumes "page_no start \<le> page_no end" and "page_to_pos end = 0"
  shows "find_pages start end = [page_no start..<page_no end]"
proof -
  have e: "page_no end = addr_to_idx end * 32" using assms(2) page_no_split [of "end"] by simp
  have st: "page_no start = addr_to_idx start * 32 + page_to_pos start" by (rule page_no_split)
  show ?thesis
  proof (cases "page_to_pos start = 0")
    case True
    then have "addr_to_idx start \<le> addr_to_idx end" using e st assms(1) by simp
    with True assms(2) e st show ?thesis by (simp add: find_pages_def concat_word_pages)
  next
    case False
    then have le: "addr_to_idx start + 1 \<le> addr_to_idx end" using e st assms(1) by simp
    then obtain k where k: "addr_to_idx end * 32 = (addr_to_idx start + 1) * 32 + k"
      by (metis le_add_diff_inverse mult_le_mono1)
    have s1: "page_no start \<le> (addr_to_idx start + 1) * 32"
      unfolding st using less_imp_le [OF pos_lt [of start]] by (simp add: algebra_simps)
    have "[page_no start..<page_no end] = [page_no start..<(addr_to_idx start + 1) * 32]
       @ [(addr_to_idx start + 1) * 32..<addr_to_idx end * 32]"
      unfolding e k using s1 by (rule upt_add_eq_append)
    with False assms(2) le show ?thesis by (simp add: find_pages_def concat_word_pages)
  qed
qed

text \<open>A run of \<open>n\<close> free pages from page \<open>q\<close> on, and the first such run in an interval.\<close>

definition free_run :: "'a mm_state_scheme \<Rightarrow> nat \<Rightarrow> nat \<Rightarrow> bool" where
  "free_run s q n = list_all (\<lambda>k. pfree s (q + k)) [0..<n]"

definition first_fit :: "'a mm_state_scheme \<Rightarrow> nat \<Rightarrow> nat \<Rightarrow> nat \<Rightarrow> nat option" where
  "first_fit s n a b = List.find (\<lambda>q. free_run s q n) [a..<b + 1 - n]"

lemma free_run_iff: "free_run s q n \<longleftrightarrow> (\<forall>p. q \<le> p \<and> p < q + n \<longrightarrow> pfree s p)"
proof
  assume r: "free_run s q n"
  show "\<forall>p. q \<le> p \<and> p < q + n \<longrightarrow> pfree s p"
  proof (intro allI impI)
    fix p assume "q \<le> p \<and> p < q + n"
    then have "p - q \<in> set [0..<n]" "q + (p - q) = p" by auto
    with r show "pfree s p" unfolding free_run_def list_all_iff by metis
  qed
qed (simp add: free_run_def list_all_iff)

lemma first_fit_step:
  "a + n \<le> b \<Longrightarrow> first_fit s n a b = (if free_run s a n then Some a else first_fit s n (Suc a) b)"
  by (simp add: first_fit_def upt_conv_Cons)

lemma first_fit_skip:
  assumes "a \<le> a'" and "\<And>q. a \<le> q \<Longrightarrow> q < a' \<Longrightarrow> q + n \<le> b \<Longrightarrow> \<not> free_run s q n"
  shows "first_fit s n a b = first_fit s n a' b"
  using assms
proof (induction "a' - a" arbitrary: a)
  case (Suc d)
  have "first_fit s n a b = first_fit s n (Suc a) b"
  proof (cases "a + n \<le> b")
    case True
    with Suc show ?thesis by (simp add: first_fit_step)
  next
    case False
    then show ?thesis by (simp add: first_fit_def)
  qed
  with Suc show ?case by auto
qed simp

lemma scan_first_fit:
  assumes "c < unat num" and "c \<le> a" and "free_run s (a - c) c" and "0 < c \<longrightarrow> r = page_addr (a - c)"
  shows "(case scan s [a..<b] num (c, r) of Inl r \<Rightarrow> Some r | Inr _ \<Rightarrow> None)
    = map_option page_addr (first_fit s (unat num) (a - c) (max a b))"
  using assms
proof (induction "b - a" arbitrary: a c r)
  case 0
  then have "max a b = a" by simp
  with 0 show ?case by (simp add: first_fit_def)
next
  case (Suc d)
  then have ab: "a < b" by simp
  then have upt: "[a..<b] = a # [Suc a..<b]" by (simp add: upt_conv_Cons)
  show ?case
  proof (cases "pfree s a")
    case True
    then have run: "free_run s (a - c) (Suc c)"
      using Suc.prems by (auto simp: free_run_iff less_Suc_eq)
    show ?thesis
    proof (cases "unat num \<le> c + 1")
      case True2: True
      then have n: "unat num = Suc c" using Suc.prems by simp
      with ab Suc.prems run True show ?thesis
        by (auto simp: upt Let_def first_fit_step max_def)
    next
      case False
      with Suc.hyps(1)[of "Suc a" "Suc c" "if c = 0 then page_addr a else r"] Suc.hyps(2) Suc.prems run True ab 
      show ?thesis by (auto simp: upt Let_def max_def)
    qed
  next
    case False
    have "first_fit s (unat num) (a - c) b = first_fit s (unat num) (Suc a) b"
      using False Suc.prems by (intro first_fit_skip) (auto simp: free_run_iff)
    with Suc.hyps(1)[of "Suc a" 0 r] Suc.hyps(2) Suc.prems False ab
    show ?thesis by (auto simp: upt max_def free_run_def)
  qed
qed


lemma find_page_first_fit:
  assumes "page_no start \<le> page_no end" and "page_to_pos end = 0" and "0 < unat num"
  shows "find_page s num start end =
    (case first_fit s (unat num) (page_no start) (page_no end) of None \<Rightarrow> NO_PAGE | Some q \<Rightarrow> page_addr q)"
  using scan_first_fit [of 0 num "page_no start" s NO_PAGE "page_no end"] assms
  by (auto simp: find_page_scan find_pages_aligned free_run_def max_def split: sum.splits option.splits)

lemma first_fit_Some:
  "first_fit s n a b = Some q \<Longrightarrow> a \<le> q \<and> q + n \<le> b \<or> n = 0" 
  by (auto simp: first_fit_def find_Some_iff nth_append) 

lemma scan_one:
  "scan s ps 1 (0, r) = (case List.find (pfree s) ps of None \<Rightarrow> Inr (0, r) | Some p \<Rightarrow> Inl (page_addr p))"
  by (induction ps) (auto simp: Let_def)

lemma find_one:
  "find_page s 1 start end = (case List.find (pfree s) (find_pages start end) of None \<Rightarrow> NO_PAGE | Some p \<Rightarrow> page_addr p)"
  by (simp add: find_page_scan scan_one split: option.splits)

lemma page_no_dma_end: "page_no dma_end = 144" "addr_to_idx dma_end = 4" "page_to_pos dma_end = 16"
  by (simp_all add: dma_end_def page_no_def addr_to_idx_page page_to_pos_page)

lemma atLeastLessThan_eq_set: "{x. a \<le> x \<and> x < b} = {a..<b :: nat}"
  by auto

lemma concat_word_pages_set: "(\<Union>i\<in>{a..<b}. set (word_pages i)) = {a * 32..<b * 32}"
proof (cases "a \<le> b")
  case True
  from arg_cong [OF concat_word_pages [OF True], of set] show ?thesis by simp
qed simp

text \<open>
  The word of the bitmap before the one that holds the end of memory is never looked at when
  memory does not end on a boundary of 32 pages.
\<close>

definition skipped_pages :: "u32 \<Rightarrow> nat set" where
  "skipped_pages end =
     (if page_to_pos end = 0 then {} else {(addr_to_idx end - 1) * 32..<addr_to_idx end * 32})"

lemma find_pages_set:
  assumes "160 \<le> page_no end"
  shows "{144..<page_no end} - skipped_pages end - {144..<160} \<subseteq> set (find_pages dma_end end)"
    and "{144..<160} \<subseteq> set (find_pages dma_end end)"
    and "set (find_pages dma_end end) \<subseteq> {144..<page_no end}"
proof -
  let ?i = "addr_to_idx end" and ?p = "page_to_pos end"
  have e: "page_no end = ?i * 32 + ?p" by (rule page_no_split)
  have i: "5 \<le> ?i" using assms e pos_lt [of "end"] by linarith
  have set_eq: "set (find_pages dma_end end) = {144..<160} \<union> {160..<(if ?p = 0 then ?i else ?i - 1) * 32}
     \<union> (if ?p = 0 then {} else {?i * 32..<?i * 32 + ?p})"
    by (cases "?p = 0")
      (simp_all add: find_pages_def concat_word_pages_set e page_no_dma_end Un_assoc atLeastLessThan_eq_set
        del: upt_rec_numeral)
  have "(?i - 1) * 32 + 32 = ?i * 32" using i by simp
  then show "{144..<page_no end} - skipped_pages end - {144..<160} \<subseteq> set (find_pages dma_end end)"
    "{144..<160} \<subseteq> set (find_pages dma_end end)" "set (find_pages dma_end end) \<subseteq> {144..<page_no end}"
    unfolding set_eq using i assms by (auto simp: e skipped_pages_def)
qed


lemma mm_alloc_page_cases:
  assumes "160 \<le> page_no (mem_end s)"
  obtains (none) "mm_alloc_page s = (NO_PAGE, seterr s E_NO_MEM)"
      "\<forall>p. 144 \<le> p \<and> p < page_no (mem_end s) \<and> pfree s p \<longrightarrow> p \<in> skipped_pages (mem_end s)"
    | (page) p where "mm_alloc_page s = (page_addr p, mark_used s (page_addr p))" "pfree s p"
      "144 \<le> p" "p < page_no (mem_end s)"
proof (cases "List.find (pfree s) (find_pages dma_end (mem_end s))")
  case None
  then have f: "find_page s 1 dma_end (mem_end s) = NO_PAGE" by (simp add: find_one)
  have "\<forall>p\<in>set (find_pages dma_end (mem_end s)). \<not> pfree s p" using None by (simp add: find_None_iff)
  then have "\<forall>p. 144 \<le> p \<and> p < page_no (mem_end s) \<and> pfree s p \<longrightarrow> p \<in> skipped_pages (mem_end s)"
    using find_pages_set [OF assms] by fastforce
  with f show ?thesis by (intro none) (simp_all add: mm_alloc_page_def)
next
  case (Some p)
  then have f: "find_page s 1 dma_end (mem_end s) = page_addr p" by (simp add: find_one)
  from Some have "p \<in> set (find_pages dma_end (mem_end s))" "pfree s p"
    by (auto simp: find_Some_iff)
  with f find_pages_set(3) [OF assms] show ?thesis
    by (intro page [of p]) (auto simp: mm_alloc_page_def page_addr_not_NO_PAGE Let_def)
qed

section \<open>The allocator contract\<close>

text \<open>
  What the virtual memory manager and the other clients rely on: an allocated page was available
  and is not any more, a released page is available again. Client facts are proved once here.
\<close>

fun alloc_many :: "('s \<Rightarrow> u32 \<times> 's) \<Rightarrow> nat \<Rightarrow> 's \<Rightarrow> u32 list \<times> 's" where
  "alloc_many alloc 0 s = ([], s)"
| "alloc_many alloc (Suc n) s =
     (case alloc s of (a, s) \<Rightarrow> case alloc_many alloc n s of (as, s) \<Rightarrow> (a # as, s))"

locale page_allocator =
  fixes inv :: "'s \<Rightarrow> bool"
    and avail :: "'s \<Rightarrow> nat set"
    and alloc :: "'s \<Rightarrow> u32 \<times> 's"
    and release :: "'s \<Rightarrow> u32 \<Rightarrow> 's"
  assumes alloc_none: "inv s \<Longrightarrow> alloc s = (NO_PAGE, s') \<Longrightarrow> inv s' \<and> avail s' = avail s"
    and alloc_some: "inv s \<Longrightarrow> alloc s = (a, s') \<Longrightarrow> a \<noteq> NO_PAGE \<Longrightarrow>
      inv s' \<and> IS_PAGE_ALIGNED a \<and> page_no a \<in> avail s \<and> avail s' = avail s - {page_no a}"
    and release_ok: "inv s \<Longrightarrow> IS_PAGE_ALIGNED a \<Longrightarrow>
      inv (release s a) \<and> avail (release s a) = insert (page_no a) (avail s)"
begin

lemma alloc_many_inv:
  "inv s \<Longrightarrow> alloc_many alloc n s = (as, s') \<Longrightarrow>
     inv s' \<and> avail s' = avail s - page_no ` (set as - {NO_PAGE})
     \<and> page_no ` (set as - {NO_PAGE}) \<subseteq> avail s \<and> (\<forall>a\<in>set as - {NO_PAGE}. IS_PAGE_ALIGNED a)
     \<and> distinct (map page_no (filter (\<lambda>a. a \<noteq> NO_PAGE) as))"
proof (induction n arbitrary: s as)
  case (Suc n)
  from Suc.prems(2) obtain a s1 bs where
    a: "alloc s = (a, s1)" "alloc_many alloc n s1 = (bs, s')" "as = a # bs"
    by (auto split: prod.splits)
  show ?case
  proof (cases "a = NO_PAGE")
    case True
    with alloc_none [OF Suc.prems(1)] Suc.IH [OF _ a(2)] a show ?thesis by auto
  next
    case False
    with alloc_some [OF Suc.prems(1) a(1)] have
      s1: "inv s1" "IS_PAGE_ALIGNED a" "page_no a \<in> avail s" "avail s1 = avail s - {page_no a}" by auto
    have "page_no a \<notin> page_no ` (set bs - {NO_PAGE})" using Suc.IH [OF s1(1) a(2)] s1(4) by auto
    with Suc.IH [OF s1(1) a(2)] s1 a(3) False show ?thesis by auto
  qed
qed simp

lemma release_many:
  "inv s \<Longrightarrow> \<forall>a\<in>set as. IS_PAGE_ALIGNED a \<Longrightarrow>
     inv (foldl release s as) \<and> avail (foldl release s as) = page_no ` set as \<union> avail s"
proof (induction as arbitrary: s)
  case (Cons a as)
  with release_ok [of s a] Cons.IH [of "release s a"] show ?case by auto
qed simp

lemma alloc_release_many:
  assumes "inv s" and "alloc_many alloc n s = (as, s')"
  shows "avail (foldl release s' (filter (\<lambda>a. a \<noteq> NO_PAGE) as)) = avail s"
  using alloc_many_inv [OF assms] release_many [of s' "filter (\<lambda>a. a \<noteq> NO_PAGE) as"] by auto

end

definition mm_inv :: "'a mm_state_scheme \<Rightarrow> bool" where
  "mm_inv s \<longleftrightarrow> 160 \<le> page_no (mem_end s)"

definition free_pages :: "'a mm_state_scheme \<Rightarrow> nat set" where
  "free_pages s = {p. p < 1048576 \<and> pfree s p}"

lemma seterr_frame [simp]:
  "mem_end (seterr s e) = mem_end s" "total_mem (seterr s e) = total_mem s"
  "mmap (seterr s e) = mmap s" "mm_state.more (seterr s e) = mm_state.more s"
  "last_error (seterr s e) = seterr_code e"
  by (simp_all add: seterr_def)

lemma page_addr_aligned: "p < 1048576 \<Longrightarrow> IS_PAGE_ALIGNED (page_addr p)"
  by (simp add: IS_PAGE_ALIGNED_iff unat_page_addr)

lemma aligned_not_NO_PAGE: "IS_PAGE_ALIGNED a \<Longrightarrow> a \<noteq> NO_PAGE"
  by (auto simp: IS_PAGE_ALIGNED_iff)

interpretation pa: page_allocator mm_inv free_pages mm_alloc_page mm_free_page
proof
  fix s s' :: "'a mm_state_scheme"
  assume i: "mm_inv s" and a: "mm_alloc_page s = (NO_PAGE, s')"
  from i have "160 \<le> page_no (mem_end s)" by (simp add: mm_inv_def)
  then show "mm_inv s' \<and> free_pages s' = free_pages s"
    by (cases rule: mm_alloc_page_cases)
      (use i a in \<open>auto simp: mm_inv_def free_pages_def page_addr_not_NO_PAGE\<close>)
next
  fix s s' :: "'a mm_state_scheme" and a
  assume i: "mm_inv s" and "mm_alloc_page s = (a, s')" "a \<noteq> NO_PAGE"
  then obtain p where p: "a = page_addr p" "s' = mark_used s (page_addr p)" "pfree s p" "p < page_no (mem_end s)"
    by (auto elim!: mm_alloc_page_cases [of s] simp: mm_inv_def)
  then have "p < 1048576" using page_no_lt [of "mem_end s"] by linarith
  with p i show "mm_inv s' \<and> IS_PAGE_ALIGNED a \<and> page_no a \<in> free_pages s \<and> free_pages s' = free_pages s - {page_no a}"
    by (auto simp: mm_inv_def free_pages_def page_addr_aligned)
next
  fix s :: "'a mm_state_scheme" and a
  assume "mm_inv s" "IS_PAGE_ALIGNED a"
  then show "mm_inv (mm_free_page s a) \<and> free_pages (mm_free_page s a) = insert (page_no a) (free_pages s)"
    by (auto simp: mm_free_page_def mm_inv_def free_pages_def aligned_not_NO_PAGE)
qed

lemma mm_alloc_dma_loop_some:
  "mm_alloc_dma_loop s as = (a, s') \<Longrightarrow> a \<noteq> NO_PAGE \<Longrightarrow>
     a \<in> set as \<and> is_range_free s a DMA_RANGE_LENGTH \<and> s' = mark_range_used s a DMA_RANGE_LENGTH"
  by (induction as) (auto split: if_splits)

lemma mm_alloc_dma_loop_none:
  "\<forall>a\<in>set as. \<not> is_range_free s a DMA_RANGE_LENGTH \<Longrightarrow> mm_alloc_dma_loop s as = (NO_PAGE, seterr s E_NO_MEM)"
  by (induction as) auto

lemma dma_range_pages:
  assumes "a \<in> set dma_addrs"
  shows "range_pages a DMA_RANGE_LENGTH = {page_no a..<page_no a + 65536}" "page_no a \<le> 128"
proof -
  show le: "page_no a \<le> 128" using assms by (auto simp: dma_addrs_def page_no_def)
  then show "range_pages a DMA_RANGE_LENGTH = {page_no a..<page_no a + 65536}"
    by (subst range_pages_nowrap) simp_all
qed

lemma count_bits:
  "fold (\<lambda>j num. if P j then num + 1 else num) xs (n :: u32) = n + of_nat (length (filter P xs))"
  by (induction xs arbitrary: n) auto

lemma count_words:
  "fold (\<lambda>i num. fold (\<lambda>j num. if bissetn (mmap s i) j then num + 1 else num) [0..<32] num) is (n :: u32)
     = n + of_nat (length (filter (pfree s) (concat (map word_pages is))))"
proof -
  have "length (filter (\<lambda>j. bissetn (mmap s i) j) [0..<32]) = length (filter (pfree s) (word_pages i))" for i
  proof -
    have "word_pages i = map (\<lambda>p. i * 32 + p) [0..<32]" by (simp only: map_add_upt2 word_pages_def) simp
    moreover have "filter (bissetn (mmap s i)) [0..<32] = filter (\<lambda>p. pfree s (i * 32 + p)) [0..<32]"
      by (rule filter_cong) (auto simp: pfree_def bissetn_bit)
    ultimately show ?thesis by (simp add: filter_map o_def del: upt_rec_numeral)
  qed
  then show ?thesis by (induction "is" arbitrary: n) (simp_all add: count_bits)
qed

definition block_pages :: "boot_info \<Rightarrow> nat \<Rightarrow> nat set" where
  "block_pages mb i =
     (case get_avail_block mb i of
        USABLE_BLOCK start len \<Rightarrow>
          (case align_block start len of (start, len) \<Rightarrow> range_pages start (NUM_PAGES len))
      | _ \<Rightarrow> {})"

definition mod_pages :: "boot_info \<Rightarrow> nat set" where
  "mod_pages mb = range_pages (mb_mods_addr mb) (NUM_PAGES 16)
     \<union> range_pages (mod_start (mb_mod mb)) (NUM_PAGES (mod_end (mb_mod mb) - mod_start (mb_mod mb)))
     \<union> (if mod_cmdline (mb_mod mb) = 0 then {}
        else range_pages (mod_cmdline (mb_mod mb)) (NUM_PAGES (mb_mod_cmdline_len mb)))"

definition reserved_pages :: "boot_info \<Rightarrow> nat set" where
  "reserved_pages mb = {0}
     \<union> range_pages (kernel_phys_start mb) (NUM_PAGES (kernel_phys_end mb - kernel_phys_start mb))
     \<union> (if mb_mods_count mb = 0 then {} else mod_pages mb)
     \<union> range_pages (mb_sec_addr mb) (NUM_PAGES (mb_sec_size mb))
     \<union> (\<Union>i<unat (mb_sec_num mb). range_pages (fst (mb_shdr mb i)) (NUM_PAGES (snd (mb_shdr mb i))))"

lemma pfree_counters [simp]: "pfree (s\<lparr>total_mem := t, mem_end := e\<rparr>) p = pfree s p"
  by (simp add: pfree_def)

lemma pfree_add_block:
  "pfree (add_block s start len) p \<longleftrightarrow>
     p \<in> (case align_block start len of (a, n) \<Rightarrow> range_pages a (NUM_PAGES n)) \<or> pfree s p"
  by (simp add: add_block_def Let_def split: prod.splits)

declare add_blocks.simps [simp del]

lemma ex_ge_Suc: "(\<exists>j\<ge>i. P j) \<longleftrightarrow> P i \<or> (\<exists>j\<ge>Suc i. P (j :: nat))"
  by (metis Suc_leD le_antisym not_less_eq_eq order_refl)

lemma pfree_add_blocks:
  "pfree (add_blocks mb i s) p \<longleftrightarrow> (\<exists>j\<ge>i. j \<le> unat (mb_mmap_length mb) \<and> p \<in> block_pages mb j) \<or> pfree s p"
proof (induction mb i s rule: add_blocks.induct)
  case (1 mb i s)
  show ?case
  proof (cases "get_avail_block mb i")
    case END_OF_BLOCKS
    then have "unat (mb_mmap_length mb) < i" by (simp add: get_avail_block_def split: if_splits)
    with END_OF_BLOCKS show ?thesis by (auto simp: add_blocks.simps [of mb i])
  next
    case UNUSABLE_BLOCK
    then have "p \<notin> block_pages mb i" by (simp add: block_pages_def)
    moreover have "add_blocks mb i s = add_blocks mb (i + 1) s"
      using UNUSABLE_BLOCK by (simp add: add_blocks.simps [of mb i])
    ultimately show ?thesis using 1(2) [OF UNUSABLE_BLOCK] by (simp add: ex_ge_Suc [of i])
  next
    case (USABLE_BLOCK start len)
    then have b: "block_pages mb i = (case align_block start len of (a, n) \<Rightarrow> range_pages a (NUM_PAGES n))"
      and i: "i \<le> unat (mb_mmap_length mb)"
      by (auto simp: block_pages_def get_avail_block_def split: if_splits)
    have "pfree (add_blocks mb i s) p \<longleftrightarrow>
      (\<exists>j\<ge>Suc i. j \<le> unat (mb_mmap_length mb) \<and> p \<in> block_pages mb j) \<or> p \<in> block_pages mb i \<or> pfree s p"
      using 1(1) [OF USABLE_BLOCK] USABLE_BLOCK
      by (simp add: add_blocks.simps [of mb i] pfree_add_block b)
    with i show ?thesis by (simp add: ex_ge_Suc [of i] disj_assoc disj_left_commute)
  qed
qed

lemma pfree_reserve_mods:
  "pfree (fold (\<lambda>_ s. reserve_mod mb s) xs s) p \<longleftrightarrow> (xs = [] \<or> p \<notin> mod_pages mb) \<and> pfree s p"
  by (induction xs arbitrary: s) (auto simp: reserve_mod_def mod_pages_def Let_def)

lemma pfree_sections:
  "pfree (fold (\<lambda>i s. mark_range_used s (f i) (g i)) xs s) p \<longleftrightarrow>
     (\<forall>i\<in>set xs. p \<notin> range_pages (f i) (g i)) \<and> pfree s p"
  by (induction xs arbitrary: s) auto

section \<open>Properties\<close>

text \<open>
  C17. \<^verbatim>\<open>find(num, start, end)\<close>, when \<open>end\<close> lies on a boundary of 32 pages, is first fit: it returns the
  lowest run of \<open>num\<close> free pages inside the interval, and \<^verbatim>\<open>NO_PAGE\<close> exactly when there is none; the
  word-at-a-time skipping changes nothing.
\<close>

theorem find_is_first_fit:
  assumes "page_no start \<le> page_no end" and "page_to_pos end = 0" and "0 < unat num"
  shows "find_page s num start end =
    (case first_fit s (unat num) (page_no start) (page_no end) of None \<Rightarrow> NO_PAGE | Some q \<Rightarrow> page_addr q)"
  by (rule find_page_first_fit [OF assms])

text \<open>A bitmap with pages 162, 163, 190, 191 and 224 free, for concrete instances.\<close>

definition demo_mm :: "u32 \<Rightarrow> mm_state" where
  "demo_mm e = fold (\<lambda>p s. mark_free s (page_addr p)) [162, 163, 190, 191, 224]
     \<lparr>mmap = (\<lambda>_. 0), total_mem = 0, mem_end = e, last_error = 0\<rparr>"

lemma demo_mm_pfree [simp]: "pfree (demo_mm e) p \<longleftrightarrow> p = 162 \<or> p = 163 \<or> p = 190 \<or> p = 191 \<or> p = 224"
  by (auto simp: demo_mm_def) (simp_all add: pfree_def)

lemma free_run_2: "free_run s q 2 \<longleftrightarrow> pfree s q \<and> pfree s (q + 1)"
  by (simp add: free_run_def numeral_2_eq_2)

theorem find_is_first_fit_witness:
  "find_page (demo_mm 0xC0000) 2 0xA0000 0xC0000 = 0xA2000"
proof -
  have p: "page_no 0xA0000 = 160" "page_no 0xC0000 = 192" "page_to_pos 0xC0000 = 0"
    by (simp_all add: page_no_def page_to_pos_page)
  have "first_fit (demo_mm 0xC0000) (unat (2 :: u32)) 160 192 = Some 162"
    by (simp add: first_fit_def free_run_2)
  then show ?thesis using find_is_first_fit [of "0xA0000" "0xC0000" 2 "demo_mm 0xC0000"]
    by (simp add: page_addr_def p)
qed

text \<open>
  C16. \<^verbatim>\<open>mm_alloc_page\<close>, with memory ending above 640 KiB: a page it returns was free, lies between the
  DMA area and the end of memory, and is used afterwards, while every other page keeps its status.
  When it fails, the error is \<^verbatim>\<open>E_NO_MEM\<close>, nothing changed, and every page still free is in the
  bitmap word that the search skips.
\<close>

theorem mm_alloc_page_spec:
  assumes "160 \<le> page_no (mem_end s)"
  shows "(case mm_alloc_page s of (a, s') \<Rightarrow>
     if a = NO_PAGE
     then last_error s' = E_NO_MEM \<and> free_pages s' = free_pages s
       \<and> (\<forall>p. 144 \<le> p \<and> p < page_no (mem_end s) \<and> p \<in> free_pages s \<longrightarrow> p \<in> skipped_pages (mem_end s))
     else IS_PAGE_ALIGNED a \<and> 144 \<le> page_no a \<and> page_no a < page_no (mem_end s)
       \<and> page_no a \<in> free_pages s \<and> free_pages s' = free_pages s - {page_no a})"
  using assms
proof (cases rule: mm_alloc_page_cases)
  case none
  then show ?thesis by (auto simp: free_pages_def seterr_code_def Let_def)
next
  case (page p)
  then have "p < 1048576" using page_no_lt [of "mem_end s"] by linarith
  with page show ?thesis
    by (auto simp: free_pages_def page_addr_not_NO_PAGE page_addr_aligned)
qed

lemma demo_mm_end: "mem_end (demo_mm e) = e" "page_no 0xE0000 = 224" "page_to_pos 0xE0000 = 0" "addr_to_idx 0xE0000 = 7"
  by (simp_all add: demo_mm_def page_no_def page_to_pos_page addr_to_idx_page)

theorem mm_alloc_page_spec_witness: "page_no (fst (mm_alloc_page (demo_mm 0xE0000))) \<in> free_pages (demo_mm 0xE0000)"
proof -
  have "find_page (demo_mm 0xE0000) 1 dma_end 0xE0000 \<noteq> NO_PAGE"
    by (simp add: find_one find_pages_def page_no_dma_end demo_mm_end word_pages_def page_addr_not_NO_PAGE)
  then have "fst (mm_alloc_page (demo_mm 0xE0000)) \<noteq> NO_PAGE"
    by (simp add: mm_alloc_page_def Let_def demo_mm_end)
  with mm_alloc_page_spec [of "demo_mm 0xE0000"] show ?thesis
    by (simp add: demo_mm_end split: prod.splits)
qed

text \<open>
  C15. Any number of pages allocated in a row are pairwise different and were all free before; freeing
  those that were really allocated restores the set of free pages.
\<close>

theorem mm_alloc_pages_distinct:
  assumes "mm_inv s" and "alloc_many mm_alloc_page n s = (as, s')"
  shows "distinct (map page_no (filter (\<lambda>a. a \<noteq> NO_PAGE) as))
    \<and> page_no ` (set as - {NO_PAGE}) \<subseteq> free_pages s
    \<and> free_pages s' = free_pages s - page_no ` (set as - {NO_PAGE})
    \<and> free_pages (foldl mm_free_page s' (filter (\<lambda>a. a \<noteq> NO_PAGE) as)) = free_pages s"
  using pa.alloc_many_inv [OF assms] pa.alloc_release_many [OF assms] by blast

theorem mm_alloc_pages_distinct_witness:
  "free_pages (foldl mm_free_page (snd (alloc_many mm_alloc_page 3 (demo_mm 0xC0000)))
      (filter (\<lambda>a. a \<noteq> NO_PAGE) (fst (alloc_many mm_alloc_page 3 (demo_mm 0xC0000)))))
    = free_pages (demo_mm 0xC0000)"
proof -
  have "mm_inv (demo_mm 0xC0000)" by (simp add: mm_inv_def demo_mm_def page_no_def)
  from mm_alloc_pages_distinct [OF this] show ?thesis by (metis prod.collapse)
qed





text \<open>
  \<^verbatim>\<open>mm_alloc_dma\<close> passes the length of a DMA block in bytes where a number of pages is meant: a
  block it returns is only found when 256 MiB behind its start are free, all of them are marked
  used, and the next call always fails with \<^verbatim>\<open>E_NO_MEM\<close>, although seven other blocks should be left.
\<close>

theorem mm_alloc_dma_only_once:
  assumes "mm_alloc_dma s = (a, s')" and "a \<noteq> NO_PAGE"
  shows "{page_no a..<page_no a + 65536} \<subseteq> free_pages s
    \<and> free_pages s' = free_pages s - {page_no a..<page_no a + 65536}
    \<and> mm_alloc_dma s' = (NO_PAGE, seterr s' E_NO_MEM)"
proof -
  from assms obtain d: "a \<in> set dma_addrs" "is_range_free s a 0x10000" "s' = mark_range_used s a 0x10000"
    unfolding mm_alloc_dma_def by (metis mm_alloc_dma_loop_some)
  note r = dma_range_pages [OF d(1)]
  have "\<not> is_range_free s' b 0x10000" if "b \<in> set dma_addrs" for b
  proof -
    have "128 \<in> range_pages b 0x10000" "\<not> pfree s' 128"
      using dma_range_pages [OF that] r d(3) by auto
    then show ?thesis unfolding is_range_free_iff by blast
  qed
  then have "mm_alloc_dma s' = (NO_PAGE, seterr s' E_NO_MEM)"
    unfolding mm_alloc_dma_def by (intro mm_alloc_dma_loop_none) blast
  moreover have "{page_no a..<page_no a + 65536} \<subseteq> free_pages s"
    using d(2) r by (auto simp: is_range_free_iff free_pages_def)
  moreover have "free_pages s' = free_pages s - {page_no a..<page_no a + 65536}"
    using d(3) r by (auto simp: free_pages_def)
  ultimately show ?thesis by blast
qed

definition all_free_mm :: mm_state where
  "all_free_mm = \<lparr>mmap = (\<lambda>_. - 1), total_mem = 0, mem_end = 0, last_error = 0\<rparr>"

theorem mm_alloc_dma_only_once_witness:
  "mm_alloc_dma (snd (mm_alloc_dma all_free_mm))
     = (NO_PAGE, seterr (snd (mm_alloc_dma all_free_mm)) E_NO_MEM)"
proof -
  have "pfree all_free_mm p" for p by (simp add: all_free_mm_def pfree_def)
  then have "mm_alloc_dma all_free_mm = (0x10000, mark_range_used all_free_mm 0x10000 0x10000)"
    by (simp add: mm_alloc_dma_def dma_addrs_def is_range_free_iff)
  from mm_alloc_dma_only_once [OF this] this show ?thesis by simp
qed

text \<open>
  \<^verbatim>\<open>mm_num_free_pages\<close> is the number of free pages.
\<close>

theorem mm_num_free_pages_card: "unat (mm_num_free_pages s) = card (free_pages s)"
proof -
  have "mm_num_free_pages s = of_nat (length (filter (pfree s) (concat (map word_pages [0..<0x8000]))))"
    unfolding mm_num_free_pages_def count_words by simp
  also have "concat (map word_pages [0..<0x8000]) = [0..<1048576]"
    using concat_word_pages [of 0 "0x8000"] by simp
  also have "length (filter (pfree s) [0..<1048576]) = card (free_pages s)"
    unfolding free_pages_def by (subst distinct_length_filter) (auto intro!: arg_cong [where f = card])
  finally have eq: "mm_num_free_pages s = of_nat (card (free_pages s))" .
  have "card (free_pages s) \<le> card {..<1048576 :: nat}"
    by (intro card_mono) (auto simp: free_pages_def)
  then show ?thesis unfolding eq by simp
qed

text \<open>
  C33. After \<^verbatim>\<open>init_mm\<close> the free pages are exactly those of the usable blocks of the boot loader's map
  (read through index \<^verbatim>\<open>mmap_length\<close>), without the kernel image, the first module with its
  descriptor and command line, the ELF section headers and sections, and the page at address 0. It
  panics when the boot loader gave no map.
\<close>

theorem init_mm_spec:
  assumes "bisset (mb_flags mb) MB_MMAP"
  shows "returns (init_mm mb s) (\<lambda>s'.
    free_pages s' = (\<Union>i\<le>unat (mb_mmap_length mb). block_pages mb i) - reserved_pages mb)"
proof -
  let ?s = "s\<lparr>mmap := (\<lambda>_. 0), total_mem := 0, mem_end := 0\<rparr>"
  have z: "\<not> pfree ?s p" for p by (simp add: pfree_def)
  have "block_pages mb i \<subseteq> {..<1048576}" for i
    by (auto simp: block_pages_def range_pages_def split: block_type.splits prod.splits)
  moreover have "unat (mb_mods_count mb) = 0 \<longleftrightarrow> mb_mods_count mb = 0" using unat_gt_0 [of "mb_mods_count mb"] by auto
  ultimately show ?thesis using assms z
    by (auto simp: init_mm_def Let_def free_pages_def pfree_add_blocks pfree_reserve_mods
      pfree_sections reserved_pages_def page_no_def)
qed

definition demo_boot :: boot_info where
  "demo_boot = \<lparr>mb_flags = 0x40, mb_mmap_length = 0,
     mb_mmap_at = (\<lambda>_. \<lparr>mb_base = 0, mb_length = 0x3000, mb_type = 1\<rparr>), mb_mods_count = 0,
     mb_mods_addr = 0, mb_mod = \<lparr>mod_start = 0, mod_end = 0, mod_cmdline = 0\<rparr>, mb_mod_cmdline_len = 0,
     mb_sec_addr = 0, mb_sec_size = 0, mb_sec_num = 0, mb_shdr = (\<lambda>_. (0, 0)),
     kernel_phys_start = 0x1000, kernel_phys_end = 0x2000\<rparr>"

theorem init_mm_spec_witness:
  "returns (init_mm demo_boot all_free_mm) (\<lambda>s'. free_pages s' = {2})"
proof -
  have "NUM_PAGES 0x3000 = 3" "NUM_PAGES 0x1000 = 1" "NUM_PAGES 0 = 0" "PAGE_ALIGN_ROUND_UP 0 = 0"
    "IS_PAGE_ALIGNED 0"
    by (simp_all add: NUM_PAGES_def PAGE_ALIGN_ROUND_UP_def IS_PAGE_ALIGNED_def)
  moreover have "range_pages 0 3 = {0..<3}" "range_pages 0x1000 1 = {1}" "range_pages 0 0 = {}"
    by (simp_all add: range_pages_nowrap page_no_def)
  ultimately have "(\<Union>i\<le>unat (mb_mmap_length demo_boot). block_pages demo_boot i) - reserved_pages demo_boot = {2}"
    by (auto simp: block_pages_def reserved_pages_def get_avail_block_def align_block_def demo_boot_def)
  moreover have "bisset (mb_flags demo_boot) MB_MMAP" by (simp add: bisset_def demo_boot_def)
  ultimately show ?thesis using init_mm_spec [of demo_boot all_free_mm] by simp
qed

text \<open>
  The two entry points that take a physical range refuse an unaligned start and an empty range with
  the matching error and change no page; on a valid range \<^verbatim>\<open>mm_alloc_phys_range\<close> succeeds exactly when
  all its pages are free, and then \<^verbatim>\<open>mm_free_phys_range\<close> undoes it.
\<close>

theorem mm_phys_range_spec:
  "(case mm_alloc_phys_range s start num of (ok, s') \<Rightarrow>
     ok = (IS_PAGE_ALIGNED start \<and> num \<noteq> 0 \<and> range_pages start num \<subseteq> free_pages s)
     \<and> (if ok then free_pages s' = free_pages s - range_pages start num
            \<and> free_pages (mm_free_phys_range s' start num) = free_pages s
        else free_pages s' = free_pages s
          \<and> last_error s' = (if \<not> IS_PAGE_ALIGNED start then E_ALIGN else if num = 0 then E_INVALID else E_NO_MEM)))"
proof -
  have sub: "range_pages start num \<subseteq> {..<1048576}" by (auto simp: range_pages_def)
  have ex: "list_ex (\<lambda>i. \<not> is_free s (start + of_nat i * 4096)) [0..<unat num]
      \<longleftrightarrow> \<not> (range_pages start num \<subseteq> free_pages s)"
    by (auto simp: list_ex_iff range_pages_def is_free_iff page_no_step free_pages_def)
  show ?thesis unfolding mm_alloc_phys_range_def ex
    using sub by (auto simp: mm_free_phys_range_def free_pages_def seterr_code_def)
qed

end
