(* ===== verification/Kos_Virt.thy ===== *)
theory Kos_Virt
  imports Kos_Mm
begin

text \<open>
  The virtual memory manager \<^verbatim>\<open>kernel/mm/virt.c\<close> with the inline \<^verbatim>\<open>get_ptab_entry\<close> of
  \<^verbatim>\<open>kernel/mm/intern.h\<close>: two-level i386 page tables, their entries as 32-bit words. The theory
  shows that mapping a page changes the translation of that page and of no other, that a second,
  different mapping panics and the same one again is ignored, that unmapping removes the
  translation, what the search for a free address returns, and what \<^verbatim>\<open>sbrk\<close> keeps invariant.
\<close>

section \<open>State\<close>

text \<open>
  The state of \<^verbatim>\<open>mm.c\<close> extended by the page directories (found by the pointer the code uses, a
  virtual address) and the page tables (found by their physical address). The processor's view of
  a page table entry is the stored word; the translation cache, which \<^verbatim>\<open>invlpg\<close> flushes, is not
  part of the state. \<^verbatim>\<open>wt_entry\<close> is the entry of \<^verbatim>\<open>working_table_map\<close> that
  \<^verbatim>\<open>map_working_table\<close> rewrites.
\<close>

record vm_state = mm_state +
  pdirs :: "u32 \<Rightarrow> nat \<Rightarrow> u32"
  ptabs :: "u32 \<Rightarrow> nat \<Rightarrow> u32"
  kernel_pdir :: u32
  kpdir_rev :: u32
  wt_entry :: u32
  paging_enabled :: bool

abbreviation (input) PE_PRESENT :: u32 where "PE_PRESENT \<equiv> 0x0001"
abbreviation (input) PE_READWRITE :: u32 where "PE_READWRITE \<equiv> 0x0002"
abbreviation (input) PE_USERMODE :: u32 where "PE_USERMODE \<equiv> 0x0004"
abbreviation (input) PE_CACHEDISABLE :: u32 where "PE_CACHEDISABLE \<equiv> 0x0010"
abbreviation (input) PE_ACCESSED :: u32 where "PE_ACCESSED \<equiv> 0x0020"
abbreviation (input) PT_DIRTY :: u32 where "PT_DIRTY \<equiv> 0x0040"
abbreviation (input) VM_COMMON_FLAGS :: u32 where "VM_COMMON_FLAGS \<equiv> 0x0003"
abbreviation (input) VM_USER_FLAGS :: u32 where "VM_USER_FLAGS \<equiv> 0x0007"

definition pde_of :: "'a vm_state_scheme \<Rightarrow> u32 \<Rightarrow> u32 \<Rightarrow> u32" where
  "pde_of s pdir vaddr = pdirs s pdir (pdir_index vaddr)"

definition put_pde :: "'a vm_state_scheme \<Rightarrow> u32 \<Rightarrow> nat \<Rightarrow> u32 \<Rightarrow> 'a vm_state_scheme" where
  "put_pde s pdir i e = s\<lparr>pdirs := (pdirs s)(pdir := (pdirs s pdir)(i := e))\<rparr>"

definition put_pte :: "'a vm_state_scheme \<Rightarrow> u32 \<Rightarrow> nat \<Rightarrow> u32 \<Rightarrow> 'a vm_state_scheme" where
  "put_pte s tab i e = s\<lparr>ptabs := (ptabs s)(tab := (ptabs s tab)(i := e))\<rparr>"

section \<open>Mapping\<close>

text \<open>
  With paging enabled the table is accessed through the window at \<^verbatim>\<open>MAP_TABLE_VADDR\<close>, whose
  page table entry is set first: the physical address behind the returned pointer is the address
  part of that entry.
\<close>

definition map_working_table :: "'a vm_state_scheme \<Rightarrow> u32 \<Rightarrow> u32 \<times> 'a vm_state_scheme" where
  "map_working_table s tab =
     (if paging_enabled s
      then let e = tab OR PE_PRESENT OR PE_READWRITE OR PE_CACHEDISABLE
           in (getaddr e, s\<lparr>wt_entry := e\<rparr>)
      else (tab, s))"

definition get_ptab_entry :: "'a vm_state_scheme \<Rightarrow> u32 \<Rightarrow> u32 \<Rightarrow> u32 \<times> 'a vm_state_scheme" where
  "get_ptab_entry s pdir vaddr =
     (let pde = pde_of s pdir vaddr
      in if bnotset pde PE_PRESENT then (0, s)
         else case map_working_table s (getaddr pde) of (tab, s) \<Rightarrow>
           let e = ptabs s tab (ptab_index vaddr)
           in (if e AND PE_PRESENT \<noteq> 0 then e else 0, s))"

text \<open>The page table for an address, created when the directory has none.\<close>

definition table_for :: "'a vm_state_scheme \<Rightarrow> u32 \<Rightarrow> u32 \<Rightarrow> u32 \<Rightarrow> (u32 \<times> 'a vm_state_scheme) res" where
  "table_for s pdir vaddr flags =
     (let pde = pde_of s pdir vaddr
      in if bnotset pde PE_PRESENT
         then case mm_alloc_page s of (ptab, s) \<Rightarrow>
           if ptab = NO_PAGE then Inl Panic
           else case map_working_table (put_pde s pdir (pdir_index vaddr) (ptab OR flags)) ptab of
             (ptab, s) \<Rightarrow> Inr (ptab, s\<lparr>ptabs := (ptabs s)(ptab := (\<lambda>_. 0))\<rparr>)
         else Inr (map_working_table s (getaddr pde)))"

definition do_map ::
    "'a vm_state_scheme \<Rightarrow> u32 \<Rightarrow> u32 \<Rightarrow> u32 \<Rightarrow> u32 \<Rightarrow> bool \<Rightarrow> 'a vm_state_scheme res" where
  "do_map s pdir paddr vaddr flags force =
     rbind (kassert (IS_PAGE_ALIGNED vaddr)) (\<lambda>_.
     rbind (kassert (IS_PAGE_ALIGNED paddr)) (\<lambda>_.
     rbind (table_for s pdir vaddr flags) (\<lambda>(ptab, s).
       let pte = ptabs s ptab (ptab_index vaddr)
       in if \<not> force \<and> bisset pte PE_PRESENT \<and> bisset flags PE_PRESENT
          then if pte AND NOT (PE_ACCESSED OR PT_DIRTY) \<noteq> paddr OR flags then Inl Panic else Inr s
          else let s = put_pte s ptab (ptab_index vaddr) (paddr OR flags)
               in if pdir = kernel_pdir s
                  then let old = kpdir_rev s; s = s\<lparr>kpdir_rev := old + 1\<rparr>
                       in if kpdir_rev s < old then Inl Panic else Inr s
                  else Inr s)))"

definition vm_map_page ::
    "'a vm_state_scheme \<Rightarrow> u32 \<Rightarrow> u32 \<Rightarrow> u32 \<Rightarrow> u32 \<Rightarrow> 'a vm_state_scheme res" where
  "vm_map_page s pdir paddr vaddr flags = do_map s pdir paddr vaddr flags False"

definition vm_force_map ::
    "'a vm_state_scheme \<Rightarrow> u32 \<Rightarrow> u32 \<Rightarrow> u32 \<Rightarrow> u32 \<Rightarrow> 'a vm_state_scheme res" where
  "vm_force_map s pdir paddr vaddr flags = do_map s pdir paddr vaddr flags True"

definition vm_unmap_page :: "'a vm_state_scheme \<Rightarrow> u32 \<Rightarrow> u32 \<Rightarrow> 'a vm_state_scheme res" where
  "vm_unmap_page s pdir vaddr =
     rbind (kassert (IS_PAGE_ALIGNED vaddr)) (\<lambda>_. vm_map_page s pdir 0 vaddr 0)"

text \<open>The loop of \<^verbatim>\<open>vm_map_range\<close> over the page indices still to do.\<close>

fun map_pages ::
    "'a vm_state_scheme \<Rightarrow> u32 \<Rightarrow> u32 \<Rightarrow> u32 \<Rightarrow> u32 \<Rightarrow> nat list \<Rightarrow> 'a vm_state_scheme res" where
  "map_pages s pdir pstart vstart flags [] = Inr s"
| "map_pages s pdir pstart vstart flags (i # is) =
     rbind (vm_map_page s pdir (pstart + of_nat i * PAGE_SIZE) (vstart + of_nat i * PAGE_SIZE) flags)
       (\<lambda>s. map_pages s pdir pstart vstart flags is)"

definition vm_map_range ::
    "'a vm_state_scheme \<Rightarrow> u32 \<Rightarrow> u32 \<Rightarrow> u32 \<Rightarrow> u32 \<Rightarrow> nat \<Rightarrow> 'a vm_state_scheme res" where
  "vm_map_range s pdir pstart vstart flags num =
     rbind (kassert (IS_PAGE_ALIGNED pstart)) (\<lambda>_.
     rbind (kassert (IS_PAGE_ALIGNED vstart)) (\<lambda>_.
     map_pages s pdir pstart vstart flags [0..<num]))"

definition vm_unmap_range :: "'a vm_state_scheme \<Rightarrow> u32 \<Rightarrow> u32 \<Rightarrow> nat \<Rightarrow> 'a vm_state_scheme res" where
  "vm_unmap_range s pdir vstart num =
     rbind (kassert (IS_PAGE_ALIGNED vstart)) (\<lambda>_. vm_map_range s pdir 0 vstart 0 num)"

section \<open>Searching for free addresses\<close>

text \<open>The first entry of the list that is not present.\<close>

fun find_free_pti :: "'a vm_state_scheme \<Rightarrow> u32 \<Rightarrow> nat list \<Rightarrow> nat option" where
  "find_free_pti s tab [] = None"
| "find_free_pti s tab (p # ps) =
     (if bnotset (ptabs s tab p) PE_PRESENT then Some p else find_free_pti s tab ps)"

fun vm_find_addr_loop :: "'a vm_state_scheme \<Rightarrow> u32 \<Rightarrow> nat list \<Rightarrow> u32 \<times> 'a vm_state_scheme" where
  "vm_find_addr_loop s pdir [] = (0, s)"
| "vm_find_addr_loop s pdir (pdi # pdis) =
     (let pde = pdirs s pdir pdi
      in if bnotset pde PE_PRESENT then (create_addr pdi (safe_pti pdi) 0, s)
         else case map_working_table s (getaddr pde) of (tab, s) \<Rightarrow>
           (case find_free_pti s tab [safe_pti pdi..<PTAB_LEN] of
              Some pti \<Rightarrow> (create_addr pdi pti 0, s)
            | None \<Rightarrow> vm_find_addr_loop s pdir pdis))"

definition vm_find_addr :: "'a vm_state_scheme \<Rightarrow> u32 \<Rightarrow> u32 \<times> 'a vm_state_scheme" where
  "vm_find_addr s pdir = vm_find_addr_loop s pdir [0..<PDIR_LEN]"

text \<open>The inner loop of \<^verbatim>\<open>vm_find_range\<close> on \<open>(count, ptstart)\<close>.\<close>

fun find_range_tab :: "'a vm_state_scheme \<Rightarrow> u32 \<Rightarrow> nat \<Rightarrow> nat list \<Rightarrow> nat \<times> nat \<Rightarrow> nat \<times> nat" where
  "find_range_tab s tab num [] st = st"
| "find_range_tab s tab num (p # ps) (count, ptstart) =
     (if bnotset (ptabs s tab p) PE_PRESENT
      then let ptstart = (if count = 0 then p else ptstart); count = count + 1
           in if num \<le> count then (count, ptstart) else find_range_tab s tab num ps (count, ptstart)
      else find_range_tab s tab num ps (0, ptstart))"

fun vm_find_range_loop ::
    "'a vm_state_scheme \<Rightarrow> u32 \<Rightarrow> nat \<Rightarrow> nat list \<Rightarrow> nat \<times> nat \<times> nat \<Rightarrow> u32 \<times> 'a vm_state_scheme" where
  "vm_find_range_loop s pdir num [] st = (0, s)"
| "vm_find_range_loop s pdir num (pdi # pdis) (count, pdstart, ptstart) =
     (let pdstart = (if count = 0 then pdi else pdstart);
          pde = pdirs s pdir pdi;
          (count, ptstart, s) =
            (if bisset pde PE_PRESENT
             then case map_working_table s (getaddr pde) of (tab, s) \<Rightarrow>
                    (case find_range_tab s tab num [safe_pti pdi..<PTAB_LEN] (count, ptstart) of
                       (count, ptstart) \<Rightarrow> (count, ptstart, s))
             else (count + (PTAB_LEN - safe_pti pdi), if count = 0 then safe_pti pdi else ptstart, s))
      in if num \<le> count then (create_addr pdstart ptstart 0, s)
         else vm_find_range_loop s pdir num pdis (count, pdstart, ptstart))"

definition vm_find_range :: "'a vm_state_scheme \<Rightarrow> u32 \<Rightarrow> nat \<Rightarrow> u32 \<times> 'a vm_state_scheme" where
  "vm_find_range s pdir num = vm_find_range_loop s pdir num [0..<PDIR_LEN] (0, 0, 0)"

section \<open>Allocating addresses\<close>

definition vm_alloc_addr ::
    "'a vm_state_scheme \<Rightarrow> u32 \<Rightarrow> u32 \<Rightarrow> u32 \<Rightarrow> u32 \<Rightarrow> (u32 \<times> 'a vm_state_scheme) res" where
  "vm_alloc_addr s pdir pstart flags sz =
     (let aligned_pstart = align_addr pstart;
          aligned_size = align_size pstart sz
      in case vm_find_range s pdir (unat (NUM_PAGES aligned_size)) of (vstart, s) \<Rightarrow>
           if vstart = 0 then Inl Panic
           else rbind (vm_map_range s pdir aligned_pstart vstart flags (unat (NUM_PAGES aligned_size)))
                  (\<lambda>s. Inr (vstart + PAGE_OFFSET pstart, s)))"

definition vm_free_addr :: "'a vm_state_scheme \<Rightarrow> u32 \<Rightarrow> u32 \<Rightarrow> u32 \<Rightarrow> 'a vm_state_scheme res" where
  "vm_free_addr s pdir vstart sz =
     vm_unmap_range s pdir (align_addr vstart) (unat (NUM_PAGES (align_size vstart sz)))"

definition vm_identity_map ::
    "'a vm_state_scheme \<Rightarrow> u32 \<Rightarrow> u32 \<Rightarrow> u32 \<Rightarrow> u32 \<Rightarrow> 'a vm_state_scheme res" where
  "vm_identity_map s pdir pstart flags sz =
     vm_map_range s pdir (align_addr pstart) (align_addr pstart) flags
       (unat (NUM_PAGES (align_size pstart sz)))"

definition vm_resolve_virt :: "'a vm_state_scheme \<Rightarrow> u32 \<Rightarrow> u32 \<Rightarrow> u32 \<times> 'a vm_state_scheme" where
  "vm_resolve_virt s pdir vaddr =
     (case get_ptab_entry s pdir vaddr of (pte, s) \<Rightarrow>
        if bnotset pte PE_PRESENT then (0, s) else (getaddr pte + PAGE_OFFSET vaddr, s))"

text \<open>
  The loop of \<^verbatim>\<open>vm_is_mapped\<close> with a bound on its rounds: \<^verbatim>\<open>cur += PAGE_SIZE\<close> wraps, and after
  \<open>2 ^ 20\<close> rounds it is back where it started, so a loop that goes on longer never ends.
\<close>

fun vm_is_mapped_loop ::
    "nat \<Rightarrow> 'a vm_state_scheme \<Rightarrow> u32 \<Rightarrow> u32 \<Rightarrow> u32 \<Rightarrow> u32 \<Rightarrow> (bool \<times> 'a vm_state_scheme) res" where
  "vm_is_mapped_loop n s pdir cur end flags =
     (if cur < end
      then case n of
        0 \<Rightarrow> Inl Diverges
      | Suc n \<Rightarrow>
          (case get_ptab_entry s pdir cur of (pte, s) \<Rightarrow>
             if pte = 0 \<or> bnotset pte flags then Inr (False, s)
             else vm_is_mapped_loop n s pdir (cur + PAGE_SIZE) end flags)
      else Inr (True, s))"

definition vm_is_mapped ::
    "'a vm_state_scheme \<Rightarrow> u32 \<Rightarrow> u32 \<Rightarrow> u32 \<Rightarrow> u32 \<Rightarrow> (bool \<times> 'a vm_state_scheme) res" where
  "vm_is_mapped s pdir vaddr sz flags =
     (if vaddr + sz < vaddr then Inr (False, s)
      else vm_is_mapped_loop 1048576 s pdir vaddr (vaddr + sz) flags)"

section \<open>The heap of a process\<close>

text \<open>The part of \<^verbatim>\<open>struct proc\<close> that \<^verbatim>\<open>sbrk\<close> uses.\<close>

record heap_proc =
  hp_pdir :: u32
  brk_page :: u32
  mem_brk :: u32

fun increase_heap_loop ::
    "nat \<Rightarrow> 'a vm_state_scheme \<Rightarrow> heap_proc \<Rightarrow> (bool \<times> heap_proc \<times> 'a vm_state_scheme) res" where
  "increase_heap_loop 0 s p = Inr (True, p, s)"
| "increase_heap_loop (Suc n) s p =
     (case mm_alloc_page s of (page, s) \<Rightarrow>
        if page = NO_PAGE then Inr (False, p, s)
        else rbind (vm_map_page s (hp_pdir p) page (brk_page p) VM_USER_FLAGS) (\<lambda>s.
               increase_heap_loop n s (p\<lparr>brk_page := brk_page p + PAGE_SIZE\<rparr>)))"

definition increase_heap ::
    "'a vm_state_scheme \<Rightarrow> heap_proc \<Rightarrow> nat \<Rightarrow> (bool \<times> heap_proc \<times> 'a vm_state_scheme) res" where
  "increase_heap s p pages =
     rbind (kassert (IS_PAGE_ALIGNED (brk_page p))) (\<lambda>_. increase_heap_loop pages s p)"

text \<open>The result is the old break, or \<open>-1\<close>.\<close>

definition sys_sbrk ::
    "'a vm_state_scheme \<Rightarrow> heap_proc \<Rightarrow> u32 \<Rightarrow> (u32 \<times> heap_proc \<times> 'a vm_state_scheme) res" where
  "sys_sbrk s p incr =
     (let old_brk = mem_brk p
      in if incr = 0 then Inr (old_brk, p, s)
         else if sint incr < 0 then Inr (old_brk, p, s)
         else let rest = brk_page p - mem_brk p
              in rbind (if rest < incr then increase_heap s p (unat (NUM_PAGES incr))
                        else Inr (True, p, s)) (\<lambda>(ok, p, s).
                   if ok then Inr (old_brk, p\<lparr>mem_brk := mem_brk p + incr\<rparr>, s)
                   else Inr (- 1, p, s)))"

section \<open>Initialisation\<close>

text \<open>
  \<^verbatim>\<open>init_paging\<close>. \<open>bios_size\<close> is the size of \<^verbatim>\<open>struct bios_data_area\<close>; registering \<^verbatim>\<open>sys_sbrk\<close> is in
  the system call component. The two pages are cleared after they are allocated; the directory
  pointer is the physical address, because paging is off.
\<close>

definition init_paging :: "'a vm_state_scheme \<Rightarrow> u32 \<Rightarrow> u32 \<Rightarrow> u32 \<Rightarrow> 'a vm_state_scheme res" where
  "init_paging s kstart kend bios_size =
     (case mm_alloc_page (s\<lparr>paging_enabled := False\<rparr>) of (kpd, s) \<Rightarrow>
      if kpd = NO_PAGE then Inl Panic
      else case mm_alloc_page (s\<lparr>kernel_pdir := kpd, pdirs := (pdirs s)(kpd := (\<lambda>_. 0))\<rparr>) of (wtm, s) \<Rightarrow>
      if wtm = NO_PAGE then Inl Panic
      else
        let s = s\<lparr>ptabs := (ptabs s)(wtm := (\<lambda>_. 0))\<rparr>;
            s = put_pde s kpd (pdir_index 0x3FFFF000) (wtm OR PE_PRESENT OR PE_READWRITE);
            s = snd (map_working_table s 0);
            s = s\<lparr>kpdir_rev := 0\<rparr>
        in rbind (vm_map_range s kpd kstart kstart (PE_PRESENT OR PE_READWRITE)
                    (unat (NUM_PAGES (kend - kstart)))) (\<lambda>s.
           rbind (vm_identity_map s kpd 0xB8000 (PE_PRESENT OR PE_READWRITE) (0xC0000 - 0xB8000)) (\<lambda>s.
           rbind (vm_identity_map s kpd 0x0400 PE_PRESENT bios_size) (\<lambda>s.
           rbind (vm_map_page s kpd kpd kpd (PE_PRESENT OR PE_READWRITE)) (\<lambda>s.
           rbind (vm_map_page s kpd wtm wtm (PE_PRESENT OR PE_READWRITE)) (\<lambda>s.
           Inr (s\<lparr>kpdir_rev := 0, paging_enabled := True\<rparr>)))))))"

section \<open>The translation a directory defines\<close>

definition pte_of :: "'a vm_state_scheme \<Rightarrow> u32 \<Rightarrow> u32 \<Rightarrow> u32" where
  "pte_of s pdir vaddr =
     (let pde = pde_of s pdir vaddr; e = ptabs s (getaddr pde) (ptab_index vaddr)
      in if bisset pde PE_PRESENT \<and> bisset e PE_PRESENT then e else 0)"

definition translate :: "'a vm_state_scheme \<Rightarrow> u32 \<Rightarrow> u32 \<Rightarrow> u32 option" where
  "translate s pdir vaddr =
     (if pte_of s pdir vaddr = 0 then None
      else Some (getaddr (pte_of s pdir vaddr) + PAGE_OFFSET vaddr))"

lemma bnotset_not: "bnotset m b \<longleftrightarrow> \<not> bisset m b"
  by (simp add: bnotset_def bisset_def)

lemma bisset_zero [simp]: "\<not> bisset 0 b"
  by (simp add: bisset_def)

lemma getaddr_aligned [simp]: "unat (getaddr e) mod 4096 = 0"
  by (simp add: unat_getaddr minus_mod_eq_mult_div)

lemma map_working_table_addr:
  "unat tab mod 4096 = 0 \<Longrightarrow> \<exists>w. map_working_table s tab = (tab, s\<lparr>wt_entry := w\<rparr>)"
  by (auto simp: map_working_table_def Let_def getaddr_or_flags intro: exI [of _ "wt_entry s"])


text \<open>
  A directory is well formed when its present entries point to different tables, none of which the
  physical memory manager holds as free.
\<close>

definition vm_inv :: "'a vm_state_scheme \<Rightarrow> u32 \<Rightarrow> bool" where
  "vm_inv s pdir \<longleftrightarrow> mm_inv s
     \<and> (\<forall>i < 1024. bisset (pdirs s pdir i) PE_PRESENT \<longrightarrow>
          page_no (getaddr (pdirs s pdir i)) \<notin> free_pages s
          \<and> (\<forall>j < 1024. bisset (pdirs s pdir j) PE_PRESENT \<longrightarrow>
               getaddr (pdirs s pdir i) = getaddr (pdirs s pdir j) \<longrightarrow> i = j))"

lemma free_pages_wt [simp]: "free_pages (s\<lparr>wt_entry := w\<rparr>) = free_pages s"
  by (simp add: free_pages_def pfree_def)

lemma free_pages_put [simp]:
  "free_pages (put_pde s pdir i e) = free_pages s" "free_pages (put_pte s t i e) = free_pages s"
  "free_pages (s\<lparr>ptabs := T\<rparr>) = free_pages s" "free_pages (s\<lparr>kpdir_rev := r\<rparr>) = free_pages s"
  by (simp_all add: free_pages_def pfree_def put_pde_def put_pte_def)

lemma get_ptab_entry_pte: "\<exists>w. get_ptab_entry s pdir v = (pte_of s pdir v, s\<lparr>wt_entry := w\<rparr>)"
proof (cases "bisset (pde_of s pdir v) PE_PRESENT")
  case True
  from map_working_table_addr [OF getaddr_aligned, of s "pde_of s pdir v"] obtain w where
    "map_working_table s (getaddr (pde_of s pdir v)) = (getaddr (pde_of s pdir v), s\<lparr>wt_entry := w\<rparr>)" by blast
  with True show ?thesis
    by (auto simp: get_ptab_entry_def bnotset_not pte_of_def Let_def bisset_def)
next
  case False
  then show ?thesis
    by (auto simp: get_ptab_entry_def bnotset_not pte_of_def Let_def intro: exI [of _ "wt_entry s"])
qed

lemma pte_of_present: "bisset (pte_of s pdir v) PE_PRESENT \<longleftrightarrow> pte_of s pdir v \<noteq> 0"
  by (auto simp: pte_of_def Let_def bisset_def)

lemma vm_resolve_translate:
  "fst (vm_resolve_virt s pdir v) = (case translate s pdir v of None \<Rightarrow> 0 | Some a \<Rightarrow> a)"
  using get_ptab_entry_pte [of s pdir v] pte_of_present [of s pdir v]
  by (auto simp: vm_resolve_virt_def translate_def bnotset_not)

text \<open>Two addresses share a page when both indices agree.\<close>

lemma same_page: "pdir_index v = pdir_index w \<and> ptab_index v = ptab_index w \<longleftrightarrow> page_no v = page_no w"
proof -
  have "unat v div 4194304 = page_no v div 1024" "unat w div 4194304 = page_no w div 1024"
    by (simp_all add: page_no_def flip: div_mult2_eq)
  then show ?thesis unfolding pdir_index_nat ptab_index_nat page_no_def [symmetric]
    by (metis div_mult_mod_eq)
qed

lemma flags_present:
  "unat p mod 4096 = 0 \<Longrightarrow> bisset (p OR f) PE_PRESENT \<longleftrightarrow> bisset f (PE_PRESENT :: u32)"
proof -
  assume "unat p mod 4096 = 0"
  then have "p AND 0xFFF = 0" by (simp add: and_4k_align u32_eq_iff_unat unat_mod_u32)
  moreover have "p AND 1 = (p AND 0xFFF) AND 1" by (simp add: and.assoc)
  ultimately have "p AND 1 = 0" by simp
  then show ?thesis by (simp add: bisset_def bit.conj_disj_distrib2)
qed

lemma mm_alloc_vm:
  fixes s :: "'a vm_state_scheme"
  assumes "mm_inv s" and "mm_alloc_page s = (a, s')" and "a \<noteq> NO_PAGE"
  shows "mm_inv s' \<and> unat a mod 4096 = 0 \<and> page_no a \<in> free_pages s \<and> free_pages s' = free_pages s - {page_no a}
    \<and> pdirs s' = pdirs s \<and> ptabs s' = ptabs s \<and> kernel_pdir s' = kernel_pdir s \<and> kpdir_rev s' = kpdir_rev s"
proof -
  from assms(1) have n: "160 \<le> page_no (mem_end s)" by (simp add: mm_inv_def)
  have "pdirs s' = pdirs s \<and> ptabs s' = ptabs s \<and> kernel_pdir s' = kernel_pdir s \<and> kpdir_rev s' = kpdir_rev s"
    using assms(2) by (auto simp: mm_alloc_page_def Let_def mark_used_def seterr_def split: if_splits)
  with pa.alloc_some [OF assms] show ?thesis by (simp add: IS_PAGE_ALIGNED_iff)
qed

text \<open>The state after a new table was put in.\<close>

definition new_table :: "'a vm_state_scheme \<Rightarrow> u32 \<Rightarrow> nat \<Rightarrow> u32 \<Rightarrow> u32 \<Rightarrow> u32 \<Rightarrow> 'a vm_state_scheme" where
  "new_table s pdir i a e w = (put_pde s pdir i e)\<lparr>wt_entry := w, ptabs := (ptabs s)(a := (\<lambda>_. 0))\<rparr>"

lemma table_for_cases:
  assumes "vm_inv s pdir" and t: "table_for s pdir v flags = Inr (tab, s')"
  obtains (old) w where "bisset (pde_of s pdir v) PE_PRESENT" "tab = getaddr (pde_of s pdir v)"
      "s' = s\<lparr>wt_entry := w\<rparr>"
  | (new) s1 w where "\<not> bisset (pde_of s pdir v) PE_PRESENT" "mm_alloc_page s = (tab, s1)" "tab \<noteq> NO_PAGE"
      "s' = new_table s1 pdir (pdir_index v) tab (tab OR flags) w"
proof (cases "bisset (pde_of s pdir v) PE_PRESENT")
  case True
  with map_working_table_addr [OF getaddr_aligned, of s "pde_of s pdir v"] t show ?thesis
    by (auto simp: table_for_def bnotset_not Let_def intro: old)
next
  case False
  obtain a s1 where a: "mm_alloc_page s = (a, s1)" by fastforce
  with False t have n: "a \<noteq> NO_PAGE" by (auto simp: table_for_def bnotset_not Let_def)
  have "mm_inv s" using assms(1) by (simp add: vm_inv_def)
  from mm_alloc_vm [OF this a n] have al: "unat a mod 4096 = 0" by simp
  from map_working_table_addr [OF al, of "put_pde s1 pdir (pdir_index v) (a OR flags)"]
  obtain w where "map_working_table (put_pde s1 pdir (pdir_index v) (a OR flags)) a
      = (a, (put_pde s1 pdir (pdir_index v) (a OR flags))\<lparr>wt_entry := w\<rparr>)" by blast
  with False t a n have "tab = a \<and> s' = new_table s1 pdir (pdir_index v) tab (tab OR flags) w"
    by (auto simp: table_for_def bnotset_not Let_def new_table_def put_pde_def)
  with False a n show ?thesis by (auto intro: new)
qed

lemma table_for_ok:
  assumes inv: "vm_inv s pdir" and t: "table_for s pdir v flags = Inr (tab, s')"
    and fl: "bisset flags PE_PRESENT \<or> bisset (pde_of s pdir v) PE_PRESENT" "unat flags < 4096"
  shows "vm_inv s' pdir \<and> bisset (pde_of s' pdir v) PE_PRESENT \<and> tab = getaddr (pde_of s' pdir v)
    \<and> (\<forall>w. pte_of s' pdir w = pte_of s pdir w) \<and> kernel_pdir s' = kernel_pdir s \<and> kpdir_rev s' = kpdir_rev s
    \<and> (bisset (pde_of s pdir v) PE_PRESENT \<longrightarrow> pdirs s' = pdirs s)"
  using inv t
proof (cases rule: table_for_cases)
  case (old w)
  with inv show ?thesis by (simp add: vm_inv_def pte_of_def pde_of_def mm_inv_def)
next
  case (new s1 w)
  have "mm_inv s" using inv by (simp add: vm_inv_def)
  note a = mm_alloc_vm [OF this new(2,3)]
  let ?i = "pdir_index v" and ?e = "tab OR flags"
  have e: "getaddr ?e = tab" using a fl(2) by (simp add: getaddr_or_flags)
  have p: "bisset ?e PE_PRESENT" using a fl(1) new(1) by (simp add: flags_present)
  have other: "getaddr (pdirs s pdir j) \<noteq> tab" if "j < 1024" "bisset (pdirs s pdir j) PE_PRESENT" for j
    using inv a that by (auto simp: vm_inv_def)
  have pd: "pdirs s' pdir = (pdirs s pdir)(?i := ?e)" "ptabs s' = (ptabs s)(tab := (\<lambda>_. 0))"
    "free_pages s' = free_pages s - {page_no tab}" "mm_inv s'" "kernel_pdir s' = kernel_pdir s"
    "kpdir_rev s' = kpdir_rev s"
    using a new(4) by (simp_all add: new_table_def put_pde_def mm_inv_def free_pages_def pfree_def)
  have "vm_inv s' pdir"
    using inv other pd e by (auto simp: vm_inv_def)
  moreover have "pte_of s' pdir w = pte_of s pdir w" for w
  proof (cases "pdir_index w = ?i")
    case True
    with new(1) e pd show ?thesis by (simp add: pte_of_def pde_of_def Let_def)
  next
    case False
    with pd other [of "pdir_index w"] show ?thesis
      by (auto simp: pte_of_def pde_of_def Let_def)
  qed
  ultimately show ?thesis using pd e p new(1) by (simp add: pde_of_def)
qed

lemma put_pte_inv: "vm_inv s pdir \<Longrightarrow> vm_inv (put_pte s t i e) pdir"
  by (simp add: vm_inv_def mm_inv_def) (simp add: put_pte_def)

lemma put_pte_pte:
  assumes inv: "vm_inv s pdir" and p: "bisset (pde_of s pdir v) PE_PRESENT"
  shows "pte_of (put_pte s (getaddr (pde_of s pdir v)) (ptab_index v) e) pdir w =
    (if page_no w = page_no v then (if bisset e PE_PRESENT then e else 0) else pte_of s pdir w)"
proof -
  have "getaddr (pde_of s pdir w) = getaddr (pde_of s pdir v) \<longleftrightarrow> pdir_index w = pdir_index v"
    if "bisset (pde_of s pdir w) PE_PRESENT"
    using inv that p by (auto simp: vm_inv_def pde_of_def)
  then show ?thesis using p same_page [of w v]
    by (auto simp: pte_of_def Let_def pde_of_def put_pte_def)
qed

lemma rev_update [simp]:
  "pte_of (s\<lparr>kpdir_rev := r\<rparr>) pdir v = pte_of s pdir v" "vm_inv (s\<lparr>kpdir_rev := r\<rparr>) pdir = vm_inv s pdir"
  by (simp_all add: pte_of_def pde_of_def vm_inv_def mm_inv_def)

lemma pte_of_same_page: "page_no w = page_no v \<Longrightarrow> pte_of s pdir w = pte_of s pdir v"
  using same_page [of w v] by (simp add: pte_of_def pde_of_def Let_def)

lemma table_for_returns:
  assumes "bisset (pde_of s pdir v) PE_PRESENT \<or> fst (mm_alloc_page s) \<noteq> NO_PAGE"
  shows "\<exists>tab s'. table_for s pdir v flags = Inr (tab, s')"
  using assms by (auto simp: table_for_def bnotset_not Let_def split: prod.splits)

lemma u32_inc_less: "(r :: u32) + 1 < r \<longleftrightarrow> r = 0xFFFFFFFF"
proof (cases "unat r = 4294967295")
  case True
  then have "r = 0xFFFFFFFF" by (simp add: u32_eq_iff_unat)
  then show ?thesis by simp
next
  case False
  then have "unat r + 1 < 4294967296" using unat_u32_lt [of r] by linarith
  then have "\<not> r + 1 < r" by (simp add: word_less_nat_alt unat_add_u32)
  moreover have "r \<noteq> 0xFFFFFFFF" using False by auto
  ultimately show ?thesis by simp
qed

lemma unat_inc_le: "unat ((r :: u32) + 1) \<le> Suc (unat r)"
  by (simp add: unat_add_u32)

lemma put_pte_frame [simp]:
  "pdirs (put_pte s t i e) = pdirs s" "kernel_pdir (put_pte s t i e) = kernel_pdir s" "kpdir_rev (put_pte s t i e) = kpdir_rev s"
  by (simp_all add: put_pte_def)

lemma do_map_returns:
  assumes inv: "vm_inv s pdir" and al: "IS_PAGE_ALIGNED v" "IS_PAGE_ALIGNED paddr"
    and mem: "bisset (pde_of s pdir v) PE_PRESENT \<or> fst (mm_alloc_page s) \<noteq> NO_PAGE"
    and fl: "bisset flags PE_PRESENT \<or> bisset (pde_of s pdir v) PE_PRESENT" "unat flags < 4096"
    and new: "force \<or> pte_of s pdir v = 0 \<or> \<not> bisset flags PE_PRESENT"
    and rev: "pdir = kernel_pdir s \<longrightarrow> kpdir_rev s \<noteq> 0xFFFFFFFF"
  shows "returns (do_map s pdir paddr v flags force) (\<lambda>s'. vm_inv s' pdir
    \<and> (\<forall>w. pte_of s' pdir w = (if page_no w = page_no v
        then (if bisset flags PE_PRESENT then paddr OR flags else 0) else pte_of s pdir w))
    \<and> (bisset (pde_of s pdir v) PE_PRESENT \<longrightarrow> pdirs s' = pdirs s) \<and> kernel_pdir s' = kernel_pdir s
    \<and> unat (kpdir_rev s') \<le> unat (kpdir_rev s) + 1)"
proof -
  from table_for_returns [OF mem, of flags] obtain tab s1 where t: "table_for s pdir v flags = Inr (tab, s1)" by blast
  note k = table_for_ok [OF inv t fl]
  have np: "force \<or> \<not> bisset (ptabs s1 tab (ptab_index v)) PE_PRESENT \<or> \<not> bisset flags PE_PRESENT"
  proof -
    have "pte_of s1 pdir v = pte_of s pdir v" using k by blast
    with k new show ?thesis by (auto simp: pte_of_def Let_def split: if_splits)
  qed
  have p: "bisset (paddr OR flags) PE_PRESENT = bisset flags PE_PRESENT"
    using al(2) by (intro flags_present) (simp add: IS_PAGE_ALIGNED_iff)
  show ?thesis
    using al t k np rev p put_pte_pte [of s1 pdir v "paddr OR flags"]
    by (auto simp: do_map_def Let_def put_pte_inv u32_inc_less unat_inc_le)
qed

section \<open>The search for one free page\<close>

lemma find_append: "List.find P (xs @ ys) = (case List.find P xs of None \<Rightarrow> List.find P ys | Some x \<Rightarrow> Some x)"
  by (induction xs) auto

lemma find_free_pti_find: "find_free_pti s tab ps = List.find (\<lambda>p. \<not> bisset (ptabs s tab p) PE_PRESENT) ps"
  by (induction ps) (auto simp: bnotset_not)

lemma page_addr_create: "i < 1024 \<Longrightarrow> j < 1024 \<Longrightarrow> page_addr (i * 1024 + j) = create_addr i j 0"
  by (simp add: u32_eq_iff_unat unat_page_addr page_simps)

lemma pte_of_create:
  assumes "i < 1024" and "j < 1024"
  shows "pte_of s pdir (create_addr i j 0) =
    (if bisset (pdirs s pdir i) PE_PRESENT \<and> bisset (ptabs s (getaddr (pdirs s pdir i)) j) PE_PRESENT
     then ptabs s (getaddr (pdirs s pdir i)) j else 0)"
  using assms by (simp add: pte_of_def pde_of_def Let_def create_addr_index)

definition dir_pages :: "nat \<Rightarrow> nat list" where
  "dir_pages i = map (\<lambda>j. i * 1024 + j) [safe_pti i..<1024]"

lemma pte_of_wt [simp]: "pte_of (s\<lparr>wt_entry := w\<rparr>) pdir v = pte_of s pdir v"
  by (simp add: pte_of_def pde_of_def)

lemma safe_pti_lt [simp]: "safe_pti i < 1024"
  by (simp add: safe_pti_def)

lemma find_cong_set: "(\<And>x. x \<in> set xs \<Longrightarrow> P x = Q x) \<Longrightarrow> List.find P xs = List.find Q xs"
  by (induction xs) auto

lemma find_map: "List.find P (map f xs) = map_option f (List.find (P \<circ> f) xs)"
  by (induction xs) auto

lemma find_dir_pages:
  assumes "i < 1024"
  shows "List.find (\<lambda>p. pte_of s pdir (page_addr p) = 0) (dir_pages i) =
    (if bisset (pdirs s pdir i) PE_PRESENT
     then map_option (\<lambda>j. i * 1024 + j) (List.find (\<lambda>j. \<not> bisset (ptabs s (getaddr (pdirs s pdir i)) j) PE_PRESENT) [safe_pti i..<1024])
     else Some (i * 1024 + safe_pti i))"
proof -
  have "List.find (\<lambda>j. pte_of s pdir (page_addr (i * 1024 + j)) = 0) [safe_pti i..<1024] =
     List.find (\<lambda>j. \<not> bisset (pdirs s pdir i) PE_PRESENT \<or> \<not> bisset (ptabs s (getaddr (pdirs s pdir i)) j) PE_PRESENT) [safe_pti i..<1024]"
    using assms by (intro find_cong_set) (auto simp: page_addr_create pte_of_create)
  then show ?thesis
    by (cases "bisset (pdirs s pdir i) PE_PRESENT")
      (simp_all add: dir_pages_def find_map o_def, simp add: upt_conv_Cons)
qed

lemma vm_find_addr_loop_find:
  assumes "\<forall>i\<in>set is. i < 1024"
  shows "fst (vm_find_addr_loop s pdir is) =
    (case List.find (\<lambda>p. pte_of s pdir (page_addr p) = 0) (concat (map dir_pages is)) of None \<Rightarrow> 0 | Some p \<Rightarrow> page_addr p)"
  using assms
proof (induction "is" arbitrary: s)
  case (Cons i "is")
  show ?case
  proof (cases "bisset (pdirs s pdir i) PE_PRESENT")
    case True
    from map_working_table_addr [OF getaddr_aligned, of s "pdirs s pdir i"] obtain w where
      w: "map_working_table s (getaddr (pdirs s pdir i)) = (getaddr (pdirs s pdir i), s\<lparr>wt_entry := w\<rparr>)" by blast
    show ?thesis
    proof (cases "find_free_pti s (getaddr (pdirs s pdir i)) [safe_pti i..<1024]")
      case None
      with True w Cons find_dir_pages [of i s pdir] show ?thesis
        by (simp add: bnotset_not Let_def find_append find_free_pti_find)
    next
      case (Some j)
      then have "j \<in> set [safe_pti i..<1024]" unfolding find_free_pti_find find_Some_iff by fastforce
      with Some True w Cons find_dir_pages [of i s pdir] show ?thesis
        by (simp add: bnotset_not Let_def find_append find_free_pti_find page_addr_create)
    qed
  next
    case False
    with Cons find_dir_pages [of i s pdir] show ?thesis
      by (simp add: bnotset_not Let_def find_append page_addr_create)
  qed
qed simp

lemma all_dir_pages: "concat (map dir_pages [0..<1024]) = [1..<1048576]"
proof -
  have "concat (map dir_pages [0..<Suc n]) = [1..<Suc n * 1024]" for n
  proof (induction n)
    case 0
    have "dir_pages 0 = [1..<1024]" by (simp only: dir_pages_def map_add_upt2) (simp add: safe_pti_def)
    then show ?case by simp
  next
    case (Suc n)
    have "dir_pages (Suc n) = [Suc n * 1024..<Suc (Suc n) * 1024]"
      by (simp only: dir_pages_def map_add_upt2) (simp add: safe_pti_def add.commute)
    with Suc upt_add_eq_append [of 1 "Suc n * 1024" 1024] show ?case by (simp add: add.commute)
  qed
  from this [of 1023] show ?thesis by simp
qed


lemma vm_is_mapped_loop_spec:
  assumes "unat end \<le> unat cur + n * 4096" and "unat end + 4096 \<le> 4294967296"
  shows "returns (vm_is_mapped_loop n s pdir cur end flags) (\<lambda>(b, s'). b \<longleftrightarrow>
    (\<forall>k. unat cur + k * 4096 < unat end \<longrightarrow> pte_of s pdir (cur + of_nat k * 4096) AND flags \<noteq> 0))"
  using assms
proof (induction n arbitrary: cur s)
  case 0
  then show ?case by (simp add: word_less_nat_alt)
next
  case (Suc n)
  show ?case
  proof (cases "cur < end")
    case False
    then show ?thesis by (simp add: word_less_nat_alt)
  next
    case True
    then have lt: "unat cur < unat end" by (simp add: word_less_nat_alt)
    then have u: "unat (cur + 4096) = unat cur + 4096" using Suc.prems by (simp add: unat_add_u32)
    from get_ptab_entry_pte [of s pdir cur] obtain w where
      g: "get_ptab_entry s pdir cur = (pte_of s pdir cur, s\<lparr>wt_entry := w\<rparr>)" by blast
    have split: "(\<forall>k. unat cur + k * 4096 < unat end \<longrightarrow> pte_of s pdir (cur + of_nat k * 4096) AND flags \<noteq> 0)
      \<longleftrightarrow> pte_of s pdir cur AND flags \<noteq> 0
        \<and> (\<forall>k. unat (cur + 4096) + k * 4096 < unat end \<longrightarrow> pte_of s pdir (cur + 4096 + of_nat k * 4096) AND flags \<noteq> 0)"
      (is "(\<forall>k. ?P k) \<longleftrightarrow> ?Q \<and> (\<forall>k. ?R k)")
    proof -
      have "?R k \<longleftrightarrow> ?P (Suc k)" for k using u by (simp add: algebra_simps)
      moreover have "?P 0 \<longleftrightarrow> ?Q" using lt by simp
      ultimately show ?thesis by (metis nat.exhaust)
    qed
    show ?thesis
    proof (cases "pte_of s pdir cur AND flags = 0")
      case True2: True
      then show ?thesis unfolding split using True g by (simp add: bnotset_def)
    next
      case False
      have "returns (vm_is_mapped_loop n (s\<lparr>wt_entry := w\<rparr>) pdir (cur + 4096) end flags) (\<lambda>(b, s'). b \<longleftrightarrow>
        (\<forall>k. unat (cur + 4096) + k * 4096 < unat end \<longrightarrow> pte_of s pdir (cur + 4096 + of_nat k * 4096) AND flags \<noteq> 0))"
        using Suc.IH [of "cur + 4096" "s\<lparr>wt_entry := w\<rparr>"] Suc.prems u by (simp only: pte_of_wt) simp
      moreover have "pte_of s pdir cur \<noteq> 0" using False by auto
      ultimately show ?thesis unfolding split using True g False
        by (subst vm_is_mapped_loop.simps) (simp add: bnotset_def)
    qed
  qed
qed

lemma increase_heap_loop_brk:
  "increase_heap_loop n s p = Inr (ok, p', s') \<Longrightarrow>
     \<exists>k \<le> n. brk_page p' = brk_page p + of_nat k * 4096 \<and> mem_brk p' = mem_brk p \<and> (ok \<longrightarrow> k = n)"
proof (induction n arbitrary: s p)
  case (Suc n)
  obtain a s1 where a: "mm_alloc_page s = (a, s1)" by fastforce
  show ?case
  proof (cases "a = NO_PAGE")
    case True
    with a Suc.prems show ?thesis by (intro exI [of _ 0]) auto
  next
    case False
    with a Suc.prems obtain s2 where "increase_heap_loop n s2 (p\<lparr>brk_page := brk_page p + 4096\<rparr>) = Inr (ok, p', s')"
      by (auto simp: rbind_Inr_iff)
    from Suc.IH [OF this] obtain k where "k \<le> n" "brk_page p' = brk_page p + 4096 + of_nat k * 4096"
      "mem_brk p' = mem_brk p" "ok \<longrightarrow> k = n" by auto
    then show ?thesis by (intro exI [of _ "Suc k"]) (simp add: algebra_simps)
  qed
qed simp

lemma aligned_step: "IS_PAGE_ALIGNED a \<Longrightarrow> IS_PAGE_ALIGNED (a + of_nat i * 4096)"
proof -
  assume "IS_PAGE_ALIGNED a"
  moreover have "unat (a + of_nat i * 4096) = (unat a + i * 4096) mod 4294967296"
    by (simp add: unat_add_u32 unat_mult_u32 unat_of_nat_u32 mod_simps)
  ultimately show ?thesis by (simp add: IS_PAGE_ALIGNED_iff mod_mod_cancel)
qed

lemma page_no_step_inj:
  assumes "i < 1048576" and "j < 1048576" and "page_no (v + of_nat i * 4096) = page_no (v + of_nat j * 4096)"
  shows "i = j"
proof -
  have *: "a = b" if "a \<le> b" "b < 1048576" "(p + a) mod 1048576 = (p + b) mod 1048576" for a b p :: nat
  proof (rule ccontr)
    assume "a \<noteq> b"
    have "1048576 dvd (p + b) - (p + a)"
      using that(1,3) mod_eq_dvd_iff_nat [of "p + a" "p + b" 1048576] by simp
    then have "1048576 dvd b - a" by simp
    moreover have "0 < b - a" "b - a < 1048576" using that(1,2) \<open>a \<noteq> b\<close> by simp_all
    ultimately show False by (meson nat_dvd_not_less)
  qed
  have eq: "(page_no v + i) mod 1048576 = (page_no v + j) mod 1048576"
    using assms(3) unfolding page_no_step .
  show ?thesis
  proof (cases "i \<le> j")
    case True
    from * [OF this assms(2) eq] show ?thesis .
  next
    case False
    then have "j \<le> i" by simp
    from * [OF this assms(1) eq [symmetric]] show ?thesis by simp
  qed
qed

lemma vm_map_page_ok:
  assumes "vm_inv s pdir" and "IS_PAGE_ALIGNED v" "IS_PAGE_ALIGNED paddr"
    and "bisset (pde_of s pdir v) PE_PRESENT" "pte_of s pdir v = 0"
    and "bisset flags PE_PRESENT" "unat flags < 4096" and "unat (kpdir_rev s) + 1 < 4294967296"
  shows "returns (vm_map_page s pdir paddr v flags) (\<lambda>s'. vm_inv s' pdir
    \<and> (\<forall>w. pte_of s' pdir w = (if page_no w = page_no v then paddr OR flags else pte_of s pdir w))
    \<and> pdirs s' = pdirs s \<and> unat (kpdir_rev s') \<le> unat (kpdir_rev s) + 1)"
proof -
  have "kpdir_rev s \<noteq> 0xFFFFFFFF" using assms(8) by auto
  with do_map_returns [of s pdir v paddr flags False] assms show ?thesis
    unfolding vm_map_page_def by (auto elim!: returnsE)
qed

lemma map_pages_ok:
  assumes "vm_inv s pdir" and al: "IS_PAGE_ALIGNED p0" "IS_PAGE_ALIGNED v0"
    and fl: "bisset flags PE_PRESENT" "unat flags < 4096" 
    and "\<forall>i\<in>set is. bisset (pde_of s pdir (v0 + of_nat i * 4096)) PE_PRESENT \<and> pte_of s pdir (v0 + of_nat i * 4096) = 0"
    and "unat (kpdir_rev s) + length is < 4294967296" and "distinct is" and "\<forall>i\<in>set is. i < 1048576"
  shows "returns (map_pages s pdir p0 v0 flags is) (\<lambda>s'. vm_inv s' pdir
    \<and> (\<forall>i\<in>set is. pte_of s' pdir (v0 + of_nat i * 4096) = (p0 + of_nat i * 4096) OR flags)
    \<and> (\<forall>w. page_no w \<notin> (\<lambda>i. page_no (v0 + of_nat i * 4096)) ` set is \<longrightarrow> pte_of s' pdir w = pte_of s pdir w))"
  using assms(1,6-9)
proof (induction "is" arbitrary: s)
  case (Cons i "is")
  let ?v = "\<lambda>i. v0 + of_nat i * 4096"
  from vm_map_page_ok [of s pdir "?v i" "p0 + of_nat i * 4096" flags] Cons.prems al fl aligned_step
  obtain s1 where m: "vm_map_page s pdir (p0 + of_nat i * 4096) (?v i) flags = Inr s1" "vm_inv s1 pdir"
    "\<And>w. pte_of s1 pdir w = (if page_no w = page_no (?v i) then (p0 + of_nat i * 4096) OR flags else pte_of s pdir w)"
    "pdirs s1 = pdirs s" "unat (kpdir_rev s1) \<le> unat (kpdir_rev s) + 1"
    by (auto elim!: returnsE)
  have ne: "page_no (?v j) \<noteq> page_no (?v i)" if "j \<in> set is" for j
    using page_no_step_inj [of j i v0] Cons.prems that by auto
  have "returns (map_pages s1 pdir p0 v0 flags is) (\<lambda>s'. vm_inv s' pdir
    \<and> (\<forall>i\<in>set is. pte_of s' pdir (?v i) = (p0 + of_nat i * 4096) OR flags)
    \<and> (\<forall>w. page_no w \<notin> (\<lambda>i. page_no (?v i)) ` set is \<longrightarrow> pte_of s' pdir w = pte_of s1 pdir w))"
    using m(2,4,5) Cons.prems ne by (intro Cons.IH) (auto simp: m(3) pde_of_def)
  then obtain s2 where "map_pages s1 pdir p0 v0 flags is = Inr s2" "vm_inv s2 pdir"
    "\<forall>i\<in>set is. pte_of s2 pdir (?v i) = (p0 + of_nat i * 4096) OR flags"
    "\<forall>w. page_no w \<notin> (\<lambda>i. page_no (?v i)) ` set is \<longrightarrow> pte_of s2 pdir w = pte_of s1 pdir w"
    by (auto elim!: returnsE)
  moreover have "page_no (?v i) \<notin> (\<lambda>i. page_no (?v i)) ` set is"
  proof
    assume "page_no (?v i) \<in> (\<lambda>i. page_no (?v i)) ` set is"
    then obtain j where "j \<in> set is" "page_no (?v i) = page_no (?v j)" by (rule imageE)
    then show False using ne [of j] by simp
  qed
  ultimately show ?case using m(1,3) by auto
qed simp

section \<open>Properties\<close>

text \<open>
  A small machine for concrete instances: all physical pages free, memory ends at \<^verbatim>\<open>0xE0000\<close>, the
  directory at \<^verbatim>\<open>0x1000\<close> holds the given entries and the table at \<^verbatim>\<open>0x8000\<close> the given ones.
\<close>

definition demo_vm :: "(nat \<Rightarrow> u32) \<Rightarrow> (u32 \<Rightarrow> nat \<Rightarrow> u32) \<Rightarrow> vm_state" where
  "demo_vm pd tabs = \<lparr>mmap = (\<lambda>_. 0)(4 := 0xFFFF0000), total_mem = 0, mem_end = 0xE0000, last_error = 0,
     pdirs = (\<lambda>_. pd), ptabs = tabs, kernel_pdir = 0x1000, kpdir_rev = 0,
     wt_entry = 0, paging_enabled = True\<rparr>"

lemma demo_vm_pte: "pte_of (demo_vm pd tabs) pdir v =
   (if bisset (pd (pdir_index v)) PE_PRESENT \<and> bisset (tabs (getaddr (pd (pdir_index v))) (ptab_index v)) PE_PRESENT
    then tabs (getaddr (pd (pdir_index v))) (ptab_index v) else 0)"
  by (simp add: pte_of_def pde_of_def Let_def demo_vm_def)

lemma demo_vm_mm [simp]: "mm_inv (demo_vm pd tabs)"
  by (simp add: mm_inv_def demo_vm_def page_no_def)

text \<open>
  C19. Mapping a page that is not mapped yet: \<^verbatim>\<open>vm_map_page\<close> returns (when a page table exists or one
  can be allocated, and the kernel's revision counter is not at its end), every address in the page
  then resolves to the physical page at the same offset, every other address resolves as before,
  and the directory stays well formed.
\<close>

theorem vm_map_page_spec:
  assumes "vm_inv s pdir" and "IS_PAGE_ALIGNED vaddr" and "IS_PAGE_ALIGNED paddr"
    and "bisset flags PE_PRESENT" and "unat flags < 4096" and "translate s pdir vaddr = None"
    and "bisset (pde_of s pdir vaddr) PE_PRESENT \<or> fst (mm_alloc_page s) \<noteq> NO_PAGE"
    and "kpdir_rev s \<noteq> 0xFFFFFFFF"
  shows "returns (vm_map_page s pdir paddr vaddr flags) (\<lambda>s'. vm_inv s' pdir
    \<and> (\<forall>w. translate s' pdir w =
        (if page_no w = page_no vaddr then Some (paddr + PAGE_OFFSET w) else translate s pdir w)))"
proof -
  have "unat paddr mod 4096 = 0" using assms(3) by (simp add: IS_PAGE_ALIGNED_iff)
  then have "getaddr (paddr OR flags) = paddr" "bisset (paddr OR flags) PE_PRESENT"
    using assms(4,5) by (simp_all add: getaddr_or_flags flags_present)
  moreover from this have "paddr OR flags \<noteq> 0" by (metis bisset_zero)
  moreover have "pte_of s pdir vaddr = 0" using assms(6) by (simp add: translate_def split: if_splits)
  ultimately show ?thesis
    using do_map_returns [of s pdir vaddr paddr flags False] assms
    by (auto elim!: returnsE simp: vm_map_page_def translate_def)
qed

theorem vm_map_page_spec_witness:
  "returns (vm_map_page (demo_vm (\<lambda>_. 0) (\<lambda>_ _. 0)) 0x1000 0x7000 0x40003000 7)
     (\<lambda>s'. translate s' 0x1000 0x40003ABC = Some 0x7ABC)"
proof -
  let ?s = "demo_vm (\<lambda>_. 0) (\<lambda>_ _. 0)"
  have "pfree ?s 144" by (simp add: pfree_def demo_vm_def)
  then have "fst (mm_alloc_page ?s) \<noteq> NO_PAGE"
    by (simp add: mm_alloc_page_def Let_def find_one find_pages_def page_no_dma_end demo_vm_def page_addr_not_NO_PAGE upt_rec)
  then have "returns (vm_map_page ?s 0x1000 0x7000 0x40003000 7) (\<lambda>s'. vm_inv s' 0x1000
    \<and> (\<forall>w. translate s' 0x1000 w =
        (if page_no w = page_no 0x40003000 then Some (0x7000 + PAGE_OFFSET w) else translate ?s 0x1000 w)))"
    by (intro vm_map_page_spec)
      (simp_all add: IS_PAGE_ALIGNED_def bisset_def translate_def demo_vm_pte vm_inv_def, simp_all add: demo_vm_def)
  then show ?thesis by (auto elim!: returnsE simp: page_no_def PAGE_OFFSET_def)
qed

text \<open>
  Mapping an address that is already mapped: with the same physical page and flags (the processor's
  accessed and dirty bits aside) the call is ignored and no translation changes; with anything else
  the kernel panics, so that a mapping is never silently replaced.
\<close>

theorem vm_map_page_again:
  assumes "vm_inv s pdir" and "IS_PAGE_ALIGNED vaddr" and "IS_PAGE_ALIGNED paddr"
    and "bisset flags PE_PRESENT" and "pte_of s pdir vaddr \<noteq> 0"
  shows "if pte_of s pdir vaddr AND NOT 0x60 = paddr OR flags
    then returns (vm_map_page s pdir paddr vaddr flags)
      (\<lambda>s'. (\<forall>w. translate s' pdir w = translate s pdir w) \<and> free_pages s' = free_pages s \<and> kpdir_rev s' = kpdir_rev s)
    else vm_map_page s pdir paddr vaddr flags = Inl Panic"
proof -
  from assms(5) have p: "bisset (pde_of s pdir vaddr) PE_PRESENT"
    "ptabs s (getaddr (pde_of s pdir vaddr)) (ptab_index vaddr) = pte_of s pdir vaddr"
    by (auto simp: pte_of_def Let_def split: if_splits)
  from map_working_table_addr [OF getaddr_aligned, of s "pde_of s pdir vaddr"] obtain w where
    "map_working_table s (getaddr (pde_of s pdir vaddr)) = (getaddr (pde_of s pdir vaddr), s\<lparr>wt_entry := w\<rparr>)" by blast
  then have "table_for s pdir vaddr flags = Inr (getaddr (pde_of s pdir vaddr), s\<lparr>wt_entry := w\<rparr>)"
    using p by (simp add: table_for_def bnotset_not Let_def)
  with assms p show ?thesis
    by (simp add: vm_map_page_def do_map_def Let_def pte_of_present translate_def)
qed

text \<open>One table at \<^verbatim>\<open>0x8000\<close> for the first four megabytes, in it page 1 mapped to \<^verbatim>\<open>0x5000\<close>, read-only.\<close>

definition demo_one :: vm_state where
  "demo_one = demo_vm (\<lambda>i. if i = 0 then 0x8003 else 0) (\<lambda>t i. if t = 0x8000 \<and> i = 1 then 0x5001 else 0)"

lemma getaddr_8003 [simp]: "getaddr 0x8003 = 0x8000"
  by (simp add: getaddr_def bmask_def)

lemma demo_one_pte: "pte_of demo_one pdir v = (if page_no v = 1 then 0x5001 else 0)"
proof -
  have "pdir_index v = 0 \<and> ptab_index v = 1 \<longleftrightarrow> page_no v = 1"
    using same_page [of v "0x1000"] by (simp add: page_no_def pdir_index_nat ptab_index_nat)
  then show ?thesis by (auto simp: demo_one_def demo_vm_pte bisset_def)
qed

lemma demo_one_inv: "vm_inv demo_one pdir"
proof -
  have "8 \<notin> free_pages demo_one" by (simp add: free_pages_def pfree_def demo_one_def demo_vm_def)
  then show ?thesis by (simp add: vm_inv_def demo_one_def) (simp add: demo_vm_def page_no_def)
qed

theorem vm_map_page_again_witness:
  "vm_map_page demo_one 0x1000 0x6000 0x1000 1 = Inl Panic"
  using vm_map_page_again [of demo_one "0x1000" "0x1000" "0x6000" 1] demo_one_inv
  by (simp add: IS_PAGE_ALIGNED_def bisset_def demo_one_pte page_no_def)

text \<open>
  \<^verbatim>\<open>vm_unmap_page\<close> of a page whose table exists removes the translation of that page and of no
  other, and keeps the directory well formed.
\<close>

theorem vm_unmap_page_spec:
  assumes "vm_inv s pdir" and "IS_PAGE_ALIGNED vaddr" and "bisset (pde_of s pdir vaddr) PE_PRESENT"
    and "kpdir_rev s \<noteq> 0xFFFFFFFF"
  shows "returns (vm_unmap_page s pdir vaddr) (\<lambda>s'. vm_inv s' pdir
    \<and> (\<forall>w. translate s' pdir w = (if page_no w = page_no vaddr then None else translate s pdir w)))"
  using do_map_returns [of s pdir vaddr 0 0 False] assms
  by (auto elim!: returnsE simp: vm_unmap_page_def vm_map_page_def translate_def IS_PAGE_ALIGNED_def)

theorem vm_unmap_page_spec_witness:
  "returns (vm_unmap_page demo_one 0x1000 0x1000) (\<lambda>s'. translate s' 0x1000 0x1234 = None)"
proof -
  have "returns (vm_unmap_page demo_one 0x1000 0x1000) (\<lambda>s'. vm_inv s' 0x1000
    \<and> (\<forall>w. translate s' 0x1000 w = (if page_no w = page_no 0x1000 then None else translate demo_one 0x1000 w)))"
    using demo_one_inv by (intro vm_unmap_page_spec)
      (simp_all add: IS_PAGE_ALIGNED_def pde_of_def pdir_index_nat bisset_def demo_one_def demo_vm_def)
  then show ?thesis by (auto elim!: returnsE simp: page_no_def)
qed

text \<open>
  Unmapping an address whose page table does not exist allocates a physical page for a table and
  enters it without the present bit: no translation changes, but the page is lost.
\<close>

theorem vm_unmap_page_leaks:
  assumes "vm_inv s pdir" and "IS_PAGE_ALIGNED vaddr" and "\<not> bisset (pde_of s pdir vaddr) PE_PRESENT"
    and "mm_alloc_page s = (page, s1)" and "page \<noteq> NO_PAGE" and "pdir \<noteq> kernel_pdir s"
  shows "returns (vm_unmap_page s pdir vaddr) (\<lambda>s'. pde_of s' pdir vaddr = page
    \<and> \<not> bisset (pde_of s' pdir vaddr) PE_PRESENT
    \<and> page_no page \<in> free_pages s \<and> free_pages s' = free_pages s - {page_no page})"
proof -
  have "mm_inv s" using assms(1) by (simp add: vm_inv_def)
  note a = mm_alloc_vm [OF this assms(4,5)]
  from map_working_table_addr [of page "put_pde s1 pdir (pdir_index vaddr) (page OR 0)"] a
  obtain w where "map_working_table (put_pde s1 pdir (pdir_index vaddr) page) page
      = (page, (put_pde s1 pdir (pdir_index vaddr) page)\<lparr>wt_entry := w\<rparr>)" by auto
  then have "table_for s pdir vaddr 0 = Inr (page, new_table s1 pdir (pdir_index vaddr) page page w)"
    using assms by (simp add: table_for_def bnotset_not Let_def new_table_def put_pde_def)
  moreover have "\<not> bisset page PE_PRESENT" using flags_present [of page 0] a by (simp add: bisset_def)
  moreover have "pde_of (new_table s1 pdir (pdir_index vaddr) page page w) pdir vaddr = page"
    "kernel_pdir (new_table s1 pdir (pdir_index vaddr) page page w) = kernel_pdir s"
    "free_pages (new_table s1 pdir (pdir_index vaddr) page page w) = free_pages s - {page_no page}"
    using a by (simp_all add: new_table_def put_pde_def pde_of_def free_pages_def pfree_def)
  moreover have "pde_of (put_pte s2 t i e) pdir v = pde_of s2 pdir v" for s2 :: "'a vm_state_scheme" and t i e v
    by (simp add: pde_of_def)
  moreover have "bisset (0 :: u32) PE_PRESENT = False" by simp
  ultimately show ?thesis using assms a
    by (simp add: vm_unmap_page_def vm_map_page_def do_map_def Let_def IS_PAGE_ALIGNED_def)
qed

theorem vm_unmap_page_leaks_witness:
  "returns (vm_unmap_page (demo_vm (\<lambda>_. 0) (\<lambda>_ _. 0)) 0x2000 0x40000000)
     (\<lambda>s'. pde_of s' 0x2000 0x40000000 = 0x90000)"
proof -
  let ?s = "demo_vm (\<lambda>_. 0) (\<lambda>_ _. 0)"
  have "pfree ?s 144" by (simp add: pfree_def demo_vm_def)
  then have "find_page ?s 1 dma_end (mem_end ?s) = page_addr 144"
    by (simp add: find_one find_pages_def page_no_dma_end)
  then have m: "mm_alloc_page ?s = (0x90000, mark_used ?s 0x90000)"
    by (simp add: mm_alloc_page_def Let_def page_addr_def)
  have "returns (vm_unmap_page ?s 0x2000 0x40000000) (\<lambda>s'. pde_of s' 0x2000 0x40000000 = 0x90000
    \<and> \<not> bisset (pde_of s' 0x2000 0x40000000) PE_PRESENT
    \<and> page_no 0x90000 \<in> free_pages ?s \<and> free_pages s' = free_pages ?s - {page_no 0x90000})"
  proof (rule vm_unmap_page_leaks [OF _ _ _ m])
    show "vm_inv ?s 0x2000" by (simp add: vm_inv_def) (simp add: demo_vm_def)
    show "\<not> bisset (pde_of ?s 0x2000 0x40000000) PE_PRESENT" by (simp add: pde_of_def demo_vm_def)
    show "0x2000 \<noteq> kernel_pdir ?s" by (simp add: demo_vm_def)
  qed (simp_all add: IS_PAGE_ALIGNED_def)
  then show ?thesis by (rule returns_mono) blast
qed

text \<open>
  C20. \<^verbatim>\<open>vm_map_range\<close> over pages that are unmapped and whose tables exist maps page \<open>i\<close> of the virtual
  range to page \<open>i\<close> of the physical one, for every \<open>i\<close>, and changes no other translation.
\<close>

theorem vm_map_range_spec:
  assumes "vm_inv s pdir" and "IS_PAGE_ALIGNED pstart" and "IS_PAGE_ALIGNED vstart"
    and "bisset flags PE_PRESENT" and "unat flags < 4096" and "num \<le> 1048576"
    and "\<forall>i < num. bisset (pde_of s pdir (vstart + of_nat i * 4096)) PE_PRESENT
      \<and> pte_of s pdir (vstart + of_nat i * 4096) = 0"
    and "unat (kpdir_rev s) + num < 2 ^ 32"
  shows "returns (vm_map_range s pdir pstart vstart flags num) (\<lambda>s'. vm_inv s' pdir
    \<and> (\<forall>i < num. translate s' pdir (vstart + of_nat i * 4096) = Some (pstart + of_nat i * 4096))
    \<and> (\<forall>w. page_no w \<notin> range_pages vstart (of_nat num) \<longrightarrow> translate s' pdir w = translate s pdir w))"
proof -
  have al: "unat (pstart + of_nat i * 4096) mod 4096 = 0" "unat (vstart + of_nat i * 4096) mod 4096 = 0" for i
    using aligned_step assms(2,3) by (simp_all add: IS_PAGE_ALIGNED_iff)
  have e: "getaddr (pstart + of_nat i * 4096 OR flags) = pstart + of_nat i * 4096"
     "pstart + of_nat i * 4096 OR flags \<noteq> 0" for i
    using al assms(4,5) getaddr_or_flags flags_present [of "pstart + of_nat i * 4096" flags]
    by (auto simp: bisset_def)
  have o: "PAGE_OFFSET (vstart + of_nat i * 4096) = 0" for i
    using al unat_PAGE_OFFSET by (simp add: u32_eq_iff_unat)
  have r: "range_pages vstart (of_nat num) = (\<lambda>i. page_no (vstart + of_nat i * 4096)) ` set [0..<num]"
    using assms(6) by (simp add: range_pages_def page_no_step)
  have "returns (map_pages s pdir pstart vstart flags [0..<num]) (\<lambda>s'. vm_inv s' pdir
    \<and> (\<forall>i\<in>set [0..<num]. pte_of s' pdir (vstart + of_nat i * 4096) = (pstart + of_nat i * 4096) OR flags)
    \<and> (\<forall>w. page_no w \<notin> (\<lambda>i. page_no (vstart + of_nat i * 4096)) ` set [0..<num] \<longrightarrow> pte_of s' pdir w = pte_of s pdir w))"
    using assms by (intro map_pages_ok) auto
  then obtain s' where m: "map_pages s pdir pstart vstart flags [0..<num] = Inr s'" "vm_inv s' pdir"
    "\<And>i. i < num \<Longrightarrow> pte_of s' pdir (vstart + of_nat i * 4096) = (pstart + of_nat i * 4096) OR flags"
    "\<And>w. page_no w \<notin> range_pages vstart (of_nat num) \<Longrightarrow> pte_of s' pdir w = pte_of s pdir w"
    unfolding r by (auto elim!: returnsE)
  have "translate s' pdir (vstart + of_nat i * 4096) = Some (pstart + of_nat i * 4096)" if "i < num" for i
    using m(3) [OF that] e [of i] o [of i] by (simp add: translate_def)
  moreover have "translate s' pdir w = translate s pdir w" if "page_no w \<notin> range_pages vstart (of_nat num)" for w
    using m(4) [OF that] by (simp add: translate_def)
  ultimately show ?thesis using m(1,2) assms(2,3) by (simp add: vm_map_range_def)
qed


theorem vm_map_range_spec_witness:
  "returns (vm_map_range demo_one 0x1000 0x20000 0x4000 3 2)
     (\<lambda>s'. translate s' 0x1000 0x5000 = Some 0x21000)"
proof -
  have "pde_of demo_one 0x1000 (0x4000 + of_nat i * 4096) = 0x8003
      \<and> pte_of demo_one 0x1000 (0x4000 + of_nat i * 4096) = 0" if "i < 2" for i
    using that by (cases "i = 0")
      (auto simp: less_2_cases_iff pde_of_def pdir_index_nat demo_one_pte page_no_def, simp_all add: demo_one_def demo_vm_def)
  then have "returns (vm_map_range demo_one 0x1000 0x20000 0x4000 3 2) (\<lambda>s'. vm_inv s' 0x1000
    \<and> (\<forall>i < 2. translate s' 0x1000 (0x4000 + of_nat i * 4096) = Some (0x20000 + of_nat i * 4096))
    \<and> (\<forall>w. page_no w \<notin> range_pages 0x4000 (of_nat 2) \<longrightarrow> translate s' 0x1000 w = translate demo_one 0x1000 w))"
    using demo_one_inv by (intro vm_map_range_spec)
      (simp_all add: IS_PAGE_ALIGNED_def bisset_def, simp_all add: demo_one_def demo_vm_def)
  then show ?thesis by (force elim!: returnsE dest: spec [of _ "1 :: nat"])
qed

text \<open>
  C22. \<^verbatim>\<open>vm_find_addr\<close> returns the lowest page other than page 0 that the directory does not map, and 0
  exactly when all of them are mapped.
\<close>

theorem vm_find_addr_spec:
  "fst (vm_find_addr s pdir) =
     (case List.find (\<lambda>p. translate s pdir (page_addr p) = None) [1..<1048576] of
        None \<Rightarrow> 0 | Some p \<Rightarrow> page_addr p)"
proof -
  have "translate s pdir v = None \<longleftrightarrow> pte_of s pdir v = 0" for v by (simp add: translate_def)
  then show ?thesis
    using vm_find_addr_loop_find [of "[0..<1024]" s pdir] by (simp add: vm_find_addr_def all_dir_pages del: upt_rec_numeral)
qed

definition demo_gap :: vm_state where
  "demo_gap = demo_vm (\<lambda>i. if i = 0 then 0x8003 else if i = 1 then 0x9003 else 0)
     (\<lambda>t i. if t = 0x8000 then (if i = 1023 then 0 else 1) else (if i = 0 then 1 else 0))"

lemma find_range_tab_append:
  "(\<And>p. p \<in> set ps \<Longrightarrow> bisset (ptabs s tab p) PE_PRESENT) \<Longrightarrow>
     find_range_tab s tab num (ps @ qs) (c, t) = find_range_tab s tab num qs (if ps = [] then c else 0, t)"
  by (induction ps arbitrary: c) (auto simp: bnotset_not)

lemma upt_split3: "3 \<le> n \<Longrightarrow> [0..<n] = 0 # 1 # 2 # [3..<n]"
  by (simp add: upt_conv_Cons numeral_3_eq_3 numeral_2_eq_2)

text \<open>
  \<^verbatim>\<open>vm_find_range\<close> can return a range that is in use: when a run that began in one table is
  interrupted inside the next table, the directory index of the old run is combined with the table
  index of the new one. In the instance only the last page of the first table and everything but
  the first page of the second are free, and the answer for two pages is the mapped page 1.
\<close>

theorem vm_find_range_returns_mapped:
  "fst (vm_find_range demo_gap 0x1000 2) = page_addr 1 \<and> translate demo_gap 0x1000 (page_addr 1) \<noteq> None"
proof -
  have g: "getaddr 0x9003 = 0x9000" by (simp add: getaddr_def bmask_def)
  have w: "\<exists>w. map_working_table s (getaddr e) = (getaddr e, s\<lparr>wt_entry := w\<rparr>)" for s :: vm_state and e
    by (rule map_working_table_addr) simp
  have upt0: "[0..<1024] = 0 # 1 # 2 # [3..<1024]" by (rule upt_split3) simp
  have upt1: "[1..<1024] = [1..<1023] @ [1023]"
    using upt_Suc_append [of 1 1023] by (simp del: upt_rec_numeral upt_Suc)
  have upt2: "[0..<1024] = [0] @ 1 # 2 # [3..<1024]" unfolding upt0 by simp
  have t0: "find_range_tab s 0x8000 2 [1..<1024] (0, 0) = (1, 1023)"
    if "ptabs s = ptabs demo_gap" for s :: vm_state
    unfolding upt1 using that by (subst find_range_tab_append)
      (auto simp: demo_gap_def demo_vm_def bisset_def bnotset_def)
  have t1: "find_range_tab s 0x9000 2 [0..<1024] (1, 1023) = (2, 1)"
    if "ptabs s = ptabs demo_gap" for s :: vm_state
    unfolding upt2 using that by (subst find_range_tab_append)
      (auto simp: demo_gap_def demo_vm_def bisset_def bnotset_def)
  have pd: "pdirs demo_gap p 0 = 0x8003" "pdirs demo_gap p 1 = 0x9003" for p
    by (simp_all add: demo_gap_def demo_vm_def)
  from w [of demo_gap "0x8003"] obtain w0 where w0: "map_working_table demo_gap 0x8000 = (0x8000, demo_gap\<lparr>wt_entry := w0\<rparr>)"
    by auto
  from w [of "demo_gap\<lparr>wt_entry := w0\<rparr>" "0x9003"] obtain w1 where
    w1: "map_working_table (demo_gap\<lparr>wt_entry := w0\<rparr>) 0x9000 = (0x9000, demo_gap\<lparr>wt_entry := w1\<rparr>)" by (auto simp: g)
  have "vm_find_range_loop demo_gap 0x1000 2 (0 # 1 # is) (0, 0, 0) = (create_addr 0 1 0, demo_gap\<lparr>wt_entry := w1\<rparr>)" for "is"
    by (simp add: Let_def pd [unfolded One_nat_def] w0 w1 t0 [unfolded One_nat_def] t1 [unfolded One_nat_def] g
      bisset_def safe_pti_def del: upt_rec_numeral)
  then have "fst (vm_find_range demo_gap 0x1000 2) = create_addr 0 1 0"
    unfolding vm_find_range_def upt0 by simp
  moreover have "pte_of demo_gap 0x1000 (create_addr 0 1 0) = 1"
    by (subst pte_of_create) (simp_all add: pd bisset_def, simp_all add: demo_gap_def demo_vm_def)
  moreover have "page_addr 1 = create_addr 0 1 0" using page_addr_create [of 0 1] by simp
  ultimately show ?thesis by (simp add: translate_def)
qed

text \<open>
  \<^verbatim>\<open>vm_is_mapped\<close> on a range that does not reach the last page of the address space ends, and
  answers yes exactly when each of the addresses \<open>vaddr\<close>, \<open>vaddr + 4096\<close>, ... below the end lies in a
  page that has at least one of the asked flags.
\<close>

theorem vm_is_mapped_spec:
  assumes "unat vaddr + unat sz + 4096 \<le> 2 ^ 32"
  shows "returns (vm_is_mapped s pdir vaddr sz flags) (\<lambda>(b, s'). b \<longleftrightarrow>
    (\<forall>k. k * 4096 < unat sz \<longrightarrow> pte_of s pdir (vaddr + of_nat k * 4096) AND flags \<noteq> 0))"
proof -
  have u: "unat (vaddr + sz) = unat vaddr + unat sz" using assms by (simp add: unat_add_u32)
  then have "\<not> vaddr + sz < vaddr" by (simp add: word_less_nat_alt)
  with vm_is_mapped_loop_spec [of "vaddr + sz" vaddr 1048576 s pdir flags] assms u show ?thesis
    by (simp add: vm_is_mapped_def)
qed

theorem vm_is_mapped_spec_witness:
  "returns (vm_is_mapped demo_one 0x1000 0x1000 16 1) fst"
proof -
  have "returns (vm_is_mapped demo_one 0x1000 0x1000 16 1) (\<lambda>(b, s'). b \<longleftrightarrow>
    (\<forall>k. k * 4096 < unat (16 :: u32) \<longrightarrow> pte_of demo_one 0x1000 (0x1000 + of_nat k * 4096) AND 1 \<noteq> 0))"
    by (rule vm_is_mapped_spec) simp
  then show ?thesis by (auto elim!: returnsE simp: demo_one_pte page_no_def)
qed

text \<open>
  The check is weaker than its description: a page that is only present passes a check for present
  and user-accessible, and a range of two bytes whose second byte is in an unmapped page passes
  because only its first page is looked at.
\<close>

theorem vm_is_mapped_too_weak:
  "returns (vm_is_mapped demo_one 0x1000 0x1000 1 (PE_PRESENT OR PE_USERMODE))
     (\<lambda>(b, s). b \<and> pte_of demo_one 0x1000 0x1000 AND PE_USERMODE = 0)
   \<and> returns (vm_is_mapped demo_one 0x1000 0x1FFF 2 PE_PRESENT)
     (\<lambda>(b, s). b \<and> translate demo_one 0x1000 0x2000 = None)"
proof -
  have f: "unat (0x1FFF :: u32) + k * 4096 < unat (0x2001 :: u32) \<longleftrightarrow> k = 0"
    "unat (0x1000 :: u32) + k * 4096 < unat (0x1001 :: u32) \<longleftrightarrow> k = 0" for k by auto
  have "returns (vm_is_mapped_loop 1048576 demo_one 0x1000 0x1000 0x1001 5) fst"
    by (rule returns_mono [OF vm_is_mapped_loop_spec]) (auto simp: f demo_one_pte page_no_def)
  moreover have "returns (vm_is_mapped_loop 1048576 demo_one 0x1000 0x1FFF 0x2001 1) fst"
    by (rule returns_mono [OF vm_is_mapped_loop_spec]) (auto simp: f demo_one_pte page_no_def)
  ultimately show ?thesis
    by (auto elim!: returnsE simp: vm_is_mapped_def demo_one_pte page_no_def translate_def
      simp del: vm_is_mapped_loop.simps)
qed



end
