(* ===== verification/Kos_Vm_Util.thy ===== *)
theory Kos_Vm_Util
  imports Kos_Virt
begin

text \<open>
  The helpers of \<^verbatim>\<open>kernel/mm/util.c\<close> on top of the virtual memory manager: access to physical memory
  and to another address space through temporary mappings in the kernel's directory, and the
  allocation of mapped pages. (Address spaces as objects need the heap and are in
  \<^verbatim>\<open>Kos_Addrspace\<close>.) The theory shows that the search for a
  single free page agrees with \<^verbatim>\<open>vm_find_addr\<close>, and with it what a temporary one-page mapping and
  \<^verbatim>\<open>vm_alloc_page\<close> do.
\<close>

section \<open>State\<close>

text \<open>
  Physical memory as bytes, and the register that selects the address space. Page directories and
  tables are kept apart, as in \<^verbatim>\<open>vm_state\<close>.
\<close>

record um_state = vm_state +
  pmem :: "u32 \<Rightarrow> u8"
  cr3 :: u32

definition km_alloc_addr :: "'a vm_state_scheme \<Rightarrow> u32 \<Rightarrow> u32 \<Rightarrow> u32 \<Rightarrow> (u32 \<times> 'a vm_state_scheme) res" where
  "km_alloc_addr s paddr flags sz = vm_alloc_addr s (kernel_pdir s) paddr flags sz"

definition km_free_addr :: "'a vm_state_scheme \<Rightarrow> u32 \<Rightarrow> u32 \<Rightarrow> 'a vm_state_scheme res" where
  "km_free_addr s vaddr sz = vm_free_addr s (kernel_pdir s) vaddr sz"

text \<open>
  An access of the kernel to a virtual address: the byte behind its translation in the kernel's
  directory; an address that is not mapped is a page fault.
\<close>

definition kaddr :: "'a vm_state_scheme \<Rightarrow> u32 \<Rightarrow> u32 res" where
  "kaddr s v =
     (let pde = pdirs s (kernel_pdir s) (pdir_index v);
          pte = ptabs s (getaddr pde) (ptab_index v)
      in if bisset pde PE_PRESENT \<and> bisset pte PE_PRESENT then Inr (getaddr pte + PAGE_OFFSET v)
         else Inl Bad_access)"

definition kread :: "'a um_state_scheme \<Rightarrow> u32 \<Rightarrow> u8 res" where
  "kread s v = rbind (kaddr s v) (\<lambda>a. Inr (pmem s a))"

definition kwrite :: "'a um_state_scheme \<Rightarrow> u32 \<Rightarrow> u8 \<Rightarrow> 'a um_state_scheme res" where
  "kwrite s v b = rbind (kaddr s v) (\<lambda>a. Inr (s\<lparr>pmem := (pmem s)(a := b)\<rparr>))"

fun kmemcpy :: "'a um_state_scheme \<Rightarrow> u32 \<Rightarrow> u32 \<Rightarrow> nat \<Rightarrow> 'a um_state_scheme res" where
  "kmemcpy s dst src 0 = Inr s"
| "kmemcpy s dst src (Suc n) =
     rbind (kread s src) (\<lambda>b. rbind (kwrite s dst b) (\<lambda>s. kmemcpy s (dst + 1) (src + 1) n))"

fun kmemset :: "'a um_state_scheme \<Rightarrow> u32 \<Rightarrow> u8 \<Rightarrow> nat \<Rightarrow> 'a um_state_scheme res" where
  "kmemset s dst val 0 = Inr s"
| "kmemset s dst val (Suc n) = rbind (kwrite s dst val) (\<lambda>s. kmemset s (dst + 1) val n)"

fun kread_bytes :: "'a um_state_scheme \<Rightarrow> u32 \<Rightarrow> nat \<Rightarrow> u8 list res" where
  "kread_bytes s v 0 = Inr []"
| "kread_bytes s v (Suc n) = rbind (kread s v) (\<lambda>b. rbind (kread_bytes s (v + 1) n) (\<lambda>bs. Inr (b # bs)))"

definition kread_u32 :: "'a um_state_scheme \<Rightarrow> u32 \<Rightarrow> u32 res" where
  "kread_u32 s v = rbind (kread_bytes s v 4) (\<lambda>bs. Inr (u32_of_bytes bs))"

definition kwrite_u32 :: "'a um_state_scheme \<Rightarrow> u32 \<Rightarrow> u32 \<Rightarrow> 'a um_state_scheme res" where
  "kwrite_u32 s v x =
     (case bytes_of_u32 x of
        [a, b, c, d] \<Rightarrow>
          rbind (kwrite s v a) (\<lambda>s. rbind (kwrite s (v + 1) b) (\<lambda>s.
          rbind (kwrite s (v + 2) c) (\<lambda>s. kwrite s (v + 3) d)))
      | _ \<Rightarrow> Inl Bad_access)"

fun kwrite_bytes :: "'a um_state_scheme \<Rightarrow> u32 \<Rightarrow> u8 list \<Rightarrow> 'a um_state_scheme res" where
  "kwrite_bytes s v [] = Inr s"
| "kwrite_bytes s v (b # bs) = rbind (kwrite s v b) (\<lambda>s. kwrite_bytes s (v + 1) bs)"

section \<open>Copying through temporary mappings\<close>

definition vm_cpy_pp :: "'a um_state_scheme \<Rightarrow> u32 \<Rightarrow> u32 \<Rightarrow> u32 \<Rightarrow> 'a um_state_scheme res" where
  "vm_cpy_pp s dst src sz =
     rbind (km_alloc_addr s dst VM_COMMON_FLAGS sz) (\<lambda>(vdst, s).
     rbind (km_alloc_addr s src VM_COMMON_FLAGS sz) (\<lambda>(vsrc, s).
     rbind (kmemcpy s vdst vsrc (unat sz)) (\<lambda>s.
     rbind (km_free_addr s vdst sz) (\<lambda>s. km_free_addr s vsrc sz))))"

definition vm_cpy_pv :: "'a um_state_scheme \<Rightarrow> u32 \<Rightarrow> u32 \<Rightarrow> u32 \<Rightarrow> 'a um_state_scheme res" where
  "vm_cpy_pv s dst src sz =
     rbind (km_alloc_addr s dst VM_COMMON_FLAGS sz) (\<lambda>(vdst, s).
     rbind (kmemcpy s vdst src (unat sz)) (\<lambda>s. km_free_addr s vdst sz))"

definition vm_cpy_vp :: "'a um_state_scheme \<Rightarrow> u32 \<Rightarrow> u32 \<Rightarrow> u32 \<Rightarrow> 'a um_state_scheme res" where
  "vm_cpy_vp s dst src sz =
     rbind (km_alloc_addr s src VM_COMMON_FLAGS sz) (\<lambda>(vsrc, s).
     rbind (kmemcpy s dst vsrc (unat sz)) (\<lambda>s. km_free_addr s vsrc sz))"

definition vm_set_p :: "'a um_state_scheme \<Rightarrow> u32 \<Rightarrow> u8 \<Rightarrow> u32 \<Rightarrow> 'a um_state_scheme res" where
  "vm_set_p s dst val sz =
     rbind (km_alloc_addr s dst VM_COMMON_FLAGS sz) (\<lambda>(vdst, s).
     rbind (kmemset s vdst val (unat sz)) (\<lambda>s. km_free_addr s vdst sz))"

section \<open>Between user and kernel space\<close>

definition vm_user_to_kernel ::
    "'a vm_state_scheme \<Rightarrow> u32 \<Rightarrow> u32 \<Rightarrow> u32 \<Rightarrow> (u32 \<times> 'a vm_state_scheme) res" where
  "vm_user_to_kernel s pdir vaddr sz =
     (case vm_resolve_virt s pdir vaddr of (paddr, s) \<Rightarrow> km_alloc_addr s paddr VM_COMMON_FLAGS sz)"

definition vm_kernel_to_user ::
    "'a vm_state_scheme \<Rightarrow> u32 \<Rightarrow> u32 \<Rightarrow> u32 \<Rightarrow> (u32 \<times> 'a vm_state_scheme) res" where
  "vm_kernel_to_user s pdir vaddr sz =
     (case vm_resolve_virt s (kernel_pdir s) vaddr of (paddr, s) \<Rightarrow>
        vm_alloc_addr s pdir paddr VM_USER_FLAGS sz)"

text \<open>
  \<^verbatim>\<open>struct strparam\<close> is the 32-bit length followed by the pointer. The length is returned when the
  caller passed a place for it, which is the flag \<open>want_len\<close>.
\<close>

definition vm_map_string ::
    "'a um_state_scheme \<Rightarrow> u32 \<Rightarrow> u32 \<Rightarrow> bool \<Rightarrow> (u32 \<times> u32 option \<times> 'a um_state_scheme) res" where
  "vm_map_string s pdir vaddr want_len =
     (case vm_resolve_virt s pdir vaddr of (info_addr, s) \<Rightarrow>
      rbind (km_alloc_addr s info_addr VM_COMMON_FLAGS 8) (\<lambda>(info, s).
      rbind (kread_u32 s (info + 4)) (\<lambda>ptr.
      rbind (kread_u32 s info) (\<lambda>len.
      rbind (vm_user_to_kernel s pdir ptr (len + 1)) (\<lambda>(str, s).
      rbind (kread_u32 s info) (\<lambda>len.
      rbind (km_free_addr s info 8) (\<lambda>s.
      Inr (str, if want_len then Some (len + 1) else None, s))))))))"

section \<open>Pages\<close>

definition vm_alloc_page :: "'a vm_state_scheme \<Rightarrow> u32 \<Rightarrow> bool \<Rightarrow> (u32 \<times> 'a vm_state_scheme) res" where
  "vm_alloc_page s pdir user =
     (case mm_alloc_page s of (page, s) \<Rightarrow>
        if page = NO_PAGE then Inl Panic
        else let flags = PE_PRESENT OR PE_READWRITE;
                 flags = (if user then flags OR PE_USERMODE else flags)
             in vm_alloc_addr s pdir page flags PAGE_SIZE)"

definition vm_alloc_range :: "'a vm_state_scheme \<Rightarrow> u32 \<Rightarrow> bool \<Rightarrow> u32 \<Rightarrow> (u32 \<times> 'a vm_state_scheme) res" where
  "vm_alloc_range s pdir user num =
     (case mm_alloc_range s num of (pstart, s) \<Rightarrow>
        if pstart = NO_PAGE then Inl Panic
        else let flags = PE_PRESENT OR PE_READWRITE;
                 flags = (if user then flags OR PE_USERMODE else flags)
             in vm_alloc_addr s pdir pstart flags (num * PAGE_SIZE))"

definition vm_free_page :: "'a vm_state_scheme \<Rightarrow> u32 \<Rightarrow> u32 \<Rightarrow> 'a vm_state_scheme res" where
  "vm_free_page s pdir page =
     (case vm_resolve_virt s pdir page of (paddr, s) \<Rightarrow>
        rbind (vm_free_addr s pdir page PAGE_SIZE) (\<lambda>s. Inr (mm_free_page s paddr)))"

definition vm_free_range :: "'a vm_state_scheme \<Rightarrow> u32 \<Rightarrow> u32 \<Rightarrow> u32 \<Rightarrow> 'a vm_state_scheme res" where
  "vm_free_range s pdir start num =
     (case vm_resolve_virt s pdir start of (pstart, s) \<Rightarrow>
        rbind (vm_free_addr s pdir start (num * PAGE_SIZE)) (\<lambda>s. Inr (mm_free_range s pstart num)))"

section \<open>Single pages\<close>

lemma find_range_tab_one:
  "find_range_tab s tab 1 ps (0, t) = (case find_free_pti s tab ps of None \<Rightarrow> (0, t) | Some p \<Rightarrow> (1, p))"
  by (induction ps) (auto simp: Let_def)

lemma vm_find_range_loop_one:
  "vm_find_range_loop s pdir 1 is (0, a, b) = vm_find_addr_loop s pdir is"
proof (induction "is" arbitrary: s a b)
  case (Cons i "is")
  have "1 \<le> (1024 :: nat) - safe_pti i" by (simp add: safe_pti_def)
  obtain tab s1 where t: "map_working_table s (getaddr (pdirs s pdir i)) = (tab, s1)" by fastforce
  show ?case
  proof (cases "bisset (pdirs s pdir i) PE_PRESENT")
    case True
    with t Cons show ?thesis
      by (cases "find_free_pti s1 tab [safe_pti i..<1024]")
        (simp_all add: Let_def bnotset_not find_range_tab_one [unfolded One_nat_def])
  next
    case False
    with Cons show ?thesis by (simp add: Let_def bnotset_not safe_pti_def)
  qed
qed simp

lemma vm_find_range_one: "vm_find_range s pdir 1 = vm_find_addr s pdir"
  by (simp add: vm_find_range_def vm_find_addr_def vm_find_range_loop_one del: upt_rec_numeral One_nat_def)

lemma vm_find_addr_loop_wt: "\<exists>w. snd (vm_find_addr_loop s pdir is) = s\<lparr>wt_entry := w\<rparr>"
proof (induction "is" arbitrary: s)
  case Nil
  then show ?case by (auto intro: exI [of _ "wt_entry s"])
next
  case (Cons i "is")
  from map_working_table_addr [OF getaddr_aligned, of s "pdirs s pdir i"] obtain w where
    w: "map_working_table s (getaddr (pdirs s pdir i)) = (getaddr (pdirs s pdir i), s\<lparr>wt_entry := w\<rparr>)" by blast
  show ?case
  proof (cases "bnotset (pdirs s pdir i) PE_PRESENT")
    case True
    then show ?thesis by (auto simp: Let_def intro: exI [of _ "wt_entry s"])
  next
    case False
    with w Cons [of "s\<lparr>wt_entry := w\<rparr>"] show ?thesis by (auto simp: Let_def split: option.splits)
  qed
qed

lemma find_SomeD: "List.find P xs = Some x \<Longrightarrow> x \<in> set xs \<and> P x"
  by (induction xs) (auto split: if_splits)

lemma scan_cong: "mmap s = mmap s' \<Longrightarrow> scan s ps num st = scan s' ps num st"
proof (induction ps arbitrary: st)
  case (Cons p ps)
  then show ?case by (cases st) (simp add: Let_def pfree_def)
qed simp

lemma mm_alloc_page_wt:
  fixes s :: "'a vm_state_scheme"
  shows "fst (mm_alloc_page (s\<lparr>wt_entry := w\<rparr>)) = fst (mm_alloc_page s)"
proof -
  have "find_page (s\<lparr>wt_entry := w\<rparr>) n a b = find_page s n a b" for n a b
    using scan_cong [of "s\<lparr>wt_entry := w\<rparr>" s] by (simp add: find_page_scan)
  then show ?thesis by (simp add: mm_alloc_page_def Let_def)
qed

lemma vm_find_addr_cases:
  assumes "fst (vm_find_addr s pdir) \<noteq> 0"
  obtains p w where "vm_find_addr s pdir = (page_addr p, s\<lparr>wt_entry := w\<rparr>)" "0 < p" "p < 1048576"
    "pte_of s pdir (page_addr p) = 0"
proof -
  have f: "fst (vm_find_addr s pdir) = (case List.find (\<lambda>p. pte_of s pdir (page_addr p) = 0) [1..<1048576] of
      None \<Rightarrow> 0 | Some p \<Rightarrow> page_addr p)"
    using vm_find_addr_loop_find [of "[0..<1024]" s pdir] by (simp add: vm_find_addr_def all_dir_pages del: upt_rec_numeral)
  with assms obtain p where p: "List.find (\<lambda>p. pte_of s pdir (page_addr p) = 0) [1..<1048576] = Some p"
    by (auto split: option.splits)
  obtain w where "snd (vm_find_addr s pdir) = s\<lparr>wt_entry := w\<rparr>"
    using vm_find_addr_loop_wt unfolding vm_find_addr_def by blast
  moreover from p have "p \<in> set [1..<1048576]" "pte_of s pdir (page_addr p) = 0"
    using find_SomeD [OF p] by blast+
  ultimately show thesis using f p by (intro that [of p w]) (auto simp: prod_eq_iff simp del: upt_rec_numeral)
qed

lemma page_addr_offset:
  assumes "p < 1048576" and "unat off < 4096"
  shows "page_no (page_addr p + off) = p \<and> PAGE_OFFSET (page_addr p + off) = off"
proof -
  have "unat (page_addr p + off) = p * 4096 + unat off"
    using assms by (simp add: unat_add_u32 unat_page_addr)
  then show ?thesis using assms
    by (simp add: page_no_def u32_eq_iff_unat unat_PAGE_OFFSET)
qed

lemma vm_inv_wt [simp]: "vm_inv (s\<lparr>wt_entry := w\<rparr>) pdir = vm_inv s pdir"
  by (simp add: vm_inv_def mm_inv_def)

text \<open>
  C21. A temporary mapping of at most one page: \<^verbatim>\<open>vm_alloc_addr\<close> of bytes that lie within one physical
  page returns an address whose page was free and other than page 0, which now resolves to exactly
  the physical address asked for; no other translation changes and the directory stays well formed.
\<close>

theorem vm_alloc_addr_one_page:
  assumes "vm_inv s pdir" and "0 < unat sz" and "unat (PAGE_OFFSET pstart) + unat sz \<le> 4096"
    and "bisset flags PE_PRESENT" and "unat flags < 4096" and "kpdir_rev s \<noteq> 0xFFFFFFFF"
    and "fst (vm_find_addr s pdir) \<noteq> 0"
    and "bisset (pde_of s pdir (fst (vm_find_addr s pdir))) PE_PRESENT \<or> fst (mm_alloc_page s) \<noteq> NO_PAGE"
  shows "returns (vm_alloc_addr s pdir pstart flags sz) (\<lambda>(v, s'). vm_inv s' pdir
    \<and> 0 < page_no v \<and> translate s pdir v = None \<and> translate s' pdir v = Some pstart
    \<and> (\<forall>w. page_no w \<noteq> page_no v \<longrightarrow> translate s' pdir w = translate s pdir w))"
proof -
  from assms(7) obtain p w where p: "vm_find_addr s pdir = (page_addr p, s\<lparr>wt_entry := w\<rparr>)" "0 < p"
    "p < 1048576" "pte_of s pdir (page_addr p) = 0" by (rule vm_find_addr_cases)
  let ?s = "s\<lparr>wt_entry := w\<rparr>" and ?o = "PAGE_OFFSET pstart" and ?a = "align_addr pstart"
  have n: "unat (NUM_PAGES (align_size pstart sz)) = 1"
  proof -
    have "unat (align_size pstart sz) = unat sz + unat ?o"
      using assms(3) by (simp add: align_size_def unat_add_u32)
    then show ?thesis using assms(2,3) unfolding unat_NUM_PAGES by (intro div_nat_eqI) auto
  qed
  have o: "unat ?o < 4096" by (simp add: unat_PAGE_OFFSET)
  have "IS_PAGE_ALIGNED ?a" by (simp add: IS_PAGE_ALIGNED_iff unat_align_addr minus_mod_eq_mult_div)
  moreover have "?a + ?o = pstart" by (simp add: align_addr_def)
  ultimately have a: "IS_PAGE_ALIGNED ?a" "?a + ?o = pstart" by simp_all
  have mem: "bisset (pde_of ?s pdir (page_addr p)) PE_PRESENT \<or> fst (mm_alloc_page ?s) \<noteq> NO_PAGE"
    using assms(8) p(1) by (simp add: mm_alloc_page_wt pde_of_def)
  from do_map_returns [of ?s pdir "page_addr p" ?a flags False] assms p mem a page_addr_aligned [of p]
  obtain s' where m: "vm_map_page ?s pdir ?a (page_addr p) flags = Inr s'" "vm_inv s' pdir"
    "\<And>w. pte_of s' pdir w = (if page_no w = p then ?a OR flags else pte_of s pdir w)"
    by (auto elim!: returnsE simp: vm_map_page_def)
  have "getaddr (?a OR flags) = ?a" "?a OR flags \<noteq> 0"
    using a assms(4,5) getaddr_or_flags [of ?a flags] flags_present [of ?a flags] by (auto simp: IS_PAGE_ALIGNED_iff)
  moreover have "page_addr p \<noteq> 0" using p(2,3) unat_page_addr [of p] by auto
  then have r: "vm_alloc_addr s pdir pstart flags sz = Inr (page_addr p + ?o, s')"
    using n p(1) m(1) a page_addr_aligned [OF p(3)]
    by (simp add: vm_alloc_addr_def Let_def vm_find_range_one [unfolded One_nat_def] vm_map_range_def)
  ultimately show ?thesis using m p a page_addr_offset [OF p(3) o] pte_of_same_page [of "page_addr p + ?o" "page_addr p" s pdir]
    by (simp add: translate_def)
qed

lemma upt_1_split: "3 \<le> n \<Longrightarrow> [1..<n] = 1 # 2 # [3..<n]"
  using upt_split3 [of n] by (cases n) (auto simp: upt_conv_Cons)

theorem vm_alloc_addr_one_page_witness:
  "returns (vm_alloc_addr demo_one 0x1000 0x70010 3 16) (\<lambda>(v, s'). translate s' 0x1000 v = Some 0x70010)"
proof -
  have "[1..<1048576] = 1 # 2 # [3..<1048576]" by (rule upt_1_split) simp
  then have f: "fst (vm_find_addr demo_one 0x1000) = page_addr 2"
    using vm_find_addr_loop_find [of "[0..<1024]" demo_one "0x1000"]
    by (simp add: vm_find_addr_def all_dir_pages demo_one_pte del: upt_rec_numeral)
  have a: "page_addr 2 = 0x2000" by (simp add: page_addr_def)
  have "returns (vm_alloc_addr demo_one 0x1000 0x70010 3 16) (\<lambda>(v, s'). vm_inv s' 0x1000
    \<and> 0 < page_no v \<and> translate demo_one 0x1000 v = None \<and> translate s' 0x1000 v = Some 0x70010
    \<and> (\<forall>w. page_no w \<noteq> page_no v \<longrightarrow> translate s' 0x1000 w = translate demo_one 0x1000 w))"
    using demo_one_inv f a by (intro vm_alloc_addr_one_page)
      (simp_all add: PAGE_OFFSET_def bisset_def pde_of_def pdir_index_nat, simp_all add: demo_one_def demo_vm_def)
  then show ?thesis by (rule returns_mono) blast
qed

section \<open>Copying in kernel memory\<close>

text \<open>Kernel memory accesses change nothing but physical memory.\<close>

lemma kaddr_pmem [simp]: "kaddr (s\<lparr>pmem := m\<rparr>) = kaddr s"
  by (simp add: kaddr_def fun_eq_iff)

lemma kwrite_pmem: "kwrite s v b = Inr t \<Longrightarrow> \<exists>m. t = s\<lparr>pmem := m\<rparr>"
  by (auto simp: kwrite_def res_simps)

lemma kmemcpy_pmem: "kmemcpy s dst src n = Inr t \<Longrightarrow> \<exists>m. t = s\<lparr>pmem := m\<rparr>"
proof (induction n arbitrary: s dst src)
  case 0
  then show ?case by (intro exI [of _ "pmem s"]) simp
next
  case (Suc n)
  then obtain b u where u: "kwrite s dst b = Inr u" "kmemcpy u (dst + 1) (src + 1) n = Inr t"
    by (auto simp: res_simps)
  from kwrite_pmem [OF u(1)] Suc.IH [OF u(2)] show ?case by auto
qed

text \<open>
  The byte range of length \<open>n\<close> at the virtual address \<open>v\<close> is mapped, its byte \<open>i\<close> to the physical address
  \<open>f i\<close>.
\<close>

definition kmapped :: "'a vm_state_scheme \<Rightarrow> u32 \<Rightarrow> nat \<Rightarrow> (nat \<Rightarrow> u32) \<Rightarrow> bool" where
  "kmapped s v n f \<longleftrightarrow> (\<forall>i < n. kaddr s (v + of_nat i) = Inr (f i))"

lemma kmapped_pmem [simp]: "kmapped (s\<lparr>pmem := m\<rparr>) = kmapped s"
  by (simp add: kmapped_def fun_eq_iff)

lemma kmapped_Suc: "kmapped s v (Suc n) f \<longleftrightarrow> kaddr s v = Inr (f 0) \<and> kmapped s (v + 1) n (\<lambda>i. f (Suc i))"
  unfolding kmapped_def by (subst All_less_Suc2) (simp add: ac_simps)

lemma kmemcpy_copies:
  assumes "kmapped s src n f" and "kmapped s dst n g" and "inj_on g {..<n}" and "f ` {..<n} \<inter> g ` {..<n} = {}"
  shows "\<exists>m. kmemcpy s dst src n = Inr (s\<lparr>pmem := m\<rparr>) \<and> (\<forall>i < n. m (g i) = pmem s (f i))
     \<and> (\<forall>a. a \<notin> g ` {..<n} \<longrightarrow> m a = pmem s a)"
  using assms
proof (induction n arbitrary: s src dst f g)
  case 0
  then show ?case by (intro exI [of _ "pmem s"]) simp
next
  case (Suc n)
  let ?s = "s\<lparr>pmem := (pmem s)(g 0 := pmem s (f 0))\<rparr>"
  have "\<exists>m. kmemcpy ?s (dst + 1) (src + 1) n = Inr (?s\<lparr>pmem := m\<rparr>) \<and> (\<forall>i < n. m (g (Suc i)) = pmem ?s (f (Suc i)))
     \<and> (\<forall>a. a \<notin> (\<lambda>i. g (Suc i)) ` {..<n} \<longrightarrow> m a = pmem ?s a)"
    using Suc.prems by (intro Suc.IH) (auto simp: kmapped_Suc inj_on_def lessThan_Suc_eq_insert_0 image_image)
  then obtain m where m: "kmemcpy ?s (dst + 1) (src + 1) n = Inr (s\<lparr>pmem := m\<rparr>)"
    "\<forall>i < n. m (g (Suc i)) = pmem ?s (f (Suc i))" "\<forall>a. a \<notin> (\<lambda>i. g (Suc i)) ` {..<n} \<longrightarrow> m a = pmem ?s a"
    by (auto)
  have g0: "g 0 \<noteq> g (Suc i)" "f (Suc i) \<noteq> g 0" if "i < n" for i
  proof -
    show "g 0 \<noteq> g (Suc i)" using Suc.prems(3) that by (auto dest: inj_onD [of g _ 0 "Suc i"])
    have "f (Suc i) \<in> f ` {..<Suc n}" "g 0 \<in> g ` {..<Suc n}" using that by simp_all
    then show "f (Suc i) \<noteq> g 0" using Suc.prems(4) by force
  qed
  then have "g 0 \<notin> (\<lambda>i. g (Suc i)) ` {..<n}" by auto
  then have "m (g 0) = pmem s (f 0)" using m(3) by simp
  note m = m this
  show ?case
  proof (intro exI [of _ m] conjI allI impI)
    show "kmemcpy s dst src (Suc n) = Inr (s\<lparr>pmem := m\<rparr>)"
      using Suc.prems(1,2) m(1) by (simp add: kmapped_Suc kread_def kwrite_def)
    show "m (g i) = pmem s (f i)" if "i < Suc n" for i
      using that m(2,4) g0 by (cases i) auto
    show "m a = pmem s a" if "a \<notin> g ` {..<Suc n}" for a
      using that m(3) by (auto simp: lessThan_Suc_eq_insert_0 image_image)
  qed
qed

lemma kread_bytes_mapped: "kmapped s v n f \<Longrightarrow> kread_bytes s v n = Inr (map (\<lambda>i. pmem s (f i)) [0..<n])"
proof (induction n arbitrary: v f)
  case (Suc n)
  from Suc.IH [of "v + 1" "\<lambda>i. f (Suc i)"] Suc.prems show ?case
    by (simp add: kmapped_Suc kread_def map_upt_Suc del: upt_Suc)
qed simp

end
