(* ===== verification/Kos_Frame.thy ===== *)
theory Kos_Frame
  imports Kos_Vm_Util
begin

text \<open>
  What the memory manager leaves alone. A view of the state that does not look at the page bitmap, the
  page tables and physical memory is the same before and after every operation of the lower layers; the
  components above it instantiate the locale with the part of the state that is theirs.
\<close>

locale mem_frame =
  fixes view :: "'a um_state_scheme \<Rightarrow> 'v"
  assumes view_mmap [simp]: "view (s\<lparr>mmap := m\<rparr>) = view s"
    and view_last_error [simp]: "view (s\<lparr>last_error := e\<rparr>) = view s"
    and view_pdirs [simp]: "view (s\<lparr>pdirs := d\<rparr>) = view s"
    and view_ptabs [simp]: "view (s\<lparr>ptabs := t\<rparr>) = view s"
    and view_kpdir_rev [simp]: "view (s\<lparr>kpdir_rev := r\<rparr>) = view s"
    and view_wt_entry [simp]: "view (s\<lparr>wt_entry := w\<rparr>) = view s"
    and view_pmem [simp]: "view (s\<lparr>pmem := p\<rparr>) = view s"
begin

lemma view_mark [simp]:
  "view (mark_used s a) = view s" "view (mark_free s a) = view s" "view (seterr s e) = view s"
  by (simp_all add: mark_used_def mark_free_def seterr_def)

lemma view_mark_range [simp]:
  "view (mark_range_used s a n) = view s" "view (mark_range_free s a n) = view s"
  by (simp_all add: mark_range_used_def mark_range_free_def fold_frame)

lemma view_mm [simp]:
  "view (snd (mm_alloc_page s)) = view s" "view (snd (mm_alloc_range s n)) = view s"
  "view (mm_free_page s a) = view s" "view (mm_free_range s a n) = view s"
  by (simp_all add: mm_alloc_page_def mm_alloc_range_def mm_free_page_def mm_free_range_def Let_def)

lemma view_put [simp]: "view (put_pde s p i e) = view s" "view (put_pte s p i e) = view s"
  by (simp_all add: put_pde_def put_pte_def)

lemma view_mwt [simp]: "view (snd (map_working_table s t)) = view s"
  by (simp add: map_working_table_def Let_def)

lemma view_pairD:
  "mm_alloc_page s = (a, s') \<Longrightarrow> view s' = view s" "mm_alloc_range s n = (a, s') \<Longrightarrow> view s' = view s"
  "map_working_table s t = (a, s') \<Longrightarrow> view s' = view s"
  using view_mm(1,2) [of s] view_mwt [of s t] by (metis snd_conv)+

lemma view_get_ptab_entry: "get_ptab_entry s pdir v = (a, s') \<Longrightarrow> view s' = view s"
  by (auto simp: get_ptab_entry_def Let_def dest!: view_pairD split: prod.splits if_splits)

lemma view_resolveD: "vm_resolve_virt s pdir v = (a, s') \<Longrightarrow> view s' = view s"
  by (auto simp: vm_resolve_virt_def dest!: view_get_ptab_entry split: prod.splits if_splits)

lemma view_table_for: "table_for s pdir v f = Inr (t, s') \<Longrightarrow> view s' = view s"
  by (auto simp: table_for_def Let_def split: if_splits prod.splits dest!: view_pairD)

lemma view_do_map: "do_map s pdir p v f b = Inr s' \<Longrightarrow> view s' = view s"
  by (auto simp: do_map_def Let_def rbind_Inr_iff dest!: view_table_for split: if_splits)

lemma view_map_page: "vm_map_page s pdir p v f = Inr s' \<Longrightarrow> view s' = view s"
    "vm_force_map s pdir p v f = Inr s' \<Longrightarrow> view s' = view s"
  by (auto simp: vm_map_page_def vm_force_map_def dest: view_do_map)

lemma view_map_pages: "map_pages s pdir p v f is = Inr s' \<Longrightarrow> view s' = view s"
  by (induction "is" arbitrary: s) (auto simp: rbind_Inr_iff dest: view_map_page)

lemma view_find_range_loop: "view (snd (vm_find_range_loop s pdir n is st)) = view s"
proof (induction "is" arbitrary: s st)
  case (Cons i "is")
  obtain a b c where st: "st = (a, b, c)" by (cases st)
  obtain tab s1 where t: "map_working_table s (getaddr (pdirs s pdir i)) = (tab, s1)" by fastforce
  then have "view s1 = view s" by (rule view_pairD)
  with Cons t show ?case by (auto simp: st Let_def split: prod.splits)
qed simp

lemma view_alloc_addr: "vm_alloc_addr s pdir p f n = Inr (v, s') \<Longrightarrow> view s' = view s"
  using view_find_range_loop [of s pdir "unat (NUM_PAGES (align_size p n))" "[0..<1024]" "(0, 0, 0)"]
  by (auto simp: vm_alloc_addr_def Let_def vm_find_range_def vm_map_range_def rbind_Inr_iff
    dest!: view_map_pages split: prod.splits if_splits simp del: upt_rec_numeral)

lemma view_free_addr: "vm_free_addr s pdir v n = Inr s' \<Longrightarrow> view s' = view s"
  by (auto simp: vm_free_addr_def vm_unmap_range_def vm_map_range_def rbind_Inr_iff dest: view_map_pages)

lemma view_km_addr:
  "km_alloc_addr s p f n = Inr (v, s') \<Longrightarrow> view s' = view s" "km_free_addr s v n = Inr s' \<Longrightarrow> view s' = view s"
  by (auto simp: km_alloc_addr_def km_free_addr_def dest: view_alloc_addr view_free_addr)

lemma view_alloc:
  "vm_alloc_range s pdir u n = Inr (v, s') \<Longrightarrow> view s' = view s" "vm_alloc_page s pdir u = Inr (v, s') \<Longrightarrow> view s' = view s"
  by (auto simp: vm_alloc_range_def vm_alloc_page_def Let_def dest!: view_pairD view_alloc_addr
    split: prod.splits if_splits)

lemma view_kwrite: "kwrite s v b = Inr s' \<Longrightarrow> view s' = view s"
  by (auto simp: kwrite_def rbind_Inr_iff)

lemma view_kmem:
  "kmemset s d b n = Inr s' \<Longrightarrow> view s' = view s" "kmemcpy s d d' n = Inr s' \<Longrightarrow> view s' = view s"
  "kwrite_bytes s d bs = Inr s' \<Longrightarrow> view s' = view s"
proof -
  show "kmemset s d b n = Inr s' \<Longrightarrow> view s' = view s"
    by (induction n arbitrary: s d) (auto simp: rbind_Inr_iff dest: view_kwrite)
  show "kmemcpy s d d' n = Inr s' \<Longrightarrow> view s' = view s"
    by (induction n arbitrary: s d d') (auto simp: rbind_Inr_iff dest: view_kwrite)
  show "kwrite_bytes s d bs = Inr s' \<Longrightarrow> view s' = view s"
    by (induction bs arbitrary: s d) (auto simp: rbind_Inr_iff dest: view_kwrite)
qed

lemma view_kwrite_u32: "kwrite_u32 s v x = Inr s' \<Longrightarrow> view s' = view s"
  by (auto simp: kwrite_u32_def rbind_Inr_iff split: list.splits dest!: view_kwrite)

lemma view_cpy:
  "vm_cpy_pp s d p n = Inr s' \<Longrightarrow> view s' = view s" "vm_cpy_pv s d p n = Inr s' \<Longrightarrow> view s' = view s"
  "vm_set_p s d b n = Inr s' \<Longrightarrow> view s' = view s"
  by (auto simp: vm_cpy_pp_def vm_cpy_pv_def vm_set_p_def rbind_Inr_iff dest!: view_km_addr view_kmem)

lemma view_user_to_kernel: "vm_user_to_kernel s pdir v n = Inr (a, s') \<Longrightarrow> view s' = view s"
  by (auto simp: vm_user_to_kernel_def dest!: view_km_addr view_resolveD split: prod.splits)

lemma view_map_string: "vm_map_string s pdir v w = Inr (a, l, s') \<Longrightarrow> view s' = view s"
  by (auto simp: vm_map_string_def rbind_Inr_iff dest!: view_km_addr view_resolveD view_user_to_kernel split: prod.splits)

lemmas view_frame = view_pairD view_get_ptab_entry view_resolveD view_map_page view_map_pages view_km_addr view_alloc view_kmem
  view_kwrite_u32 view_cpy view_user_to_kernel view_map_string

end

end
