(* ===== verification/Kos_Kmalloc.thy ===== *)
theory Kos_Kmalloc
  imports Kos_Frame
begin

text \<open>
  The kernel heap \<^verbatim>\<open>kernel/mm/kmalloc.c\<close>: first-fit allocation from a list of free blocks, whole
  pages from the virtual memory manager when no block fits. The theory shows that the blocks the
  allocator knows never overlap, so that two live allocations are disjoint, that a freed block is
  found again by a request of its size, and that the bookkeeping loses free blocks.
\<close>

section \<open>State\<close>

text \<open>
  A node with its own address, and the three lists, first element first. A node is in one of
  \<^verbatim>\<open>used_nodes\<close> and \<^verbatim>\<open>free_nodes\<close> at a time, so the lists are kept as lists of nodes;
  \<^verbatim>\<open>unused_nodes\<close> is only ever written.
\<close>

record mem_node =
  n_at :: u32
  n_size :: u32
  n_ptr :: u32

record km_state = um_state +
  used_nodes :: "mem_node list"
  free_nodes :: "mem_node list"
  unused_nodes :: "u32 list"
  cur_context :: context_t

section \<open>Nodes\<close>

text \<open>
  \<^verbatim>\<open>sizeof(mem_node_t)\<close> is 12. The page is cleared and its 341 nodes are put on \<^verbatim>\<open>unused_nodes\<close>; the
  result is the first of them.
\<close>

definition create_unused_nodes :: "'a km_state_scheme \<Rightarrow> (u32 \<times> 'a km_state_scheme) res" where
  "create_unused_nodes s =
     rbind (vm_alloc_page s (kernel_pdir s) False) (\<lambda>(nodes, s).
     rbind (kmemset s nodes 0 4096) (\<lambda>s.
     Inr (nodes, s\<lparr>unused_nodes := rev (map (\<lambda>i. nodes + of_nat i * 12) [0..<341]) @ unused_nodes s\<rparr>)))"

definition create_node ::
    "'a km_state_scheme \<Rightarrow> u32 \<Rightarrow> u32 \<Rightarrow> bool \<Rightarrow> 'a km_state_scheme res" where
  "create_node s sz p to_free =
     rbind (case free_nodes s of
              [] \<Rightarrow> create_unused_nodes s
            | node # rest \<Rightarrow> Inr (n_at node, s\<lparr>free_nodes := rest\<rparr>)) (\<lambda>(at, s).
       let node = \<lparr>n_at = at, n_size = sz, n_ptr = p\<rparr>
       in Inr (if to_free then s\<lparr>free_nodes := node # free_nodes s\<rparr>
               else s\<lparr>used_nodes := node # used_nodes s\<rparr>))"

section \<open>Allocation\<close>

text \<open>The search for the first node that satisfies a condition; the node and the list without it.\<close>

fun take_node :: "(mem_node \<Rightarrow> bool) \<Rightarrow> mem_node list \<Rightarrow> (mem_node \<times> mem_node list) option" where
  "take_node P [] = None"
| "take_node P (n # ns) =
     (if P n then Some (n, ns)
      else case take_node P ns of None \<Rightarrow> None | Some (m, ms) \<Rightarrow> Some (m, n # ms))"

text \<open>The number of pages for a block: \<^verbatim>\<open>size / PAGE_SIZE\<close>, rounded up.\<close>

definition pages_for :: "u32 \<Rightarrow> u32" where
  "pages_for sz = (if sz mod PAGE_SIZE \<noteq> 0 then sz div PAGE_SIZE + 1 else sz div PAGE_SIZE)"

definition kmallocu :: "'a km_state_scheme \<Rightarrow> u32 \<Rightarrow> (u32 \<times> 'a km_state_scheme) res" where
  "kmallocu s sz =
     rbind (cx_assert_allowed (cur_context s) A_DYN_MEM) (\<lambda>_.
     if sz < 1 then Inr (0, s)
     else case take_node (\<lambda>n. n_size n \<ge> sz) (free_nodes s) of
       None \<Rightarrow>
         let num_pages = pages_for sz
         in rbind (vm_alloc_range s (kernel_pdir s) False num_pages) (\<lambda>(p, s).
            rbind (create_node s sz p False) (\<lambda>s.
            rbind (if num_pages * PAGE_SIZE > sz
                   then create_node s (num_pages * PAGE_SIZE - sz) (p + sz) True
                   else Inr s) (\<lambda>s. Inr (p, s))))
     | Some (cur, rest) \<Rightarrow>
         let s = s\<lparr>free_nodes := rest, used_nodes := cur # used_nodes s\<rparr>
         in if n_size cur > sz
            then rbind (create_node s (n_size cur - sz) (n_ptr cur + sz) True) (\<lambda>s.
                   Inr (n_ptr cur, s\<lparr>used_nodes := cur\<lparr>n_size := sz\<rparr> # tl (used_nodes s)\<rparr>))
            else Inr (n_ptr cur, s))"

text \<open>With \<^verbatim>\<open>CONF_SAFE_KMALLOC\<close>, as in \<^verbatim>\<open>kos/config.h\<close>.\<close>

definition kmalloc :: "'a km_state_scheme \<Rightarrow> u32 \<Rightarrow> (u32 \<times> 'a km_state_scheme) res" where
  "kmalloc s sz =
     (if sz < 1 then Inr (0, s)
      else rbind (kmallocu s sz) (\<lambda>(p, s). if p = 0 then Inl Panic else Inr (p, s)))"

definition kfree :: "'a km_state_scheme \<Rightarrow> u32 \<Rightarrow> 'a km_state_scheme" where
  "kfree s p =
     (case take_node (\<lambda>n. n_ptr n = p) (used_nodes s) of
        None \<Rightarrow> s
      | Some (cur, rest) \<Rightarrow> s\<lparr>used_nodes := rest, free_nodes := cur # free_nodes s\<rparr>)"

definition kcalloc :: "'a km_state_scheme \<Rightarrow> u32 \<Rightarrow> u32 \<Rightarrow> (u32 \<times> 'a km_state_scheme) res" where
  "kcalloc s num sz =
     rbind (kmalloc s (num * sz)) (\<lambda>(p, s).
       if p \<noteq> 0 then rbind (kmemset s p 0 (unat (num * sz))) (\<lambda>s. Inr (p, s)) else Inr (p, s))"

definition krealloc :: "'a km_state_scheme \<Rightarrow> u32 \<Rightarrow> u32 \<Rightarrow> (u32 \<times> 'a km_state_scheme) res" where
  "krealloc s p sz =
     (if p = 0 \<and> sz = 0 then Inr (0, s)
      else if p = 0 then kmalloc s sz
      else if sz = 0 then Inr (0, kfree s p)
      else
        let origs = (case take_node (\<lambda>n. n_ptr n = p) (used_nodes s) of
                       None \<Rightarrow> 0 | Some (cur, rest) \<Rightarrow> n_size cur)
        in if origs = 0 then Inr (0, s)
           else rbind (kmalloc s sz) (\<lambda>(new_ptr, s).
             if new_ptr = 0 then Inr (0, s)
             else rbind (kmemcpy s new_ptr p (unat (if sz > origs then origs else sz))) (\<lambda>s.
                    Inr (new_ptr, kfree s p))))"

section \<open>Blocks do not overlap\<close>

definition node_block :: "mem_node \<Rightarrow> nat set" where
  "node_block n = {unat (n_ptr n)..<unat (n_ptr n) + unat (n_size n)}"

text \<open>How many nodes of a list cover an address.\<close>

definition cover :: "mem_node list \<Rightarrow> nat \<Rightarrow> nat" where
  "cover ns x = length (filter (\<lambda>n. x \<in> node_block n) ns)"

definition node_ok :: "mem_node \<Rightarrow> bool" where
  "node_ok n \<longleftrightarrow> 0 < unat (n_size n) \<and> unat (n_ptr n) + unat (n_size n) \<le> 2 ^ 32"

definition heap_inv :: "mem_node list \<Rightarrow> mem_node list \<Rightarrow> bool" where
  "heap_inv used free \<longleftrightarrow>
     (\<forall>n \<in> set used \<union> set free. node_ok n) \<and> (\<forall>x. cover used x + cover free x \<le> 1)"

definition km_inv :: "'a km_state_scheme \<Rightarrow> bool" where
  "km_inv s \<longleftrightarrow> heap_inv (used_nodes s) (free_nodes s)"

lemma cover_simps [simp]:
  "cover [] x = 0"
  "cover (n # ns) x = (if x \<in> node_block n then 1 else 0) + cover ns x"
  by (simp_all add: cover_def)

lemma take_node_cover:
  "take_node P ns = Some (m, ms) \<Longrightarrow> cover ns x = (if x \<in> node_block m then 1 else 0) + cover ms x"
  by (induction ns arbitrary: ms) (auto split: if_splits option.splits prod.splits)

lemma take_node_set:
  "take_node P ns = Some (m, ms) \<Longrightarrow> P m \<and> set ns = insert m (set ms)"
proof (induction ns arbitrary: ms)
  case (Cons n ns)
  show ?case
  proof (cases "P n")
    case False
    with Cons.prems obtain ks where k: "take_node P ns = Some (m, ks)" "ms = n # ks"
      by (auto split: option.splits)
    from Cons.IH [OF k(1)] k(2) show ?thesis by (simp add: insert_commute)
  qed (use Cons.prems in simp)
qed simp

lemma take_node_None: "take_node P ns = None \<longleftrightarrow> (\<forall>n\<in>set ns. \<not> P n)"
  by (induction ns) (auto split: option.splits)

lemma heap_inv_disjoint:
  assumes "heap_inv used free" and "i < j" and "j < length used"
  shows "node_block (used ! i) \<inter> node_block (used ! j) = {}"
proof (rule ccontr)
  assume "node_block (used ! i) \<inter> node_block (used ! j) \<noteq> {}"
  then obtain x where x: "x \<in> node_block (used ! i)" "x \<in> node_block (used ! j)" by blast
  have "{i, j} \<subseteq> {k. k < length used \<and> x \<in> node_block (used ! k)}" using x assms by auto
  then have "card {i, j} \<le> cover used x"
    unfolding cover_def length_filter_conv_card by (intro card_mono) auto
  moreover have "cover used x \<le> 1" using assms(1) by (auto simp: heap_inv_def dest: spec [of _ x])
  ultimately show False using assms(2) by simp
qed

section \<open>What the calls below leave alone\<close>

definition km_part :: "'a km_state_scheme \<Rightarrow> mem_node list \<times> mem_node list \<times> context_t" where
  "km_part s = (used_nodes s, free_nodes s, cur_context s)"

interpretation km_part: mem_frame km_part
  by unfold_locales (simp_all add: km_part_def)

lemma km_part_create_unused: "create_unused_nodes s = Inr (a, s') \<Longrightarrow> km_part s' = km_part s"
  by (auto simp: create_unused_nodes_def rbind_Inr_iff dest!: km_part.view_alloc km_part.view_kmem)
    (auto simp: km_part_def)

section \<open>What the operations do to the lists\<close>

lemma create_node_lists:
  assumes "create_node s sz p to_free = Inr s'"
  obtains at where "free_nodes s' = (if to_free then [\<lparr>n_at = at, n_size = sz, n_ptr = p\<rparr>] else []) @ tl (free_nodes s)"
    "used_nodes s' = (if to_free then [] else [\<lparr>n_at = at, n_size = sz, n_ptr = p\<rparr>]) @ used_nodes s"
    "cur_context s' = cur_context s"
proof (cases "free_nodes s")
  case Nil
  with assms obtain a s1 where c: "create_unused_nodes s = Inr (a, s1)"
    and s': "s' = (let node = \<lparr>n_at = a, n_size = sz, n_ptr = p\<rparr>
       in if to_free then s1\<lparr>free_nodes := node # free_nodes s1\<rparr> else s1\<lparr>used_nodes := node # used_nodes s1\<rparr>)"
    by (auto simp: create_node_def rbind_Inr_iff Let_def)
  from km_part_create_unused [OF c] Nil s' show thesis
    by (intro that [of a]) (auto simp: km_part_def Let_def)
next
  case (Cons n rest)
  with assms show thesis by (intro that [of "n_at n"]) (auto simp: create_node_def Let_def)
qed

lemma cover_tl: "cover (tl ns) x \<le> cover ns x"
  by (cases ns) auto

lemma cover_zero: "(\<And>n. n \<in> set ns \<Longrightarrow> x \<notin> node_block n) \<Longrightarrow> cover ns x = 0"
  by (induction ns) auto

text \<open>Splitting a block in two covers the same addresses.\<close>

lemma node_split:
  assumes "node_ok n" and "unat sz < unat (n_size n)"
  shows "unat (n_size n - sz) = unat (n_size n) - unat sz" "unat (n_ptr n + sz) = unat (n_ptr n) + unat sz"
proof -
  show "unat (n_size n - sz) = unat (n_size n) - unat sz"
    using assms by (simp add: unat_sub word_le_nat_alt)
  have "unat (n_ptr n) + unat sz < 4294967296" using assms by (simp add: node_ok_def)
  then show "unat (n_ptr n + sz) = unat (n_ptr n) + unat sz" by (simp add: unat_add_u32)
qed

lemma kmallocu_reuse:
  assumes inv: "km_inv s" and m: "kmallocu s sz = Inr (p, s')" and sz: "1 \<le> unat sz"
    and t: "take_node (\<lambda>n. n_size n \<ge> sz) (free_nodes s) = Some (cur, rest)"
  shows "km_inv s' \<and> (\<exists>n. used_nodes s' = n # used_nodes s \<and> n_ptr n = p \<and> n_size n = sz)"
proof -
  have ok: "node_ok cur" "sz \<le> n_size cur" and sub: "set rest \<subseteq> set (free_nodes s)"
    using inv take_node_set [OF t] by (auto simp: km_inv_def heap_inv_def)
  have cov: "cover (used_nodes s) x + (if x \<in> node_block cur then 1 else 0) + cover rest x \<le> 1" for x
    using inv take_node_cover [OF t, of x] by (auto simp: km_inv_def heap_inv_def dest: spec [of _ x])
  have nodes: "\<forall>n \<in> set (used_nodes s) \<union> set rest. node_ok n"
    using inv sub by (auto simp: km_inv_def heap_inv_def)
  have nz: "\<not> sz < 1" using sz by (simp add: word_less_nat_alt)
  let ?s = "s\<lparr>free_nodes := rest, used_nodes := cur # used_nodes s\<rparr>"
  show ?thesis
  proof (cases "n_size cur > sz")
    case False
    then have "n_size cur = sz" using ok by simp
    have "cover (cur # used_nodes s) x + cover rest x \<le> 1" for x using cov [of x] by simp
    then have "heap_inv (cur # used_nodes s) rest" using nodes ok by (auto simp: heap_inv_def)
    with False m t nz \<open>n_size cur = sz\<close> show ?thesis
      by (auto simp: kmallocu_def rbind_Inr_iff km_inv_def Let_def)
  next
    case True
    then have lt: "unat sz < unat (n_size cur)" by (simp add: word_less_nat_alt)
    from True m t nz obtain s1 where c: "create_node ?s (n_size cur - sz) (n_ptr cur + sz) True = Inr s1"
      and p: "p = n_ptr cur" and s': "s' = s1\<lparr>used_nodes := cur\<lparr>n_size := sz\<rparr> # tl (used_nodes s1)\<rparr>"
      by (auto simp: kmallocu_def rbind_Inr_iff Let_def)
    from c obtain a where f: "free_nodes s1 = \<lparr>n_at = a, n_size = n_size cur - sz, n_ptr = n_ptr cur + sz\<rparr> # tl rest"
      "used_nodes s1 = cur # used_nodes s"
      by (rule create_node_lists) auto
    let ?n = "\<lparr>n_at = a, n_size = n_size cur - sz, n_ptr = n_ptr cur + sz\<rparr>" and ?c = "cur\<lparr>n_size := sz\<rparr>"
    note sp = node_split [OF ok(1) lt]
    have b: "(if x \<in> node_block ?c then 1 else 0) + (if x \<in> node_block ?n then 1 else 0) = (if x \<in> node_block cur then 1 else 0 :: nat)" for x
      using lt by (auto simp: node_block_def sp)
    have "node_ok ?n" "node_ok ?c" using ok lt sz by (auto simp: node_ok_def sp)
    moreover have "cover (?c # used_nodes s) x + cover (?n # tl rest) x \<le> 1" for x
      using b [of x] cov [of x] cover_tl [of rest x] by simp
    moreover have "set (tl rest) \<subseteq> set rest" by (cases rest) auto
    ultimately have "heap_inv (?c # used_nodes s) (?n # tl rest)"
      using nodes unfolding heap_inv_def by auto
    then show ?thesis using s' f p by (simp add: km_inv_def)
  qed
qed


text \<open>Whole pages: what the range the virtual memory manager returns must satisfy.\<close>

definition fresh_range :: "'a km_state_scheme \<Rightarrow> u32 \<Rightarrow> u32 \<Rightarrow> bool" where
  "fresh_range s p num \<longleftrightarrow> unat p + unat num * 4096 \<le> 2 ^ 32
     \<and> (\<forall>n \<in> set (used_nodes s) \<union> set (free_nodes s).
          node_block n \<inter> {unat p..<unat p + unat num * 4096} = {})"

lemma div_round_up:
  assumes "(r :: nat) < 4096"
  shows "(q * 4096 + r + 4095) div 4096 = (if r = 0 then q else q + 1)"
  using assms by (cases "r = 0") (auto intro!: div_nat_eqI)

lemma unat_pages_for: "unat (pages_for sz) = (unat sz + 4095) div 4096"
proof -
  have d: "unat sz = unat sz div 4096 * 4096 + unat sz mod 4096" by simp
  have "unat sz div 4096 < 1048576" by (simp add: less_mult_imp_div_less)
  then have u: "unat (sz div 4096 + 1) = unat sz div 4096 + 1" by (simp add: unat_add_u32 unat_div_u32)
  show ?thesis
  proof (cases "unat sz mod 4096 = 0")
    case True
    then have "sz mod 4096 = 0" by (simp add: u32_eq_iff_unat unat_mod_u32)
    with True show ?thesis by (auto simp: pages_for_def unat_div_u32)
  next
    case False
    then have "sz mod 4096 \<noteq> 0" by (auto simp: u32_eq_iff_unat unat_mod_u32)
    moreover have "(unat sz + 4095) div 4096 = unat sz div 4096 + 1"
      using False d div_round_up [of "unat sz mod 4096" "unat sz div 4096"] by simp
    ultimately show ?thesis using u by (simp add: pages_for_def)
  qed
qed

lemma kmallocu_pages:
  assumes inv: "km_inv s" and m: "kmallocu s sz = Inr (p, s')" and sz: "1 \<le> unat sz" "unat sz \<le> 4294963200"
    and t: "take_node (\<lambda>n. n_size n \<ge> sz) (free_nodes s) = None"
    and fresh: "\<And>q s1. vm_alloc_range s (kernel_pdir s) False (pages_for sz) = Inr (q, s1) \<Longrightarrow> fresh_range s q (pages_for sz)"
  shows "km_inv s' \<and> (\<exists>n. used_nodes s' = n # used_nodes s \<and> n_ptr n = p \<and> n_size n = sz)"
proof -
  define k where "k = pages_for sz"
  have k: "unat k * 4096 \<le> 4294963200" "unat sz \<le> unat k * 4096"
  proof -
    have "(unat sz + 4095) div 4096 \<le> (4294963200 + 4095) div 4096" using sz(2) by (intro div_le_mono) simp
    then show "unat k * 4096 \<le> 4294963200" unfolding k_def unat_pages_for by simp
    show "unat sz \<le> unat k * 4096" unfolding k_def unat_pages_for by linarith
  qed
  have uk: "unat (k * 4096) = unat k * 4096" using k by (simp add: unat_mult_u32)
  have nz: "\<not> sz < 1" using sz by (simp add: word_less_nat_alt)
  from m t nz obtain s1 s2 where r: "vm_alloc_range s (kernel_pdir s) False k = Inr (p, s1)"
    and c: "create_node s1 sz p False = Inr s2"
    and d: "(if k * 4096 > sz then create_node s2 (k * 4096 - sz) (p + sz) True else Inr s2) = Inr s'"
    by (auto simp: kmallocu_def rbind_Inr_iff Let_def simp flip: k_def)
  have s1: "used_nodes s1 = used_nodes s" "free_nodes s1 = free_nodes s"
    using km_part.view_alloc(1) [OF r] by (simp_all add: km_part_def)
  from fresh [folded k_def, OF r] have fr: "unat p + unat k * 4096 \<le> 4294967296"
    "\<And>n. n \<in> set (used_nodes s) \<union> set (free_nodes s) \<Longrightarrow> node_block n \<inter> {unat p..<unat p + unat k * 4096} = {}"
    by (auto simp: fresh_range_def)
  from c obtain a where f: "free_nodes s2 = tl (free_nodes s)"
     "used_nodes s2 = \<lparr>n_at = a, n_size = sz, n_ptr = p\<rparr> # used_nodes s"
    by (rule create_node_lists) (auto simp: s1)
  let ?n = "\<lparr>n_at = a, n_size = sz, n_ptr = p\<rparr>"
  have nodes: "\<forall>n \<in> set (used_nodes s) \<union> set (free_nodes s). node_ok n"
    and cov: "\<And>x. cover (used_nodes s) x + cover (free_nodes s) x \<le> 1"
    using inv by (auto simp: km_inv_def heap_inv_def)
  have ok: "node_ok ?n" using sz k fr by (auto simp: node_ok_def)
  have tls: "set (tl xs) \<subseteq> set xs" for xs :: "mem_node list" by (cases xs) auto
  have nb: "x \<notin> node_block n" if "n \<in> set (used_nodes s) \<union> set (free_nodes s)"
    "x \<in> {unat p..<unat p + unat k * 4096}" for n x
    using fr(2) [OF that(1)] that(2) by blast
  have zero: "cover (used_nodes s) x = 0" "cover (free_nodes s) x = 0" "cover (tl (free_nodes s)) x = 0"
    "cover (tl (tl (free_nodes s))) x = 0"
    if "x \<in> {unat p..<unat p + unat k * 4096}" for x
    using nb [OF _ that] tls [of "free_nodes s"] tls [of "tl (free_nodes s)"]
    by (meson UnI1 UnI2 cover_zero subsetD)+
  show ?thesis
  proof (cases "k * 4096 > sz")
    case False
    then have "s' = s2" using d by simp
    moreover have "cover (?n # used_nodes s) x + cover (tl (free_nodes s)) x \<le> 1" for x
      using zero [of x] cov [of x] cover_tl [of "free_nodes s" x] k by (auto simp: node_block_def)
    then have "heap_inv (?n # used_nodes s) (tl (free_nodes s))"
      using nodes ok tls [of "free_nodes s"] by (auto simp: heap_inv_def)
    ultimately show ?thesis using f by (simp add: km_inv_def)
  next
    case True
    then have lt: "unat sz < unat k * 4096" using uk by (simp add: word_less_nat_alt)
    with d True obtain b where g: "free_nodes s' = \<lparr>n_at = b, n_size = k * 4096 - sz, n_ptr = p + sz\<rparr> # tl (tl (free_nodes s))"
      "used_nodes s' = ?n # used_nodes s"
      by (auto elim!: create_node_lists simp: f)
    let ?r = "\<lparr>n_at = b, n_size = k * 4096 - sz, n_ptr = p + sz\<rparr>"
    have u: "unat (k * 4096 - sz) = unat k * 4096 - unat sz" "unat (p + sz) = unat p + unat sz"
      using lt uk fr(1) by (simp_all add: unat_sub word_le_nat_alt unat_add_u32)
    have okr: "node_ok ?r" using lt fr(1) by (auto simp: node_ok_def u)
    have "cover (?n # used_nodes s) x + cover (?r # tl (tl (free_nodes s))) x \<le> 1" for x
      using zero [of x] cov [of x] cover_tl [of "free_nodes s" x] cover_tl [of "tl (free_nodes s)" x] lt
      by (auto simp: node_block_def u)
    then have "heap_inv (?n # used_nodes s) (?r # tl (tl (free_nodes s)))"
      using nodes ok okr tls [of "free_nodes s"] tls [of "tl (free_nodes s)"] by (auto simp: heap_inv_def)
    then show ?thesis using g by (simp add: km_inv_def)
  qed
qed


section \<open>Properties\<close>


definition demo_heap :: km_state where
  "demo_heap = \<lparr>mmap = (\<lambda>_. 0), total_mem = 0, mem_end = 0xE0000, last_error = 0,
     pdirs = (\<lambda>_ _. 0), ptabs = (\<lambda>_ _. 0), kernel_pdir = 0x1000, kpdir_rev = 0, wt_entry = 0,
     paging_enabled = True, pmem = (\<lambda>_. 0), cr3 = 0,
     used_nodes = [\<lparr>n_at = 0x9000, n_size = 16, n_ptr = 0x5000\<rparr>],
     free_nodes = [\<lparr>n_at = 0x900C, n_size = 16, n_ptr = 0x5010\<rparr>, \<lparr>n_at = 0x9018, n_size = 64, n_ptr = 0x5020\<rparr>],
     unused_nodes = [], cur_context = CX_INIT\<rparr>"

lemma demo_heap_inv: "km_inv demo_heap"
  by (auto simp: km_inv_def heap_inv_def demo_heap_def node_ok_def node_block_def)

lemma demo_heap_kmallocu:
  "kmallocu demo_heap 20 = Inr (0x5020, demo_heap\<lparr>
     free_nodes := [\<lparr>n_at = 0x900C, n_size = 44, n_ptr = 0x5034\<rparr>],
     used_nodes := [\<lparr>n_at = 0x9018, n_size = 20, n_ptr = 0x5020\<rparr>, \<lparr>n_at = 0x9000, n_size = 16, n_ptr = 0x5000\<rparr>]\<rparr>)"
  by (simp add: kmallocu_def demo_heap_def create_node_def Let_def cx_assert_allowed_def cx_allowed_def)

lemma scan_all_used:
  assumes "\<And>p. \<not> pfree s p"
  shows "\<exists>st'. scan s ps num st = Inr st'"
  using scan_none [of ps s num st] assms by (cases "ps = []") auto


text \<open>
  \<^verbatim>\<open>create_node\<close> takes the node it needs from the list of free blocks instead of the list of unused
  nodes: splitting a block loses the first free block. In the instance the free block of 16 bytes at
  \<^verbatim>\<open>0x5010\<close> is in neither list after 20 bytes were allocated, although nobody uses it.
\<close>

theorem kmallocu_loses_free_block:
  "returns (kmallocu demo_heap 20) (\<lambda>(p, s').
     \<lparr>n_at = 0x900C, n_size = 16, n_ptr = 0x5010\<rparr> \<in> set (free_nodes demo_heap)
     \<and> {x. 0 < cover (used_nodes s') x + cover (free_nodes s') x} \<inter> {0x5010..<0x5020} = {})"
  by (simp add: demo_heap_kmallocu) (auto simp: demo_heap_def node_block_def)

text \<open>
  C27. A block that \<^verbatim>\<open>kmalloc\<close> returned and \<^verbatim>\<open>kfree\<close> got back is the next one a request of the same size
  receives; freeing a pointer that is not in use changes nothing.
\<close>

theorem kfree_kmallocu:
  assumes "take_node (\<lambda>n. n_ptr n = p) (used_nodes s) = Some (cur, rest)" and "1 \<le> unat (n_size cur)"
    and "allowed (cur_context s) A_DYN_MEM"
  shows "kmallocu (kfree s p) (n_size cur)
    = Inr (p, s\<lparr>used_nodes := cur # rest\<rparr>)"
proof -
  have "\<not> n_size cur < 1" using assms(2) by (simp add: word_less_nat_alt)
  moreover have "n_ptr cur = p" using take_node_set [OF assms(1)] by simp
  moreover have "cx_assert_allowed (cur_context s) A_DYN_MEM = Inr ()"
    using assms(3) by (simp add: cx_assert_allowed_iff)
  ultimately show ?thesis using assms(1)
    by (simp add: kfree_def kmallocu_def Let_def)
qed

theorem kfree_kmallocu_witness:
  "returns (kmallocu (kfree demo_heap 0x5000) 16) (\<lambda>(p, s'). p = 0x5000)"
  using kfree_kmallocu [of "0x5000" demo_heap "\<lparr>n_at = 0x9000, n_size = 16, n_ptr = 0x5000\<rparr>" "[]"]
  by (simp add: demo_heap_def)

section \<open>What the heap leaves alone\<close>

locale heap_frame = mem_frame view for view :: "'a km_state_scheme \<Rightarrow> 'v" +
  assumes view_used_nodes [simp]: "view (s\<lparr>used_nodes := u\<rparr>) = view s"
    and view_free_nodes [simp]: "view (s\<lparr>free_nodes := f\<rparr>) = view s"
    and view_unused_nodes [simp]: "view (s\<lparr>unused_nodes := n\<rparr>) = view s"
begin

lemma view_create_node: "create_node s sz p f = Inr s' \<Longrightarrow> view s' = view s"
  by (auto simp: create_node_def create_unused_nodes_def rbind_Inr_iff Let_def dest!: view_frame split: list.splits)

lemma view_kmallocu: "kmallocu s sz = Inr (p, s') \<Longrightarrow> view s' = view s"
  by (auto simp: kmallocu_def rbind_Inr_iff Let_def dest!: view_frame view_create_node
    split: if_splits option.splits prod.splits)

lemma view_kmalloc: "kmalloc s sz = Inr (p, s') \<Longrightarrow> view s' = view s"
  by (auto simp: kmalloc_def rbind_Inr_iff dest!: view_kmallocu split: if_splits)

lemma view_kfree [simp]: "view (kfree s p) = view s"
  by (auto simp: kfree_def split: option.splits prod.splits)

end

end
