(* ===== verification/Kos_Addrspace.thy ===== *)
theory Kos_Addrspace
  imports Kos_Kmalloc
begin

text \<open>
  Address spaces as heap objects: \<^verbatim>\<open>vm_create_addrspace\<close>, \<^verbatim>\<open>vm_clone_addrspace\<close>,
  \<^verbatim>\<open>vm_select_addrspace\<close> and \<^verbatim>\<open>vm_destroy_addrspace\<close> of \<^verbatim>\<open>kernel/mm/util.c\<close>. They stand apart from the
  rest of that file because they use the kernel heap, which itself uses the rest of it.
\<close>

record addrspace =
  as_phys :: u32
  as_pdir :: u32

text \<open>The objects by the address \<^verbatim>\<open>kmalloc\<close> gave them.\<close>

record as_state = km_state +
  addrspaces :: "u32 \<Rightarrow> addrspace"

abbreviation (input) KERN_SPACE_END :: u32 where "KERN_SPACE_END \<equiv> 0x2FFFFFFF"
abbreviation (input) USER_STACK_ADDR :: u32 where "USER_STACK_ADDR \<equiv> 0xFFFF0000"

definition get_as :: "'a as_state_scheme \<Rightarrow> u32 \<Rightarrow> addrspace res" where
  "get_as s as = (if as = 0 then Inl Null_deref else Inr (addrspaces s as))"

text \<open>
  The new directory is cleared and then overwritten with the kernel's. A null result leaves the
  object it came from allocated.
\<close>

definition vm_create_addrspace :: "'a as_state_scheme \<Rightarrow> (u32 \<times> 'a as_state_scheme) res" where
  "vm_create_addrspace s =
     rbind (kmalloc s 8) (\<lambda>(as, s).
       case mm_alloc_page s of (phys, s) \<Rightarrow>
         let s = s\<lparr>addrspaces := (addrspaces s)(as := (addrspaces s as)\<lparr>as_phys := phys\<rparr>)\<rparr>
         in if phys = NO_PAGE then Inr (0, s)
            else rbind (km_alloc_addr s phys VM_COMMON_FLAGS PAGE_SIZE) (\<lambda>(pdir, s).
              let s = s\<lparr>addrspaces := (addrspaces s)(as := (addrspaces s as)\<lparr>as_pdir := pdir\<rparr>)\<rparr>;
                  s = s\<lparr>pdirs := (pdirs s)(pdir := (\<lambda>_. 0))\<rparr>;
                  s = s\<lparr>pdirs := (pdirs s)(pdir := pdirs s (kernel_pdir s))\<rparr>
              in Inr (as, s)))"

definition clone_entry ::
    "'a um_state_scheme \<Rightarrow> u32 \<Rightarrow> u32 \<Rightarrow> u32 \<Rightarrow> (bool \<times> 'a um_state_scheme) res" where
  "clone_entry s newpd vaddr pte =
     (case mm_alloc_page s of (newphys, s) \<Rightarrow>
        if newphys = NO_PAGE then Inr (False, s)
        else rbind (vm_force_map s newpd newphys vaddr (getflags pte)) (\<lambda>s.
             rbind (vm_cpy_pp s newphys (getaddr pte) PAGE_SIZE) (\<lambda>s. Inr (True, s))))"

text \<open>
  The loop over the pages below the break; \<open>n\<close> bounds its rounds. An address space has fewer than
  \<open>2 ^ 20\<close> pages above the kernel's.
\<close>

fun clone_loop ::
    "nat \<Rightarrow> 'a um_state_scheme \<Rightarrow> u32 \<Rightarrow> u32 \<Rightarrow> u32 \<Rightarrow> u32 \<Rightarrow> (bool \<times> 'a um_state_scheme) res" where
  "clone_loop n s newpd pdir addr brk =
     (if addr < brk
      then case n of
        0 \<Rightarrow> Inl Diverges
      | Suc n \<Rightarrow>
          (case get_ptab_entry s pdir addr of (pte, s) \<Rightarrow>
             if pte = 0 then clone_loop n s newpd pdir (addr + PAGE_SIZE) brk
             else rbind (clone_entry s newpd addr pte) (\<lambda>(ok, s).
                    if ok then clone_loop n s newpd pdir (addr + PAGE_SIZE) brk else Inr (False, s)))
      else Inr (True, s))"

definition vm_clone_addrspace ::
    "'a as_state_scheme \<Rightarrow> u32 \<Rightarrow> u32 \<Rightarrow> (u32 \<times> 'a as_state_scheme) res" where
  "vm_clone_addrspace s proc_brk_page as =
     rbind (vm_create_addrspace s) (\<lambda>(newas, s).
       if newas = 0 then Inr (0, s)
       else rbind (get_as s as) (\<lambda>old.
         let new = addrspaces s newas
         in rbind (clone_loop 1048576 s (as_pdir new) (as_pdir old) (KERN_SPACE_END + 1) proc_brk_page)
             (\<lambda>(ok, s).
               if \<not> ok then Inr (0, s)
               else case get_ptab_entry s (as_pdir old) (USER_STACK_ADDR - PAGE_SIZE) of (pte, s) \<Rightarrow>
                 if pte = 0 then Inr (newas, s)
                 else rbind (clone_entry s (as_pdir new) (USER_STACK_ADDR - PAGE_SIZE) pte)
                        (\<lambda>(ok, s). Inr (newas, s)))))"

definition vm_select_addrspace :: "'a as_state_scheme \<Rightarrow> u32 \<Rightarrow> 'a as_state_scheme res" where
  "vm_select_addrspace s as = rbind (get_as s as) (\<lambda>a. Inr (s\<lparr>cr3 := as_phys a\<rparr>))"

definition vm_destroy_addrspace :: "'a as_state_scheme \<Rightarrow> u32 \<Rightarrow> 'a as_state_scheme res" where
  "vm_destroy_addrspace s as =
     rbind (get_as s as) (\<lambda>a.
     rbind (km_free_addr s (as_pdir a) PAGE_SIZE) (\<lambda>s. Inr (kfree (mm_free_page s (as_phys a)) as)))"

section \<open>What address spaces leave alone\<close>

locale as_frame = heap_frame view for view :: "'a as_state_scheme \<Rightarrow> 'v" +
  assumes view_addrspaces [simp]: "view (s\<lparr>addrspaces := a\<rparr>) = view s"
    and view_cr3 [simp]: "view (s\<lparr>cr3 := c\<rparr>) = view s"
begin

lemma view_create_addrspace: "vm_create_addrspace s = Inr (as, s') \<Longrightarrow> view s' = view s"
  unfolding vm_create_addrspace_def Let_def by (auto elim!: resE dest!: view_frame view_kmalloc simp del: fun_upd_apply)

lemma view_clone_entry: "clone_entry s d v e = Inr (b, s') \<Longrightarrow> view s' = view s"
  unfolding clone_entry_def by (auto elim!: resE dest!: view_frame)

lemma view_clone_loop: "clone_loop n s d p v b = Inr (k, s') \<Longrightarrow> view s' = view s"
proof (induction n arbitrary: s v)
  case (Suc n)
  from Suc.prems show ?case
    unfolding clone_loop.simps [of "Suc n"] nat.case
    by (auto elim!: resE dest!: view_frame view_clone_entry Suc.IH simp del: clone_loop.simps)
qed (auto elim!: resE)

lemma view_clone_addrspace: "vm_clone_addrspace s b as = Inr (c, s') \<Longrightarrow> view s' = view s"
  unfolding vm_clone_addrspace_def Let_def
  by (auto elim!: resE dest!: view_frame view_create_addrspace view_clone_loop view_clone_entry simp del: clone_loop.simps)

lemma view_destroy_addrspace: "vm_destroy_addrspace s as = Inr s' \<Longrightarrow> view s' = view s"
  by (auto simp: vm_destroy_addrspace_def rbind_Inr_iff dest!: view_frame)

lemma view_select_addrspace: "vm_select_addrspace s as = Inr s' \<Longrightarrow> view s' = view s"
  by (auto simp: vm_select_addrspace_def rbind_Inr_iff)

end

end
