(* ===== verification/Kos_Pm.thy ===== *)
theory Kos_Pm
  imports Kos_Addrspace Kos_Ringbuffer
begin

text \<open>
  The scheduler of the process manager \<^verbatim>\<open>kernel/pm.c\<close> and the sleepers of \<^verbatim>\<open>kernel/timer.c\<close>. The
  run queue is a singly linked list through \<^verbatim>\<open>struct proc\<close> with a head and a tail pointer, and is
  kept that way, so that stale pointers show. The theory shows what each operation does to the
  queue, that scheduling is round robin and reaches every process in it, that no sleeper whose time
  has come is missed, and what happens when the last process of the queue is deactivated.
\<close>

section \<open>Processes\<close>

datatype proc_status = PS_SLOT_FREE | PS_READY | PS_RUNNING | PS_BLOCKED

datatype block_reason = BR_NOT_BLOCKED | BR_RECEIVING | BR_SLEEPING | BR_WAIT_FS | BR_INIT | BR_WAIT_PROC

datatype proc_mode = PM_KERNEL | PM_USER

record proc =
  p_pid :: u32
  p_parent :: u32
  p_status :: proc_status
  p_block :: block_reason
  p_wait_proc :: u32
  p_wait_for :: u32
  p_wakeup :: u32
  p_kstack_addr :: u32
  p_ustack_addr :: u32
  p_kstack :: u32
  p_esp :: u32
  p_mem_brk :: u32
  p_brk_page :: u32
  p_num_dyn :: u32
  p_as :: u32
  p_sc_regs :: u32
  p_cmdline_mapped :: bool
  p_cmdline :: u32
  p_exit_status :: u32
  p_ticks_left :: u32
  p_msg_waitbuf :: u32
  p_msgbuffer :: ringbuffer
  p_next :: ptr

text \<open>
  Process objects are static: pointers \<open>1\<close> to \<open>256\<close> are the elements of \<^verbatim>\<open>procs\<close>, \<open>257\<close> is
  \<^verbatim>\<open>_idle_proc\<close>. The message buffer is kept in the process, without the detour over its pointer.
  \<^verbatim>\<open>tty\<close>, \<^verbatim>\<open>fs_data\<close>, \<^verbatim>\<open>ldata\<close> and \<^verbatim>\<open>cleanup\<close> belong to the file system and the loader.
\<close>

abbreviation (input) MAX_PROCS :: nat where "MAX_PROCS \<equiv> 256"
abbreviation (input) idle_proc :: ptr where "idle_proc \<equiv> 257"
abbreviation (input) PROC_START_TICKS :: u32 where "PROC_START_TICKS \<equiv> 50"
abbreviation (input) PROC_MAX_TICKS :: u32 where "PROC_MAX_TICKS \<equiv> 100"

record pm_state = as_state +
  procs :: "ptr \<Rightarrow> proc"
  plist_head :: ptr
  plist_tail :: ptr
  cur_proc :: ptr
  last_proc :: ptr
  koop_mode :: bool
  next_pid :: u32
  tss_esp0 :: u32
  syscall_proc :: ptr
  kernel_addrspace :: u32
  timer_ticks :: u64
  next_wakeup :: u64

definition get_proc :: "'a pm_state_scheme \<Rightarrow> ptr \<Rightarrow> proc res" where
  "get_proc s p = (if p = NULL then Inl Null_deref else Inr (procs s p))"

definition upd_proc :: "'a pm_state_scheme \<Rightarrow> ptr \<Rightarrow> (proc \<Rightarrow> proc) \<Rightarrow> 'a pm_state_scheme res" where
  "upd_proc s p f =
     (if p = NULL then Inl Null_deref else Inr (s\<lparr>procs := (procs s)(p := f (procs s p))\<rparr>))"

section \<open>pm.c\<close>

definition newpid :: "'a pm_state_scheme \<Rightarrow> u32 \<times> 'a pm_state_scheme" where
  "newpid s = (next_pid s, s\<lparr>next_pid := next_pid s + 1\<rparr>)"

text \<open>The words \<^verbatim>\<open>prepare_stack\<close> pushes, the last one pushed first in the list.\<close>

definition prepare_stack :: "u32 \<Rightarrow> u32 \<Rightarrow> proc_mode \<Rightarrow> u32 list \<times> u32" where
  "prepare_stack kstack entry mode =
     (let code_seg = (if mode = PM_USER then 0x18 + 3 else 0x08);
          data_seg = (if mode = PM_USER then 0x20 + 3 else 0x10);
          pushed = (if mode = PM_USER then [data_seg, 0xFFFF0000] else [])
            @ [0x0202, code_seg, entry, 0, 0, data_seg, data_seg, data_seg, data_seg,
               0, 0, 0, 0, 0, 0, 0, 0]
      in (rev pushed, kstack - 4 * of_nat (length pushed)))"

definition get_empty_proc :: "'a pm_state_scheme \<Rightarrow> ptr" where
  "get_empty_proc s =
     (case List.find (\<lambda>p. p_status (procs s p) = PS_SLOT_FREE) [1..<MAX_PROCS + 1] of
        None \<Rightarrow> NULL | Some p \<Rightarrow> p)"

definition pm_get_proc :: "'a pm_state_scheme \<Rightarrow> u32 \<Rightarrow> ptr" where
  "pm_get_proc s pid =
     (case List.find (\<lambda>p. p_pid (procs s p) = pid) [1..<MAX_PROCS + 1] of None \<Rightarrow> NULL | Some p \<Rightarrow> p)"

definition pm_activate :: "'a pm_state_scheme \<Rightarrow> ptr \<Rightarrow> 'a pm_state_scheme res" where
  "pm_activate s p =
     (let s = (if plist_head s = NULL then s\<lparr>plist_head := p\<rparr> else s)
      in rbind (if plist_tail s = NULL then Inr (s\<lparr>plist_tail := p\<rparr>)
                else upd_proc s (plist_tail s) (p_next_update (\<lambda>_. p))) (\<lambda>s.
         upd_proc (s\<lparr>plist_tail := p\<rparr>) p (p_next_update (\<lambda>_. NULL))))"

definition pm_schedule :: "'a pm_state_scheme \<Rightarrow> 'a pm_state_scheme res" where
  "pm_schedule s =
     rbind (upd_proc s (cur_proc s) (\<lambda>p.
       let t = p_ticks_left p + PROC_START_TICKS
       in p\<lparr>p_ticks_left := (if t > PROC_MAX_TICKS then PROC_MAX_TICKS else t),
            p_status := (if p_status p = PS_RUNNING then PS_READY else p_status p)\<rparr>)) (\<lambda>s.
     rbind (upd_proc s (plist_tail s) (p_next_update (\<lambda>_. plist_head s))) (\<lambda>s.
     rbind (get_proc s (plist_head s)) (\<lambda>h.
     rbind (upd_proc (s\<lparr>plist_tail := plist_head s, plist_head := p_next h\<rparr>) (plist_head s)
              (p_next_update (\<lambda>_. NULL))) (\<lambda>s.
     let s = s\<lparr>cur_proc := plist_head s\<rparr>
     in if cur_proc s \<noteq> NULL
        then upd_proc s (cur_proc s) (p_status_update (\<lambda>_. PS_RUNNING))
        else Inr (s\<lparr>cur_proc := idle_proc\<rparr>)))))"

text \<open>
  The walk of \<^verbatim>\<open>pm_deactivate\<close>: \<open>(prev, cur)\<close> at its end. More rounds than there are process objects
  means a cycle.
\<close>

fun find_prev :: "nat \<Rightarrow> 'a pm_state_scheme \<Rightarrow> ptr \<Rightarrow> ptr \<Rightarrow> ptr \<Rightarrow> (ptr \<times> ptr) res" where
  "find_prev n s p prev cur =
     (if cur \<noteq> NULL \<and> cur \<noteq> p
      then case n of 0 \<Rightarrow> Inl Diverges | Suc n \<Rightarrow> find_prev n s p cur (p_next (procs s cur))
      else Inr (prev, cur))"

definition pm_deactivate :: "'a pm_state_scheme \<Rightarrow> ptr \<Rightarrow> 'a pm_state_scheme res" where
  "pm_deactivate s p =
     rbind (find_prev 1024 s p NULL (plist_head s)) (\<lambda>(prev, cur).
     rbind (get_proc s cur) (\<lambda>c.
     rbind (if prev \<noteq> NULL then upd_proc s prev (p_next_update (\<lambda>_. p_next c))
            else Inr (s\<lparr>plist_head := p_next c\<rparr>)) (\<lambda>s.
     if p = cur_proc s then pm_schedule s else Inr s)))"

text \<open>
  \<^verbatim>\<open>--ticks_left <= 0\<close> on an unsigned counter holds only when it reaches 0; the decrement happens
  only when the tests before it let it.
\<close>

definition pm_update :: "'a pm_state_scheme \<Rightarrow> 'a pm_state_scheme res" where
  "pm_update s =
     (if cur_proc s = NULL \<or> p_status (procs s (cur_proc s)) \<noteq> PS_READY then pm_schedule s
      else if koop_mode s then Inr s
      else rbind (upd_proc s (cur_proc s) (\<lambda>p. p\<lparr>p_ticks_left := p_ticks_left p - 1\<rparr>)) (\<lambda>s.
             if p_ticks_left (procs s (cur_proc s)) = 0 then pm_schedule s else Inr s))"

definition pm_pick :: "'a pm_state_scheme \<Rightarrow> u32 \<Rightarrow> (u32 \<times> 'a pm_state_scheme) res" where
  "pm_pick s esp =
     rbind (get_proc s (cur_proc s)) (\<lambda>c.
     rbind (vm_select_addrspace s (p_as c)) (\<lambda>s.
       if cur_proc s \<noteq> last_proc s
       then Inr (p_esp c, s\<lparr>tss_esp0 := p_kstack c, last_proc := cur_proc s\<rparr>)
       else Inr (esp, s)))"

definition pm_restore :: "'a pm_state_scheme \<Rightarrow> u32 \<Rightarrow> 'a pm_state_scheme res" where
  "pm_restore s esp =
     rbind (vm_select_addrspace s (kernel_addrspace s)) (\<lambda>s.
     rbind (kassert (cur_proc s \<noteq> NULL)) (\<lambda>_.
       upd_proc s (cur_proc s) (\<lambda>p. p\<lparr>p_esp := esp\<rparr>)))"

definition pm_block :: "'a pm_state_scheme \<Rightarrow> ptr \<Rightarrow> block_reason \<Rightarrow> (bool \<times> 'a pm_state_scheme) res" where
  "pm_block s p reason =
     rbind (get_proc s p) (\<lambda>c.
       if p_status c = PS_BLOCKED then Inr (False, s)
       else rbind (upd_proc s p (\<lambda>c. c\<lparr>p_status := PS_BLOCKED, p_block := reason\<rparr>)) (\<lambda>s.
            rbind (pm_deactivate s p) (\<lambda>s. Inr (True, s))))"

definition pm_unblock :: "'a pm_state_scheme \<Rightarrow> ptr \<Rightarrow> 'a pm_state_scheme res" where
  "pm_unblock s p =
     rbind (upd_proc s p (\<lambda>c. c\<lparr>p_status := PS_READY, p_block := BR_NOT_BLOCKED\<rparr>)) (\<lambda>s. pm_activate s p)"

definition pm_is_blocked_for :: "'a pm_state_scheme \<Rightarrow> ptr \<Rightarrow> block_reason \<Rightarrow> bool res" where
  "pm_is_blocked_for s p reason =
     rbind (get_proc s p) (\<lambda>c. Inr (p_status c = PS_BLOCKED \<and> p_block c = reason))"

definition pm_set_koop :: "'a pm_state_scheme \<Rightarrow> bool \<Rightarrow> 'a pm_state_scheme" where
  "pm_set_koop s mode = s\<lparr>koop_mode := mode\<rparr>"

definition pm_get_koop :: "'a pm_state_scheme \<Rightarrow> bool" where
  "pm_get_koop s = koop_mode s"

definition sys_yield :: "'a pm_state_scheme \<Rightarrow> (u32 \<times> 'a pm_state_scheme) res" where
  "sys_yield s = rbind (pm_schedule s) (\<lambda>s. Inr (0, s))"

definition sys_waitpid :: "'a pm_state_scheme \<Rightarrow> u32 \<Rightarrow> (u32 \<times> 'a pm_state_scheme) res" where
  "sys_waitpid s pid =
     (let p = pm_get_proc s pid
      in rbind (get_proc s p) (\<lambda>c.
         if p_status c = PS_SLOT_FREE \<or> p_wait_proc c \<noteq> 0 then Inr (- 1, s)
         else rbind (get_proc s (syscall_proc s)) (\<lambda>me.
              rbind (upd_proc s p (\<lambda>c. c\<lparr>p_wait_proc := p_pid me\<rparr>)) (\<lambda>s.
              rbind (upd_proc s (syscall_proc s) (\<lambda>c. c\<lparr>p_wait_for := pid\<rparr>)) (\<lambda>s.
              rbind (pm_block s (syscall_proc s) BR_WAIT_PROC) (\<lambda>(b, s). Inr (0, s)))))))"

definition sys_getpid :: "'a pm_state_scheme \<Rightarrow> u32 res" where
  "sys_getpid s = rbind (get_proc s (syscall_proc s)) (\<lambda>c. Inr (p_pid c))"

section \<open>timer.c\<close>

abbreviation (input) TIMER_HZ :: u32 where "TIMER_HZ \<equiv> 100"

text \<open>The loop of \<^verbatim>\<open>timer_irq\<close> over all process slots.\<close>

fun wake_procs :: "'a pm_state_scheme \<Rightarrow> ptr list \<Rightarrow> 'a pm_state_scheme res" where
  "wake_procs s [] = Inr s"
| "wake_procs s (p # ps) =
     (let w = p_wakeup (procs s p)
      in if w \<noteq> 0
         then if ucast w \<le> timer_ticks s
              then rbind (upd_proc s p (\<lambda>c. c\<lparr>p_wakeup := 0\<rparr>)) (\<lambda>s.
                   rbind (pm_unblock s p) (\<lambda>s. wake_procs s ps))
              else wake_procs (if ucast w < next_wakeup s then s\<lparr>next_wakeup := ucast w\<rparr> else s) ps
         else wake_procs s ps)"

definition timer_irq :: "'a pm_state_scheme \<Rightarrow> 'a pm_state_scheme res" where
  "timer_irq s =
     (let s = s\<lparr>timer_ticks := timer_ticks s + 1\<rparr>
      in rbind (if timer_ticks s \<ge> next_wakeup s
                then wake_procs (s\<lparr>next_wakeup := 0xFFFFFFFFFFFFFFFF\<rparr>) [1..<MAX_PROCS + 1]
                else Inr s) pm_update)"

text \<open>\<^verbatim>\<open>msec * TIMER_HZ/1000\<close> is 32-bit arithmetic, the sum is truncated to 32 bits.\<close>

definition timer_sleep :: "'a pm_state_scheme \<Rightarrow> ptr \<Rightarrow> u32 \<Rightarrow> 'a pm_state_scheme res" where
  "timer_sleep s p msec =
     rbind (pm_block s p BR_SLEEPING) (\<lambda>(blocked, s).
       if blocked
       then let wakeup = ucast (timer_ticks s + ucast (msec * TIMER_HZ div 1000))
            in rbind (upd_proc s p (\<lambda>c. c\<lparr>p_wakeup := wakeup\<rparr>)) (\<lambda>s.
                 Inr (if next_wakeup s > ucast wakeup then s\<lparr>next_wakeup := ucast wakeup\<rparr> else s))
       else Inr s)"

definition sys_sleep :: "'a pm_state_scheme \<Rightarrow> u32 \<Rightarrow> (u32 \<times> 'a pm_state_scheme) res" where
  "sys_sleep s msec = rbind (timer_sleep s (cur_proc s) msec) (\<lambda>s. Inr (0, s))"

section \<open>The run queue\<close>

text \<open>\<open>pseg pr p xs q\<close>: following \<^verbatim>\<open>next\<close> from \<open>p\<close> visits \<open>xs\<close> and arrives at \<open>q\<close>.\<close>

fun pseg :: "(ptr \<Rightarrow> proc) \<Rightarrow> ptr \<Rightarrow> ptr list \<Rightarrow> ptr \<Rightarrow> bool" where
  "pseg pr p [] q \<longleftrightarrow> p = q"
| "pseg pr p (x # xs) q \<longleftrightarrow> p = x \<and> x \<noteq> NULL \<and> pseg pr (p_next (pr x)) xs q"

definition is_proc :: "ptr \<Rightarrow> bool" where
  "is_proc p \<longleftrightarrow> 1 \<le> p \<and> p \<le> 257"

definition run_queue :: "'a pm_state_scheme \<Rightarrow> ptr list \<Rightarrow> bool" where
  "run_queue s ps \<longleftrightarrow>
     distinct ps \<and> list_all is_proc ps \<and> pseg (procs s) (plist_head s) ps NULL
     \<and> plist_tail s = (if ps = [] then NULL else last ps)"

text \<open>Between two operations the current process is the head of the queue.\<close>

definition sched_inv :: "'a pm_state_scheme \<Rightarrow> ptr list \<Rightarrow> bool" where
  "sched_inv s ps \<longleftrightarrow> run_queue s ps \<and> ps \<noteq> [] \<and> cur_proc s = hd ps"

lemma pseg_append [simp]: "pseg pr p (xs @ ys) q \<longleftrightarrow> (\<exists>r. pseg pr p xs r \<and> pseg pr r ys q)"
  by (induction xs arbitrary: p) auto

lemma pseg_nonnull: "pseg pr p xs q \<Longrightarrow> x \<in> set xs \<Longrightarrow> x \<noteq> NULL"
  by (induction xs arbitrary: p) auto

lemma pseg_hd: "pseg pr p xs NULL \<Longrightarrow> p = (if xs = [] then NULL else hd xs)"
  by (cases xs) auto

lemma pseg_cong: "(\<And>x. x \<in> set xs \<Longrightarrow> p_next (pr' x) = p_next (pr x)) \<Longrightarrow> pseg pr' p xs q = pseg pr p xs q"
  by (induction xs arbitrary: p) auto

lemma pseg_upd [simp]: "x \<notin> set xs \<Longrightarrow> pseg (pr(x := c)) p xs q = pseg pr p xs q"
  by (rule pseg_cong) auto

lemma pseg_upd_same [simp]: "p_next c = p_next (pr x) \<Longrightarrow> pseg (pr(x := c)) p xs q = pseg pr p xs q"
  by (rule pseg_cong) simp

lemma run_queue_cong:
  "(\<And>x. p_next (procs t x) = p_next (procs s x)) \<Longrightarrow> plist_head t = plist_head s \<Longrightarrow>
     plist_tail t = plist_tail s \<Longrightarrow> run_queue t ps = run_queue s ps"
  by (simp add: run_queue_def pseg_cong [of ps "procs t" "procs s"])

lemma is_proc_nonnull [simp]: "is_proc p \<Longrightarrow> p \<noteq> NULL" "\<not> is_proc NULL"
  by (simp_all add: is_proc_def)

lemma run_queue_length: "run_queue s ps \<Longrightarrow> length ps \<le> 257"
proof -
  assume "run_queue s ps"
  then have "distinct ps" "set ps \<subseteq> {1..257}" by (auto simp: run_queue_def list_all_iff is_proc_def)
  then show ?thesis using card_mono [of "{1..257}" "set ps"] by (simp add: distinct_card)
qed

lemma run_queue_nonnull: "run_queue s ps \<Longrightarrow> p \<in> set ps \<Longrightarrow> p \<noteq> NULL"
  by (auto simp: run_queue_def dest: pseg_nonnull)

lemma run_queue_ends:
  "run_queue s ps \<Longrightarrow> ps \<noteq> [] \<Longrightarrow> plist_head s = hd ps \<and> plist_tail s = last ps \<and> hd ps \<noteq> NULL \<and> last ps \<noteq> NULL"
  using run_queue_nonnull [of s ps] by (auto simp: run_queue_def dest: pseg_hd)

text \<open>Appending to the linked list.\<close>

lemma pseg_link:
  assumes "pseg pr p (xs @ [l]) NULL" "distinct (xs @ [l])" "x \<notin> set (xs @ [l])" "x \<noteq> NULL"
    "p_next c = x" "p_next d = NULL"
  shows "pseg (pr(l := c, x := d)) p (xs @ [l, x]) NULL"
  using assms by auto

definition same_but_next :: "proc \<Rightarrow> proc \<Rightarrow> bool" where
  "same_but_next c d \<longleftrightarrow> c\<lparr>p_next := NULL\<rparr> = d\<lparr>p_next := NULL\<rparr>"

lemma same_but_next_upd [simp]: "same_but_next c c" "same_but_next (c\<lparr>p_next := x\<rparr>) c"
  by (simp_all add: same_but_next_def)

lemma same_but_nextD:
  assumes "same_but_next c d"
  shows "p_status c = p_status d" "p_wakeup c = p_wakeup d" "p_block c = p_block d"
proof -
  have e: "c\<lparr>p_next := NULL\<rparr> = d\<lparr>p_next := NULL\<rparr>" using assms by (simp add: same_but_next_def)
  show "p_status c = p_status d" using arg_cong [OF e, of p_status] by simp
  show "p_wakeup c = p_wakeup d" using arg_cong [OF e, of p_wakeup] by simp
  show "p_block c = p_block d" using arg_cong [OF e, of p_block] by simp
qed

lemma pm_activate_appends:
  assumes q: "run_queue s ps" and p: "p \<notin> set ps" "is_proc p"
  shows "returns (pm_activate s p) (\<lambda>t. run_queue t (ps @ [p]) \<and> (\<forall>x. same_but_next (procs t x) (procs s x))
      \<and> t = s\<lparr>procs := procs t, plist_head := plist_head t, plist_tail := plist_tail t\<rparr>)"
proof (cases ps rule: rev_cases)
  case Nil
  with q p show ?thesis by (simp add: run_queue_def pm_activate_def upd_proc_def)
next
  case (snoc xs l)
  have p0: "p \<noteq> NULL" using p by auto
  from run_queue_ends [OF q] snoc have e: "plist_head s \<noteq> NULL" "plist_tail s = l" "l \<noteq> NULL" by auto
  have pl: "p \<noteq> l" using p snoc by auto
  from q snoc have "pseg (procs s) (plist_head s) (xs @ [l]) NULL" "distinct (xs @ [l])"
    by (simp_all add: run_queue_def)
  from pseg_link [OF this, of p] p p0 snoc e pl show ?thesis
    using q by (simp add: run_queue_def pm_activate_def upd_proc_def)
qed

text \<open>What \<^verbatim>\<open>pm_schedule\<close> does to the process that leaves the processor.\<close>

definition preempted :: "proc \<Rightarrow> proc" where
  "preempted p =
     (let t = p_ticks_left p + PROC_START_TICKS
      in p\<lparr>p_ticks_left := (if t > PROC_MAX_TICKS then PROC_MAX_TICKS else t),
           p_status := (if p_status p = PS_RUNNING then PS_READY else p_status p)\<rparr>)"

lemma preempted_simps [simp]: "p_next (preempted p) = p_next p" "p_wakeup (preempted p) = p_wakeup p"
  by (simp_all add: preempted_def Let_def)

lemma pm_schedule_eq:
  assumes "cur_proc s \<noteq> NULL" "plist_tail s \<noteq> NULL" "plist_head s \<noteq> NULL"
    and pr2: "pr2 = (let pr1 = (procs s)(cur_proc s := preempted (procs s (cur_proc s)))
         in pr1(plist_tail s := (pr1 (plist_tail s))\<lparr>p_next := plist_head s\<rparr>))"
    and nh: "nh = p_next (pr2 (plist_head s))"
    and pr3: "pr3 = pr2(plist_head s := (pr2 (plist_head s))\<lparr>p_next := NULL\<rparr>)"
  shows "pm_schedule s = Inr (s\<lparr>procs := if nh = NULL then pr3 else pr3(nh := (pr3 nh)\<lparr>p_status := PS_RUNNING\<rparr>),
      plist_tail := plist_head s, plist_head := nh, cur_proc := if nh = NULL then idle_proc else nh\<rparr>)"
  using assms(1-3) nh unfolding pm_schedule_def pr3 pr2 preempted_def [symmetric]
  by (simp add: upd_proc_def get_proc_def Let_def)

text \<open>The effect on the processes, apart from the links between them.\<close>

definition sched_effect :: "'a pm_state_scheme \<Rightarrow> 'a pm_state_scheme \<Rightarrow> bool" where
  "sched_effect s t \<longleftrightarrow> (\<forall>x. p_wakeup (procs t x) = p_wakeup (procs s x) \<and> p_block (procs t x) = p_block (procs s x)
     \<and> p_status (procs t x) =
         (if x = cur_proc t then PS_RUNNING
          else p_status (if x = cur_proc s then preempted (procs s x) else procs s x))
     \<and> p_ticks_left (procs t x) =
          p_ticks_left (if x = cur_proc s then preempted (procs s x) else procs s x))"

lemma pm_schedule_rotates:
  assumes q: "run_queue s (p # ps)" and c: "cur_proc s \<noteq> NULL"
  shows "returns (pm_schedule s) (\<lambda>t. sched_inv t (ps @ [p]) \<and> sched_effect s t
      \<and> t = s\<lparr>procs := procs t, plist_head := plist_head t, plist_tail := plist_tail t, cur_proc := cur_proc t\<rparr>)"
proof -
  from run_queue_ends [OF q] have e: "plist_head s = p" "p \<noteq> NULL" "plist_tail s = last (p # ps)" "plist_tail s \<noteq> NULL"
    by simp_all
  define pr1 where "pr1 = (procs s)(cur_proc s := preempted (procs s (cur_proc s)))"
  define pr2 where "pr2 = pr1(plist_tail s := (pr1 (plist_tail s))\<lparr>p_next := plist_head s\<rparr>)"
  define nh where "nh = p_next (pr2 (plist_head s))"
  define pr3 where "pr3 = pr2(plist_head s := (pr2 (plist_head s))\<lparr>p_next := NULL\<rparr>)"
  define pr4 where "pr4 = pr3(nh := (pr3 nh)\<lparr>p_status := PS_RUNNING\<rparr>)"
  have seg: "pseg pr1 p (p # ps) NULL" "distinct (p # ps)" "list_all is_proc (p # ps)"
    using q e by (auto simp: run_queue_def pr1_def)
  have main: "nh = hd (ps @ [p]) \<and> nh \<noteq> NULL \<and> pseg pr3 nh (ps @ [p]) NULL"
  proof (cases ps rule: rev_cases)
    case Nil
    with e seg show ?thesis by (simp add: nh_def pr2_def pr3_def)
  next
    case (snoc xs l)
    have pl: "p \<noteq> l" "plist_tail s = l" using seg snoc e by auto
    from seg snoc have *: "pseg pr1 (p_next (pr1 p)) (xs @ [l]) NULL" "distinct (xs @ [l])" "p \<notin> set (xs @ [l])" by auto
    from pseg_hd [OF *(1)] pseg_nonnull [OF *(1)] have "p_next (pr1 p) = hd ps" "hd ps \<noteq> NULL" using snoc
      by (metis snoc_eq_iff_butlast, metis hd_in_set snoc_eq_iff_butlast)
    moreover have "nh = p_next (pr1 p)" using pl e by (simp add: nh_def pr2_def)
    moreover have "pseg pr3 (p_next (pr1 p)) (xs @ [l, p]) NULL"
      unfolding pr3_def pr2_def e(1) pl(2)
      by (rule pseg_link [OF *]) (simp_all add: e)
    ultimately show ?thesis using snoc by (cases xs) simp_all
  qed
  have sch: "pm_schedule s = Inr (s\<lparr>procs := pr4, plist_tail := plist_head s, plist_head := nh, cur_proc := nh\<rparr>)"
    using pm_schedule_eq [OF c e(4) _ _ nh_def pr3_def] e main by (simp add: pr4_def pr2_def pr1_def Let_def)
  have "pseg pr4 nh (ps @ [p]) NULL" using main unfolding pr4_def by (subst pseg_upd_same) auto
  then have "sched_inv (s\<lparr>procs := pr4, plist_tail := plist_head s, plist_head := nh, cur_proc := nh\<rparr>) (ps @ [p])"
    using seg main e by (auto simp: sched_inv_def run_queue_def)
  moreover have "sched_effect s (s\<lparr>procs := pr4, plist_tail := plist_head s, plist_head := nh, cur_proc := nh\<rparr>)"
    by (simp add: sched_effect_def pr4_def pr3_def pr2_def pr1_def preempted_def Let_def)
  ultimately show ?thesis unfolding sch by simp
qed

section \<open>Round robin\<close>

fun schedules :: "('s \<Rightarrow> 's res) \<Rightarrow> nat \<Rightarrow> 's \<Rightarrow> 's res" where
  "schedules f 0 s = Inr s"
| "schedules f (Suc n) s = rbind (f s) (schedules f n)"

locale round_robin =
  fixes queue :: "'s \<Rightarrow> 'p list \<Rightarrow> bool"
    and current :: "'s \<Rightarrow> 'p"
    and schedule :: "'s \<Rightarrow> 's res"
  assumes current_head: "queue s ps \<Longrightarrow> ps \<noteq> [] \<and> current s = hd ps"
    and rotates: "queue s ps \<Longrightarrow> returns (schedule s) (\<lambda>t. queue t (rotate1 ps))"
begin

lemma schedules_rotate: "queue s ps \<Longrightarrow> returns (schedules schedule n s) (\<lambda>t. queue t (rotate n ps))"
proof (induction n arbitrary: s ps)
  case (Suc n)
  from rotates [OF Suc.prems] obtain t where t: "schedule s = Inr t" "queue t (rotate1 ps)" by (rule returnsE)
  from Suc.IH [OF t(2)] t(1) show ?case by (simp add: rotate1_rotate_swap)
qed simp

lemma turn: "queue s ps \<Longrightarrow> returns (schedules schedule n s) (\<lambda>t. queue t (rotate n ps) \<and> current t = ps ! (n mod length ps))"
proof (rule returns_mono [OF schedules_rotate])
  fix t assume q: "queue s ps" and t: "queue t (rotate n ps)"
  from current_head [OF t] show "queue t (rotate n ps) \<and> current t = ps ! (n mod length ps)"
    using t by (simp add: hd_rotate_conv_nth)
qed

end

interpretation rr: round_robin sched_inv cur_proc pm_schedule
proof
  fix s :: "'a pm_state_scheme" and ps
  assume s: "sched_inv s ps"
  then show "ps \<noteq> [] \<and> cur_proc s = hd ps" by (simp add: sched_inv_def)
  from s obtain p qs where ps: "ps = p # qs" and q: "run_queue s (p # qs)" and c: "cur_proc s \<noteq> NULL"
    by (cases ps) (auto simp: sched_inv_def dest: run_queue_nonnull)
  show "returns (pm_schedule s) (\<lambda>t. sched_inv t (rotate1 ps))"
    using returns_mono [OF pm_schedule_rotates [OF q c]] ps by simp
qed

section \<open>Blocking and waking\<close>

lemma find_prev_found:
  "pseg (procs s) cur (xs @ p # ys) q \<Longrightarrow> p \<notin> set xs \<Longrightarrow> length xs \<le> n \<Longrightarrow>
     find_prev n s p prev cur = Inr (if xs = [] then prev else last xs, p)"
proof (induction xs arbitrary: n prev cur)
  case (Cons x xs)
  then obtain m where "n = Suc m" by (cases n) auto
  with Cons show ?case by (subst find_prev.simps) auto
qed (simp add: find_prev.simps)

declare find_prev.simps [simp del]

lemma pm_deactivate_unlinks:
  assumes q: "run_queue s (xs @ p # ys)" and u: "u = (if xs = [] then s\<lparr>plist_head := p_next (procs s p)\<rparr>
        else s\<lparr>procs := (procs s)(last xs := (procs s (last xs))\<lparr>p_next := p_next (procs s p)\<rparr>)\<rparr>)"
  shows "pm_deactivate s p = (if p = cur_proc s then pm_schedule u else Inr u)
     \<and> pseg (procs u) (plist_head u) (xs @ ys) NULL"
proof -
  from q have seg: "pseg (procs s) (plist_head s) (xs @ p # ys) NULL" and d: "distinct (xs @ p # ys)"
    and p0: "p \<noteq> NULL" by (auto simp: run_queue_def)
  have l: "length xs \<le> 1024" using run_queue_length [OF q] by simp
  from find_prev_found [OF seg _ l, of NULL] d
  have f: "find_prev 1024 s p NULL (plist_head s) = Inr (if xs = [] then NULL else last xs, p)" by simp
  show ?thesis
  proof (cases xs rule: rev_cases)
    case Nil
    with f p0 u seg show ?thesis by (simp add: pm_deactivate_def get_proc_def)
  next
    case (snoc zs z)
    with seg d have "z \<noteq> NULL" "z \<notin> set zs" "z \<notin> set ys" by auto
    with f p0 u seg snoc show ?thesis by (simp add: pm_deactivate_def get_proc_def upd_proc_def)
  qed
qed

lemma run_queue_unlinked:
  assumes q: "run_queue s (xs @ p # ys)" and ys: "ys \<noteq> []"
    and seg: "pseg (procs u) (plist_head u) (xs @ ys) NULL" and tl: "plist_tail u = plist_tail s"
  shows "run_queue u (xs @ ys)"
  using q ys seg tl by (simp add: run_queue_def)

lemma pm_block_current_inv:
  assumes s: "sched_inv s (p # q # ps)" and b: "p_status (procs s p) \<noteq> PS_BLOCKED"
  shows "returns (pm_block s p r) (\<lambda>(ok, t). ok \<and> sched_inv t (ps @ [q])
      \<and> p_status (procs t p) = PS_BLOCKED \<and> p_block (procs t p) = r
      \<and> p_status (procs t (cur_proc t)) = PS_RUNNING
      \<and> (\<forall>x. p_wakeup (procs t x) = p_wakeup (procs s x)) 
      \<and> t = s\<lparr>procs := procs t, plist_head := plist_head t, plist_tail := plist_tail t, cur_proc := cur_proc t\<rparr>)"
proof -
  from s have rq: "run_queue s (p # q # ps)" and c: "cur_proc s = p" by (simp_all add: sched_inv_def)
  have p0: "p \<noteq> NULL" using run_queue_nonnull [OF rq] by simp
  define s1 where "s1 = s\<lparr>procs := (procs s)(p := (procs s p)\<lparr>p_status := PS_BLOCKED, p_block := r\<rparr>)\<rparr>"
  have rq1: "run_queue s1 ([] @ p # q # ps)" using rq run_queue_cong [of s1 s] by (simp add: s1_def)
  define u where "u = s1\<lparr>plist_head := p_next (procs s1 p)\<rparr>"
  from pm_deactivate_unlinks [OF rq1, of u]
  have d: "pm_deactivate s1 p = pm_schedule u" "pseg (procs u) (plist_head u) (q # ps) NULL"
    using c by (simp_all add: u_def s1_def)
  from run_queue_unlinked [OF rq1 _ _, of u] d(2) have "run_queue u (q # ps)" by (simp add: u_def)
  from pm_schedule_rotates [OF this] obtain t where t: "pm_schedule u = Inr t" "sched_inv t (ps @ [q])" "sched_effect u t"
    "t = u\<lparr>procs := procs t, plist_head := plist_head t, plist_tail := plist_tail t, cur_proc := cur_proc t\<rparr>"
    using c p0 by (auto simp: u_def s1_def elim: returnsE)
  have "p \<noteq> cur_proc t" using t(2) rq by (cases ps) (auto simp: sched_inv_def run_queue_def)
  then have "p_status (procs t p) = PS_BLOCKED" "p_status (procs t (cur_proc t)) = PS_RUNNING" "p_block (procs t p) = r"
    "\<And>x. p_wakeup (procs t x) = p_wakeup (procs s x)"
    using t(3) by (auto simp: sched_effect_def u_def s1_def preempted_def Let_def)
  moreover have "t = s\<lparr>procs := procs t, plist_head := plist_head t, plist_tail := plist_tail t, cur_proc := cur_proc t\<rparr>"
    by (subst t(4)) (simp add: u_def s1_def)
  moreover have "pm_block s p r = rbind (pm_deactivate s1 p) (\<lambda>s. Inr (True, s))"
    using b p0 by (simp add: pm_block_def get_proc_def upd_proc_def s1_def)
  ultimately show ?thesis using d(1) t(1,2) by simp
qed

lemma pm_unblock_appends:
  assumes s: "sched_inv s ps" and p: "p \<notin> set ps" "is_proc p"
  shows "returns (pm_unblock s p) (\<lambda>t. sched_inv t (ps @ [p])
      \<and> (\<forall>x. p_wakeup (procs t x) = p_wakeup (procs s x)
             \<and> p_status (procs t x) = (if x = p then PS_READY else p_status (procs s x))
             \<and> p_block (procs t x) = (if x = p then BR_NOT_BLOCKED else p_block (procs s x)))
      \<and> t = s\<lparr>procs := procs t, plist_head := plist_head t, plist_tail := plist_tail t\<rparr>)"
proof -
  define s1 where "s1 = s\<lparr>procs := (procs s)(p := (procs s p)\<lparr>p_status := PS_READY, p_block := BR_NOT_BLOCKED\<rparr>)\<rparr>"
  from s have rq: "run_queue s ps" "ps \<noteq> []" "cur_proc s = hd ps" by (simp_all add: sched_inv_def)
  have "run_queue s1 ps" using rq(1) run_queue_cong [of s1 s] by (simp add: s1_def)
  from pm_activate_appends [OF this p] obtain t where t: "pm_activate s1 p = Inr t" "run_queue t (ps @ [p])"
    "\<And>x. same_but_next (procs t x) (procs s1 x)"
    "t = s1\<lparr>procs := procs t, plist_head := plist_head t, plist_tail := plist_tail t\<rparr>" by (auto elim: returnsE)
  have "pm_unblock s p = Inr t" using t(1) p by (simp add: pm_unblock_def upd_proc_def s1_def)
  moreover have ts: "t = s\<lparr>procs := procs t, plist_head := plist_head t, plist_tail := plist_tail t\<rparr>"
    by (subst t(4)) (simp add: s1_def)
  moreover have "sched_inv t (ps @ [p])"
    using t(2) rq arg_cong [OF ts, of cur_proc] by (simp add: sched_inv_def)
  ultimately show ?thesis using same_but_nextD [OF t(3)] by (simp add: s1_def)
qed

section \<open>Sleepers\<close>

definition overdue :: "'a pm_state_scheme \<Rightarrow> ptr \<Rightarrow> bool" where
  "overdue s p \<longleftrightarrow> p_wakeup (procs s p) \<noteq> 0 \<and> ucast (p_wakeup (procs s p)) \<le> timer_ticks s"

definition next_ok :: "'a pm_state_scheme \<Rightarrow> ptr list \<Rightarrow> bool" where
  "next_ok s ps \<longleftrightarrow>
     (\<forall>p \<in> set ps. p_wakeup (procs s p) \<noteq> 0 \<longrightarrow> next_wakeup s \<le> ucast (p_wakeup (procs s p)))"

definition woken :: "'a pm_state_scheme \<Rightarrow> ptr list \<Rightarrow> 'a pm_state_scheme \<Rightarrow> bool" where
  "woken s ws t \<longleftrightarrow> (\<forall>x. p_wakeup (procs t x) = (if x \<in> set ws then 0 else p_wakeup (procs s x))
      \<and> p_status (procs t x) = (if x \<in> set ws then PS_READY else p_status (procs s x))
      \<and> p_block (procs t x) = (if x \<in> set ws then BR_NOT_BLOCKED else p_block (procs s x)))"

lemma wake_one:
  assumes s: "sched_inv s ps" and p: "p \<notin> set ps" "is_proc p"
  shows "returns (rbind (upd_proc s p (\<lambda>c. c\<lparr>p_wakeup := 0\<rparr>)) (\<lambda>s. pm_unblock s p)) (\<lambda>t. sched_inv t (ps @ [p])
      \<and> woken s [p] t \<and> next_wakeup t = next_wakeup s \<and> timer_ticks t = timer_ticks s \<and> cur_proc t = cur_proc s)"
proof -
  define s1 where "s1 = s\<lparr>procs := (procs s)(p := (procs s p)\<lparr>p_wakeup := 0\<rparr>)\<rparr>"
  have "sched_inv s1 ps" using s run_queue_cong [of s1 s] by (simp add: s1_def sched_inv_def)
  from pm_unblock_appends [OF this p] obtain t where t: "pm_unblock s1 p = Inr t" "sched_inv t (ps @ [p])"
    "\<forall>x. p_wakeup (procs t x) = p_wakeup (procs s1 x)
             \<and> p_status (procs t x) = (if x = p then PS_READY else p_status (procs s1 x))
             \<and> p_block (procs t x) = (if x = p then BR_NOT_BLOCKED else p_block (procs s1 x))"
    "t = s1\<lparr>procs := procs t, plist_head := plist_head t, plist_tail := plist_tail t\<rparr>" by (auto elim: returnsE)
  have "upd_proc s p (\<lambda>c. c\<lparr>p_wakeup := 0\<rparr>) = Inr s1" using p by (simp add: upd_proc_def s1_def)
  moreover have "woken s [p] t" using t(3) by (simp add: woken_def s1_def)
  moreover note t(1,2) arg_cong [OF t(4), of next_wakeup] arg_cong [OF t(4), of timer_ticks] arg_cong [OF t(4), of cur_proc]
  ultimately show ?thesis by (simp add: s1_def)
qed

lemma wake_procs_spec:
  assumes "sched_inv s qs" "distinct ps" "list_all is_proc ps" "list_all (\<lambda>p. p_wakeup (procs s p) \<noteq> 0 \<longrightarrow> p \<notin> set qs) ps"
  shows "returns (wake_procs s ps) (\<lambda>t. sched_inv t (qs @ filter (overdue s) ps) \<and> woken s (filter (overdue s) ps) t
      \<and> next_ok t ps \<and> next_wakeup t \<le> next_wakeup s \<and> timer_ticks t = timer_ticks s \<and> cur_proc t = cur_proc s)"
  using assms
proof (induction ps arbitrary: s qs)
  case Nil
  then show ?case by (simp add: woken_def next_ok_def)
next
  case (Cons p ps)
  have p: "p \<notin> set ps" "is_proc p" using Cons.prems by simp_all
  consider (wake) "overdue s p" | (later) "p_wakeup (procs s p) \<noteq> 0" "\<not> overdue s p" | (no) "p_wakeup (procs s p) = 0"
    by blast
  then show ?case
  proof cases
    case wake
    then have pq: "p \<notin> set qs" using Cons.prems by (auto simp: overdue_def)
    from wake_one [OF Cons.prems(1) pq p(2)] obtain t1 where t1:
      "rbind (upd_proc s p (\<lambda>c. c\<lparr>p_wakeup := 0\<rparr>)) (\<lambda>s. pm_unblock s p) = Inr t1"
      "sched_inv t1 (qs @ [p])" "woken s [p] t1" "next_wakeup t1 = next_wakeup s" "timer_ticks t1 = timer_ticks s"
      "cur_proc t1 = cur_proc s" by (rule returnsE) blast
    have w: "wake_procs s (p # ps) = wake_procs t1 ps"
      using wake t1(1) by (simp add: overdue_def Let_def rbind_assoc [symmetric])
    have o: "filter (overdue t1) ps = filter (overdue s) ps"
      using p t1(3,5) by (intro filter_cong) (auto simp: overdue_def woken_def)
    have "list_all (\<lambda>x. p_wakeup (procs t1 x) \<noteq> 0 \<longrightarrow> x \<notin> set (qs @ [p])) ps"
      using Cons.prems(4) p t1(3) by (auto simp: list_all_iff woken_def)
    from Cons.IH [OF t1(2) _ _ this] Cons.prems show ?thesis
      unfolding w o using wake t1(3-6) p
      by (auto simp: woken_def next_ok_def elim!: returns_mono)
  next
    case later
    define s1 where "s1 = (if ucast (p_wakeup (procs s p)) < next_wakeup s then s\<lparr>next_wakeup := ucast (p_wakeup (procs s p))\<rparr> else s)"
    have w: "wake_procs s (p # ps) = wake_procs s1 ps"
      using later by (simp add: overdue_def Let_def s1_def)
    have o: "overdue s1 = overdue s" by (rule ext) (simp add: overdue_def s1_def)
    have "sched_inv s1 qs" using Cons.prems(1) run_queue_cong [of s1 s] by (simp add: sched_inv_def s1_def)
    moreover have "procs s1 = procs s" "timer_ticks s1 = timer_ticks s" "cur_proc s1 = cur_proc s" by (simp_all add: s1_def)
    moreover have "next_wakeup s1 \<le> next_wakeup s" "next_wakeup s1 \<le> ucast (p_wakeup (procs s p))" by (auto simp: s1_def)
    ultimately show ?thesis using Cons.IH [of s1 qs] Cons.prems later
      unfolding w o by (auto simp: woken_def next_ok_def elim!: returns_mono)
  next
    case no
    then have "wake_procs s (p # ps) = wake_procs s ps" "\<not> overdue s p" by (simp_all add: overdue_def)
    with Cons.IH [OF Cons.prems(1)] Cons.prems no show ?thesis
      by (auto simp: next_ok_def woken_def elim!: returns_mono)
  qed
qed

definition proc_slots :: "ptr list" where
  "proc_slots = [1..<MAX_PROCS + 1]"

lemma proc_slots [simp]: "distinct proc_slots" "list_all is_proc proc_slots" "set proc_slots = {1..256}"
  by (auto simp: proc_slots_def list_all_iff is_proc_def)

text \<open>
  The invariant of the scheduler: the process in slot 1, which \<^verbatim>\<open>init_pm\<close> makes the idle process, stays
  in the queue; no sleeper is in the queue, and \<^verbatim>\<open>next_wakeup\<close> is not later than any of them.
\<close>

definition sched_ok :: "'a pm_state_scheme \<Rightarrow> ptr list \<Rightarrow> bool" where
  "sched_ok s ps \<longleftrightarrow> sched_inv s ps \<and> 1 \<in> set ps
     \<and> p_status (procs s (cur_proc s)) \<in> (if cur_proc s = 1 then {PS_RUNNING, PS_BLOCKED} else {PS_RUNNING})
     \<and> list_all (\<lambda>p. p_wakeup (procs s p) \<noteq> 0 \<longrightarrow> p \<notin> set ps) proc_slots
     \<and> next_ok s proc_slots"

lemma sched_okD:
  assumes "sched_ok s ps"
  shows "sched_inv s ps" "cur_proc s \<noteq> NULL" "run_queue s (hd ps # tl ps)" "hd ps # tl ps = ps"
    "p_status (procs s (cur_proc s)) \<noteq> PS_READY"
proof -
  show i: "sched_inv s ps" and "p_status (procs s (cur_proc s)) \<noteq> PS_READY"
    using assms by (auto simp: sched_ok_def split: if_splits)
  from i have ps: "run_queue s ps" "ps \<noteq> []" "cur_proc s = hd ps" by (simp_all add: sched_inv_def)
  then show "cur_proc s \<noteq> NULL" "run_queue s (hd ps # tl ps)" "hd ps # tl ps = ps"
    using run_queue_nonnull [OF ps(1), of "hd ps"] by simp_all
qed

lemma sched_ok_schedule:
  assumes "sched_ok s ps"
  shows "returns (pm_schedule s) (\<lambda>t. sched_ok t (rotate1 ps) \<and> sched_effect s t
      \<and> timer_ticks t = timer_ticks s \<and> next_wakeup t = next_wakeup s)"
proof -
  note d = sched_okD [OF assms]
  from pm_schedule_rotates [OF d(3,2)] show ?thesis
  proof (rule returns_mono, elim conjE)
    fix t assume t: "sched_inv t (tl ps @ [hd ps])" "sched_effect s t"
      and ts: "t = s\<lparr>procs := procs t, plist_head := plist_head t, plist_tail := plist_tail t, cur_proc := cur_proc t\<rparr>"
    have r: "tl ps @ [hd ps] = rotate1 ps" using d(4) by (cases ps) auto
    have w: "p_wakeup (procs t x) = p_wakeup (procs s x)" for x using t(2) by (simp add: sched_effect_def)
    have n: "next_wakeup t = next_wakeup s" "timer_ticks t = timer_ticks s"
      using arg_cong [OF ts, of next_wakeup] arg_cong [OF ts, of timer_ticks] by simp_all
    have "p_status (procs t (cur_proc t)) = PS_RUNNING" using t(2) by (simp add: sched_effect_def)
    then show "sched_ok t (rotate1 ps) \<and> sched_effect s t
      \<and> timer_ticks t = timer_ticks s \<and> next_wakeup t = next_wakeup s"
      using assms t n by (simp add: sched_ok_def r next_ok_def w)
  qed
qed

lemma pm_update_schedules: "sched_ok s ps \<Longrightarrow> pm_update s = pm_schedule s"
  using sched_okD(5) by (auto simp: pm_update_def)

lemma sched_ok_awake:
  assumes "sched_ok s ps" "woken s ws t" "sched_inv t (ps @ ws)" "next_ok t proc_slots" "cur_proc t = cur_proc s"
    and ws: "set ws \<subseteq> {p \<in> set proc_slots. p_wakeup (procs s p) \<noteq> 0}"
  shows "sched_ok t (ps @ ws)"
proof -
  have "cur_proc s \<in> set ps" using assms(1) by (simp add: sched_ok_def sched_inv_def)
  then have "cur_proc s \<notin> set ws" using assms(1) ws by (auto simp: sched_ok_def list_all_iff)
  then show ?thesis using assms by (auto simp: sched_ok_def list_all_iff woken_def)
qed

lemma timer_irq_inv:
  assumes ok: "sched_ok s ps"
  defines "s1 \<equiv> s\<lparr>timer_ticks := timer_ticks s + 1\<rparr>"
  defines "ws \<equiv> filter (overdue s1) proc_slots"
  shows "returns (timer_irq s) (\<lambda>t. sched_ok t (rotate1 (ps @ ws)) \<and> timer_ticks t = timer_ticks s + 1
      \<and> list_all (\<lambda>p. \<not> overdue t p) proc_slots)"
proof -
  have ok1: "sched_ok s1 ps"
    using ok run_queue_cong [of s1 s] by (auto simp: sched_ok_def sched_inv_def next_ok_def s1_def)
  let ?wake = "if timer_ticks s1 \<ge> next_wakeup s1 then wake_procs (s1\<lparr>next_wakeup := 0xFFFFFFFFFFFFFFFF\<rparr>) proc_slots else Inr s1"
  have "returns ?wake (\<lambda>t. sched_ok t (ps @ ws) \<and> timer_ticks t = timer_ticks s1 \<and> list_all (\<lambda>p. \<not> overdue t p) proc_slots)"
  proof (cases "timer_ticks s1 \<ge> next_wakeup s1")
    case True
    define s2 where "s2 = s1\<lparr>next_wakeup := 0xFFFFFFFFFFFFFFFF\<rparr>"
    have o: "overdue s2 = overdue s1" by (rule ext) (simp add: overdue_def s2_def)
    have i2: "sched_inv s2 ps" using ok1 run_queue_cong [of s2 s1] by (simp add: sched_ok_def sched_inv_def s2_def)
    have l2: "list_all (\<lambda>p. p_wakeup (procs s2 p) \<noteq> 0 \<longrightarrow> p \<notin> set ps) proc_slots"
      using ok1 by (simp add: sched_ok_def s2_def)
    from wake_procs_spec [OF i2 _ _ l2]
    have "returns (wake_procs s2 proc_slots) (\<lambda>t. sched_ok t (ps @ ws) \<and> timer_ticks t = timer_ticks s1 \<and> list_all (\<lambda>p. \<not> overdue t p) proc_slots)"
    proof (rule returns_mono)
      fix t assume t: "sched_inv t (ps @ filter (overdue s2) proc_slots) \<and> woken s2 (filter (overdue s2) proc_slots) t
        \<and> next_ok t proc_slots \<and> next_wakeup t \<le> next_wakeup s2 \<and> timer_ticks t = timer_ticks s2 \<and> cur_proc t = cur_proc s2"
      then have "woken s2 ws t" unfolding o ws_def by blast
      then have w: "woken s1 ws t" by (simp add: woken_def s2_def)
      then have "list_all (\<lambda>p. \<not> overdue t p) proc_slots"
        using t by (auto simp: list_all_iff woken_def overdue_def ws_def s2_def)
      moreover have "sched_ok t (ps @ ws)"
      proof (rule sched_ok_awake [OF ok1 w])
        show "set ws \<subseteq> {p \<in> set proc_slots. p_wakeup (procs s1 p) \<noteq> 0}" by (auto simp: ws_def overdue_def)
        show "cur_proc t = cur_proc s1" using t by (simp add: s2_def)
      qed (use t [unfolded o, folded ws_def] in blast)+
      ultimately show "sched_ok t (ps @ ws) \<and> timer_ticks t = timer_ticks s1 \<and> list_all (\<lambda>p. \<not> overdue t p) proc_slots"
        using t by (simp add: s2_def)
    qed simp_all
    with True show ?thesis by (simp add: s2_def)
  next
    case False
    have "\<not> overdue s1 p" if "p \<in> set proc_slots" for p
      using ok1 False that by (auto simp: sched_ok_def next_ok_def overdue_def)
    then have "list_all (\<lambda>p. \<not> overdue s1 p) proc_slots" "ws = []"
      unfolding list_all_iff ws_def filter_empty_conv by blast+
    with False ok1 show ?thesis by simp
  qed
  then obtain s3 where s3: "?wake = Inr s3" "sched_ok s3 (ps @ ws)" "timer_ticks s3 = timer_ticks s1"
    "list_all (\<lambda>p. \<not> overdue s3 p) proc_slots" by (auto elim: returnsE)
  have "timer_irq s = rbind ?wake pm_update"
    unfolding timer_irq_def Let_def s1_def proc_slots_def ..
  then have "timer_irq s = pm_schedule s3"
    unfolding s3(1) using pm_update_schedules [OF s3(2)] by simp
  with sched_ok_schedule [OF s3(2)] s3(3,4) show ?thesis
    by (auto simp: sched_effect_def overdue_def list_all_iff s1_def elim!: returns_mono)
qed

lemma timer_sleep_inv:
  assumes ok: "sched_ok s ps" and c: "cur_proc s \<noteq> 1"
    and w_def: "w = ucast (timer_ticks s + ucast (msec * TIMER_HZ div 1000))"
  shows "returns (timer_sleep s (cur_proc s) msec) (\<lambda>t. sched_ok t (drop 2 ps @ [ps ! 1]) \<and> hd ps \<notin> set (drop 2 ps @ [ps ! 1])
      \<and> p_status (procs t (hd ps)) = PS_BLOCKED \<and> p_wakeup (procs t (hd ps)) = w \<and> timer_ticks t = timer_ticks s)"
proof -
  from ok c obtain p q qs where ps: "ps = p # q # qs" and p: "cur_proc s = p"
    by (cases ps; cases "tl ps") (auto simp: sched_ok_def sched_inv_def)
  have d: "p \<notin> set (qs @ [q])" "distinct ps" and p0: "p \<noteq> NULL" and c1: "1 \<in> set (qs @ [q])"
    using sched_okD [OF ok] ok p ps c by (auto simp: sched_inv_def run_queue_def sched_ok_def)
  have "p_status (procs s p) \<noteq> PS_BLOCKED" using ok c p by (simp add: sched_ok_def)
  from pm_block_current_inv [OF sched_okD(1) [OF ok, unfolded ps] this, of BR_SLEEPING]
  obtain t where b: "pm_block s p BR_SLEEPING = Inr (True, t)" and t: "sched_inv t (qs @ [q])"
    "p_status (procs t p) = PS_BLOCKED" "p_status (procs t (cur_proc t)) = PS_RUNNING"
    "\<And>x. p_wakeup (procs t x) = p_wakeup (procs s x)"
    and ts: "t = s\<lparr>procs := procs t, plist_head := plist_head t, plist_tail := plist_tail t, cur_proc := cur_proc t\<rparr>"
    by (auto elim!: returnsE)
  have n: "next_wakeup t = next_wakeup s" "timer_ticks t = timer_ticks s"
    using arg_cong [OF ts, of next_wakeup] arg_cong [OF ts, of timer_ticks] by simp_all
  define t1 where "t1 = t\<lparr>procs := (procs t)(p := (procs t p)\<lparr>p_wakeup := w\<rparr>),
    next_wakeup := if next_wakeup t > ucast w then ucast w else next_wakeup t\<rparr>"
  have "timer_sleep s (cur_proc s) msec = Inr t1"
    using b p p0 by (simp add: timer_sleep_def upd_proc_def t1_def w_def n Let_def)
  moreover have "sched_inv t1 (qs @ [q])"
    using t(1) run_queue_cong [of t1 t] by (simp add: sched_inv_def t1_def)
  moreover have "p_status (procs t1 (cur_proc t1)) = PS_RUNNING" using t(3) by (auto simp: t1_def)
  moreover have "list_all (\<lambda>x. p_wakeup (procs t1 x) \<noteq> 0 \<longrightarrow> x \<notin> set (qs @ [q])) proc_slots"
    using ok d t(4) by (auto simp: sched_ok_def t1_def ps list_all_iff)
  moreover have "next_ok t1 proc_slots"
    using ok t(4) n(1) by (force simp: sched_ok_def t1_def next_ok_def)
  ultimately show ?thesis using d c1 t(2) n by (simp add: sched_ok_def ps t1_def)
qed

section \<open>Runs of the scheduler\<close>

text \<open>
  The scheduler between interrupts: the timer ticks, or the current process yields or goes to sleep.
  The idle process only halts, it makes no system calls.
\<close>

datatype sched_event = Tick | Yield | Sleep u32

fun sched_step :: "'a pm_state_scheme \<Rightarrow> sched_event \<Rightarrow> 'a pm_state_scheme res" where
  "sched_step s Tick = timer_irq s"
| "sched_step s Yield = rbind (sys_yield s) (\<lambda>(r, s). Inr s)"
| "sched_step s (Sleep msec) = rbind (sys_sleep s msec) (\<lambda>(r, s). Inr s)"

definition may_happen :: "'a pm_state_scheme \<Rightarrow> sched_event \<Rightarrow> bool" where
  "may_happen s e \<longleftrightarrow> e = Tick \<or> cur_proc s \<noteq> 1"

inductive reaches :: "'a pm_state_scheme \<Rightarrow> 'a pm_state_scheme \<Rightarrow> bool" for s0 where
  start: "reaches s0 s0"
| step: "reaches s0 s \<Longrightarrow> may_happen s e \<Longrightarrow> sched_step s e = Inr t \<Longrightarrow> reaches s0 t"

inductive_cases reachesE: "reaches s0 s"

lemma sched_step_ok:
  assumes "sched_ok s ps" "may_happen s e"
  shows "returns (sched_step s e) (\<lambda>t. \<exists>qs. sched_ok t qs)"
proof (cases e)
  case Tick
  then show ?thesis by (auto intro: returns_mono [OF timer_irq_inv [OF assms(1)]])
next
  case Yield
  from sched_ok_schedule [OF assms(1)] obtain t where "pm_schedule s = Inr t" "sched_ok t (rotate1 ps)" by (auto elim: returnsE)
  with Yield show ?thesis by (auto simp: sys_yield_def)
next
  case (Sleep ms)
  with assms(2) have "cur_proc s \<noteq> 1" by (simp add: may_happen_def)
  from timer_sleep_inv [OF assms(1) this refl, of ms] obtain t where "timer_sleep s (cur_proc s) ms = Inr t" "sched_ok t (drop 2 ps @ [ps ! 1])"
    by (auto elim: returnsE)
  with Sleep show ?thesis by (auto simp: sys_sleep_def)
qed

lemma reaches_ok: "reaches s0 s \<Longrightarrow> sched_ok s0 ps \<Longrightarrow> \<exists>qs. sched_ok s qs"
proof (induction rule: reaches.induct)
  case (step s e t)
  then show ?case using sched_step_ok by fastforce
qed blast

section \<open>Results\<close>

text \<open>
  A state for the examples: the idle process and processes 2 and 3 in the queue, 2 running, and
  process 4 asleep until tick 5.
\<close>

definition demo_proc :: "proc_status \<Rightarrow> u32 \<Rightarrow> ptr \<Rightarrow> proc" where
  "demo_proc st w n = \<lparr>p_pid = 0, p_parent = 0, p_status = st, p_block = BR_NOT_BLOCKED, p_wait_proc = 0,
     p_wait_for = 0, p_wakeup = w, p_kstack_addr = 0, p_ustack_addr = 0, p_kstack = 0, p_esp = 0,
     p_mem_brk = 0, p_brk_page = 0, p_num_dyn = 0, p_as = 0, p_sc_regs = 0, p_cmdline_mapped = False,
     p_cmdline = 0, p_exit_status = 0, p_ticks_left = 50, p_msg_waitbuf = 0,
     p_msgbuffer = rbuf_create (\<lambda>_. 0) 20 24 False, p_next = n\<rparr>"

definition demo_sched :: pm_state where
  "demo_sched = \<lparr>mmap = (\<lambda>_. 0), total_mem = 0, mem_end = 0xE0000, last_error = 0,
     pdirs = (\<lambda>_ _. 0), ptabs = (\<lambda>_ _. 0), kernel_pdir = 0x1000, kpdir_rev = 0, wt_entry = 0,
     paging_enabled = True, pmem = (\<lambda>_. 0), cr3 = 0, used_nodes = [], free_nodes = [], unused_nodes = [],
     cur_context = CX_INIT, addrspaces = (\<lambda>_. \<lparr>as_phys = 0, as_pdir = 0\<rparr>),
     procs = (\<lambda>_. demo_proc PS_SLOT_FREE 0 NULL)(2 := demo_proc PS_RUNNING 0 3, 3 := demo_proc PS_READY 0 1,
       1 := demo_proc PS_READY 0 NULL, 4 := demo_proc PS_BLOCKED 5 NULL),
     plist_head = 2, plist_tail = 1, cur_proc = 2, last_proc = NULL, koop_mode = False, next_pid = 0,
     tss_esp0 = 0, syscall_proc = NULL, kernel_addrspace = 0, timer_ticks = 4, next_wakeup = 5\<rparr>"

lemma demo_wakeup: "p_wakeup (procs demo_sched p) = (if p = 4 then 5 else 0)"
  by (simp add: demo_sched_def demo_proc_def)

lemma demo_sched_ok: "sched_ok demo_sched [2, 3, 1]"
proof -
  have "run_queue demo_sched [2, 3, 1]"
    by (simp add: run_queue_def is_proc_def demo_sched_def demo_proc_def)
  then show ?thesis
    by (auto simp: sched_ok_def sched_inv_def next_ok_def list_all_iff demo_wakeup) (simp_all add: demo_sched_def demo_proc_def)
qed

lemma demo_sched_inv: "sched_inv demo_sched [2, 3, 1]"
  by (rule sched_okD(1) [OF demo_sched_ok])

lemma demo_overdue: "filter (overdue (demo_sched\<lparr>timer_ticks := 5\<rparr>)) proc_slots = [4]"
proof -
  have o: "overdue (demo_sched\<lparr>timer_ticks := 5\<rparr>) = (\<lambda>p. p = 4)"
    by (rule ext) (simp add: overdue_def demo_wakeup)
  have p: "proc_slots = [1..<4] @ 4 # [5..<257]"
    unfolding proc_slots_def using upt_add_eq_append [of 1 4 253] by (simp add: upt_conv_Cons del: upt_rec_numeral)
  show ?thesis unfolding o p filter_append by (simp add: filter_empty_conv del: upt_rec_numeral)
qed

text \<open>
  C6. Scheduling is round robin: from a state whose run queue is \<open>ps\<close> with the current process at its
  head, \<open>n\<close> calls of \<^verbatim>\<open>pm_schedule\<close> return, leave the queue a rotation of \<open>ps\<close> by \<open>n\<close>, and give the
  processor to element \<open>n mod length ps\<close>; so every process of the queue runs once in
  \<open>length ps\<close> calls.
\<close>

theorem pm_schedule_round_robin:
  "sched_inv s ps \<Longrightarrow>
     returns (schedules pm_schedule n s) (\<lambda>t. sched_inv t (rotate n ps) \<and> cur_proc t = ps ! (n mod length ps))"
  by (rule rr.turn)

theorem pm_schedule_round_robin_witness:
  "returns (schedules pm_schedule 5 demo_sched) (\<lambda>t. sched_inv t [1, 2, 3] \<and> cur_proc t = 1)"
  using pm_schedule_round_robin [OF demo_sched_inv, of 5] by (simp add: rotate_drop_take)

text \<open>
  Blocking the current process when another one is ready: \<^verbatim>\<open>pm_block\<close> succeeds, takes the process out
  of the queue and marks it blocked for the reason given, and the processor is taken by the process
  after the next one: the immediate successor \<open>q\<close> is moved to the end of the queue without running.
\<close>

theorem pm_block_current_spec:
  assumes "sched_inv s (p # q # ps)" and "p_status (procs s p) \<noteq> PS_BLOCKED"
  shows "returns (pm_block s p r) (\<lambda>(ok, t). ok \<and> sched_inv t (ps @ [q])
      \<and> p_status (procs t p) = PS_BLOCKED \<and> p_block (procs t p) = r
      \<and> p_status (procs t (cur_proc t)) = PS_RUNNING)"
  using returns_mono [OF pm_block_current_inv [OF assms]] by (simp add: case_prod_unfold)

theorem pm_block_current_spec_witness:
  "returns (pm_block demo_sched 2 BR_RECEIVING) (\<lambda>(ok, t). ok \<and> sched_inv t [1, 3]
      \<and> p_status (procs t 2) = PS_BLOCKED \<and> p_block (procs t 2) = BR_RECEIVING
      \<and> p_status (procs t (cur_proc t)) = PS_RUNNING)"
  using pm_block_current_spec [OF demo_sched_inv, of BR_RECEIVING] by (simp add: demo_sched_def demo_proc_def)

text \<open>
  \<^verbatim>\<open>pm_deactivate\<close> does not update \<^verbatim>\<open>plist_tail\<close>: after the last process of the queue was deactivated,
  the next \<^verbatim>\<open>pm_schedule\<close> links the stale tail instead of the last process, so that the process that
  was running, though ready, is no longer on the list that starts at \<^verbatim>\<open>plist_head\<close>.
\<close>

theorem pm_deactivate_last_drops_head:
  assumes q: "run_queue s (p # ps @ [l])" and c: "cur_proc s = p" and r: "p_status (procs s p) = PS_RUNNING"
  shows "\<exists>t u. pm_deactivate s l = Inr t \<and> pm_schedule t = Inr u
      \<and> pseg (procs u) (plist_head u) ps NULL \<and> p \<notin> set ps \<and> p_status (procs u p) = PS_READY"
proof -
  from q have d: "p \<noteq> l" "p \<notin> set ps" "l \<notin> set ps" by (auto simp: run_queue_def)
  define t where "t = s\<lparr>procs := (procs s)(last (p # ps) := (procs s (last (p # ps)))\<lparr>p_next := p_next (procs s l)\<rparr>)\<rparr>"
  from pm_deactivate_unlinks [of s "p # ps" l "[]" t] q
  have deact: "pm_deactivate s l = Inr t" and seg: "pseg (procs t) (plist_head t) (p # ps) NULL"
    using c d by (simp_all add: t_def)
  have ends: "plist_tail t = l" "plist_tail t \<noteq> NULL" "plist_head t = p" "p \<noteq> NULL" "cur_proc t = p"
    using run_queue_ends [OF q] c by (simp_all add: t_def)
  define pr1 where "pr1 = (procs t)(p := preempted (procs t p))"
  define pr2 where "pr2 = pr1(l := (pr1 l)\<lparr>p_next := p\<rparr>)"
  define nh where "nh = p_next (pr2 p)"
  define pr3 where "pr3 = pr2(p := (pr2 p)\<lparr>p_next := NULL\<rparr>)"
  define pr4 where "pr4 = (if nh = NULL then pr3 else pr3(nh := (pr3 nh)\<lparr>p_status := PS_RUNNING\<rparr>))"
  have sch: "pm_schedule t = Inr (t\<lparr>procs := pr4, plist_tail := p, plist_head := nh,
      cur_proc := if nh = NULL then idle_proc else nh\<rparr>)"
    using pm_schedule_eq [of t pr2 nh pr3] ends by (simp add: pr2_def pr1_def nh_def pr3_def pr4_def Let_def)
  have "pseg (procs t) nh ps NULL" using seg d by (simp add: nh_def pr2_def pr1_def)
  then have seg3: "pseg pr3 nh ps NULL" using d by (simp add: pr3_def pr2_def pr1_def)
  then have "pseg pr4 nh ps NULL" unfolding pr4_def by (cases "nh = NULL") (auto intro: pseg_upd_same [THEN iffD2])
  moreover have "nh \<noteq> p" using pseg_hd [OF seg3] d ends by (metis hd_in_set)
  then have "p_status (pr4 p) = PS_READY"
    using d r by (cases ps) (auto simp: pr4_def pr3_def pr2_def pr1_def t_def preempted_def Let_def)
  ultimately show ?thesis using deact sch d by auto
qed

theorem pm_deactivate_last_drops_head_witness:
  "\<exists>t u. pm_deactivate demo_sched 1 = Inr t \<and> pm_schedule t = Inr u
      \<and> pseg (procs u) (plist_head u) [3] NULL \<and> p_status (procs u 2) = PS_READY"
proof -
  have "run_queue demo_sched (2 # [3] @ [1])" using demo_sched_inv by (simp add: sched_inv_def)
  from pm_deactivate_last_drops_head [OF this] show ?thesis by (auto simp: demo_sched_def demo_proc_def)
qed

text \<open>
  C7. Every timer interrupt wakes exactly the sleepers whose time has come: \<^verbatim>\<open>timer_irq\<close> returns, the
  processes that were overdue at the new tick are appended to the run queue in slot order, none is
  overdue afterwards, the invariant of the scheduler (with \<^verbatim>\<open>next_wakeup\<close> not later than any sleeper)
  holds again, and the processor goes to the next process of the queue: the tick preempts whatever
  time slice is left.
\<close>

theorem timer_irq_wakes_sleepers:
  assumes "sched_ok s ps"
  shows "returns (timer_irq s) (\<lambda>t.
      sched_ok t (rotate1 (ps @ filter (overdue (s\<lparr>timer_ticks := timer_ticks s + 1\<rparr>)) proc_slots))
      \<and> timer_ticks t = timer_ticks s + 1 \<and> list_all (\<lambda>p. \<not> overdue t p) proc_slots)"
  by (rule timer_irq_inv [OF assms])

theorem timer_irq_wakes_sleepers_witness:
  "returns (timer_irq demo_sched) (\<lambda>t. sched_ok t [3, 1, 4, 2] \<and> timer_ticks t = 5
     \<and> list_all (\<lambda>p. \<not> overdue t p) proc_slots)"
  using timer_irq_wakes_sleepers [OF demo_sched_ok] demo_overdue
  by (simp add: demo_sched_def [THEN arg_cong, of timer_ticks])

text \<open>
  A sleeping process: \<^verbatim>\<open>timer_sleep\<close> on the current process (not the idle one) returns, the process
  is blocked, is off the queue, and its wakeup tick is the current tick plus \<^verbatim>\<open>msec * 100 / 1000\<close>,
  computed in 32 bits and truncated to 32 bits; the invariant of the scheduler holds again.
\<close>

theorem timer_sleep_spec:
  assumes "sched_ok s ps" and "cur_proc s \<noteq> 1"
  shows "returns (timer_sleep s (cur_proc s) msec) (\<lambda>t. sched_ok t (drop 2 ps @ [ps ! 1])
      \<and> hd ps \<notin> set (drop 2 ps @ [ps ! 1]) \<and> p_status (procs t (hd ps)) = PS_BLOCKED
      \<and> p_wakeup (procs t (hd ps)) = ucast (timer_ticks s + ucast (msec * TIMER_HZ div 1000))
      \<and> timer_ticks t = timer_ticks s)"
  by (rule timer_sleep_inv [OF assms refl])

theorem timer_sleep_spec_witness:
  "returns (timer_sleep demo_sched (cur_proc demo_sched) 50) (\<lambda>t. sched_ok t [1, 3]
      \<and> p_status (procs t 2) = PS_BLOCKED \<and> p_wakeup (procs t 2) = 9)"
proof -
  have c: "cur_proc demo_sched \<noteq> 1" "timer_ticks demo_sched = 4" by (simp_all add: demo_sched_def)
  from timer_sleep_spec [OF demo_sched_ok c(1), of 50] show ?thesis
    by (rule returns_mono) (simp add: c)
qed

text \<open>
  A process can sleep forever: when the wakeup tick comes out as 0, which \<^verbatim>\<open>timer_irq\<close> takes to mean
  that the process does not sleep, the process is blocked and off the queue but will never be overdue.
  This is so for every sleep of less than 10 milliseconds at tick 0, and whenever the 32-bit sum wraps
  to 0.
\<close>

theorem timer_sleep_can_be_forever:
  assumes "sched_ok s ps" and "cur_proc s \<noteq> 1"
    and "ucast (timer_ticks s + ucast (msec * TIMER_HZ div 1000)) = (0 :: u32)"
  shows "returns (timer_sleep s (cur_proc s) msec) (\<lambda>t. p_status (procs t (hd ps)) = PS_BLOCKED
      \<and> (\<forall>now. \<not> overdue (t\<lparr>timer_ticks := now\<rparr>) (hd ps)))"
  using returns_mono [OF timer_sleep_inv [OF assms(1,2) refl, of msec]] assms(3) by (simp add: overdue_def)

theorem timer_sleep_can_be_forever_witness:
  "returns (timer_sleep (demo_sched\<lparr>timer_ticks := 0\<rparr>) 2 9) (\<lambda>t. p_status (procs t 2) = PS_BLOCKED
      \<and> (\<forall>now. \<not> overdue (t\<lparr>timer_ticks := now\<rparr>) 2))"
proof -
  have ok: "sched_ok (demo_sched\<lparr>timer_ticks := 0\<rparr>) [2, 3, 1]"
    using demo_sched_ok run_queue_cong [of "demo_sched\<lparr>timer_ticks := 0\<rparr>" demo_sched]
    by (auto simp: sched_ok_def sched_inv_def next_ok_def)
  have c: "cur_proc (demo_sched\<lparr>timer_ticks := 0\<rparr>) = 2" by (simp add: demo_sched_def)
  from timer_sleep_can_be_forever [OF ok, of 9] show ?thesis by (simp add: c)
qed

text \<open>
  C2. The scheduler never faults: in every state reached from one that satisfies the invariant by timer
  ticks, yields and sleeps (the last two not by the idle process), the invariant holds and every such
  event returns; in particular the run queue is never empty when the scheduler looks for a process.
\<close>

theorem scheduler_never_faults:
  assumes "sched_ok s0 ps" and "reaches s0 s" and "may_happen s e"
  shows "(\<exists>qs. sched_ok s qs) \<and> returns (sched_step s e) (\<lambda>t. \<exists>qs. sched_ok t qs)"
  using reaches_ok [OF assms(2,1)] sched_step_ok [OF _ assms(3)] by blast

theorem scheduler_never_faults_witness:
  "(\<exists>qs. sched_ok demo_sched qs) \<and> returns (sched_step demo_sched (Sleep 10)) (\<lambda>t. \<exists>qs. sched_ok t qs)"
  by (rule scheduler_never_faults [OF demo_sched_ok reaches.start]) (simp add: may_happen_def demo_sched_def)

end
