(* ===== verification/Kos_Vfs.thy ===== *)
theory Kos_Vfs
  imports Kos_Pm Kos_List
begin

text \<open>
  The virtual file system: \<^verbatim>\<open>kernel/fs/inode.c\<close>, \<^verbatim>\<open>path.c\<close>, \<^verbatim>\<open>super.c\<close>, \<^verbatim>\<open>request.c\<close> and the part of
  \<^verbatim>\<open>fs.c\<close> that keeps the registered file systems and the open files of a process. Inodes, open files,
  super blocks, directory entries and requests are objects of a store; the tables of function
  pointers a driver provides are a parameter. The theory shows that path lookup is a walk over the
  components of the path, where it stops short, and how opening, closing and mounting change the
  inodes.
\<close>

section \<open>Objects\<close>

text \<open>
  Pointers to op tables, mount functions and callbacks are keys of the tables below, with \<open>0\<close> for
  \<^verbatim>\<open>NULL\<close>. \<^verbatim>\<open>impl\<close> is a number that the driver reads as a pointer.
\<close>

record inode =
  i_name :: string
  i_flags :: u32
  i_perm :: u32
  i_length :: u32
  i_uid :: u32
  i_gid :: u32
  i_opencount :: u32
  i_impl :: nat
  i_link :: ptr
  i_ops :: ptr
  i_sb :: ptr

record file_t =
  f_inode :: ptr
  f_pos :: u32
  f_fops :: ptr

record superblock =
  sb_root :: ptr
  sb_flags :: u32
  sb_ops :: ptr

record fstype =
  ft_name :: string
  ft_flags :: u32
  ft_mount :: ptr

record dirent =
  d_name :: string
  d_inode :: ptr

record fs_proc_data =
  fd_cwd :: ptr
  fd_files :: "ptr list"

record request =
  rq_file :: ptr
  rq_proc :: ptr
  rq_blocked :: bool
  rq_result :: int
  rq_offset :: u32
  rq_buffer :: u32
  rq_buflen :: u32
  rq_func :: ptr

text \<open>
  As in the list component, \<^verbatim>\<open>kmalloc\<close> of an object returns an address that was never used before and
  is not \<^verbatim>\<open>NULL\<close>, and \<^verbatim>\<open>kfree\<close> removes the object. The file system data of a process is kept by its
  process pointer; \<^verbatim>\<open>numfiles\<close> is the length of the table of open files.
\<close>

record vfs_state = pm_state +
  inodes :: "ptr \<Rightarrow> inode option"
  files :: "ptr \<Rightarrow> file_t option"
  supers :: "ptr \<Rightarrow> superblock option"
  dirents :: "ptr \<Rightarrow> dirent option"
  requests :: "ptr \<Rightarrow> request option"
  fstypes :: "ptr \<Rightarrow> fstype option"
  next_obj :: ptr
  lists :: list_heap
  fslist :: ptr
  fs_root :: ptr
  fs_error :: int
  proc_fs :: "ptr \<Rightarrow> fs_proc_data option"

abbreviation (input) EINVAL :: int where "EINVAL \<equiv> 22"
abbreviation (input) EAGAIN :: int where "EAGAIN \<equiv> 11"
abbreviation (input) ENOENT :: int where "ENOENT \<equiv> 2"
abbreviation (input) ENOMEM :: int where "ENOMEM \<equiv> 12"
abbreviation (input) ENOSYS :: int where "ENOSYS \<equiv> 88"
abbreviation (input) ELOOP :: int where "ELOOP \<equiv> 92"

abbreviation (input) FS_FILE :: u32 where "FS_FILE \<equiv> 0x01"
abbreviation (input) FS_DIR :: u32 where "FS_DIR \<equiv> 0x02"
abbreviation (input) FS_SYMLINK :: u32 where "FS_SYMLINK \<equiv> 0x20"
abbreviation (input) FS_MOUNTP :: u32 where "FS_MOUNTP \<equiv> 0x40"
abbreviation (input) FST_NEED_DEV :: u32 where "FST_NEED_DEV \<equiv> 0x01"
abbreviation (input) FSM_WRITE :: u32 where "FSM_WRITE \<equiv> 0x02"
abbreviation (input) FSM_EXEC :: u32 where "FSM_EXEC \<equiv> 0x03"
abbreviation (input) FSM_UMOUNT :: u32 where "FSM_UMOUNT \<equiv> 0x08"
abbreviation (input) FSO_READ :: u32 where "FSO_READ \<equiv> 0x01"
abbreviation (input) FSO_WRITE :: u32 where "FSO_WRITE \<equiv> 0x02"
abbreviation (input) FS_MAX_NAME :: nat where "FS_MAX_NAME \<equiv> 255"
abbreviation (input) FS_MAX_SYMLOOP :: nat where "FS_MAX_SYMLOOP \<equiv> 20"

section \<open>Drivers\<close>

record 's inode_ops =
  iop_create :: "('s \<Rightarrow> ptr \<Rightarrow> string \<Rightarrow> u32 \<Rightarrow> (ptr \<times> 's) res) option"
  iop_open :: "('s \<Rightarrow> ptr \<Rightarrow> ptr \<Rightarrow> u32 \<Rightarrow> (int \<times> 's) res) option"
  iop_unlink :: "('s \<Rightarrow> ptr \<Rightarrow> (int \<times> 's) res) option"
  iop_readdir :: "('s \<Rightarrow> ptr \<Rightarrow> u32 \<Rightarrow> (ptr \<times> 's) res) option"
  iop_finddir :: "('s \<Rightarrow> ptr \<Rightarrow> string \<Rightarrow> (ptr \<times> 's) res) option"

record 's file_ops =
  fop_close :: "('s \<Rightarrow> ptr \<Rightarrow> (int \<times> 's) res) option"
  fop_dup :: "('s \<Rightarrow> ptr \<Rightarrow> ptr \<Rightarrow> (int \<times> 's) res) option"
  fop_read :: "('s \<Rightarrow> ptr \<Rightarrow> u32 \<Rightarrow> u32 \<Rightarrow> u32 \<Rightarrow> (int \<times> 's) res) option"
  fop_write :: "('s \<Rightarrow> ptr \<Rightarrow> u32 \<Rightarrow> u32 \<Rightarrow> u32 \<Rightarrow> (int \<times> 's) res) option"
  fop_read_async :: "('s \<Rightarrow> ptr \<Rightarrow> (int \<times> 's) res) option"
  fop_write_async :: "('s \<Rightarrow> ptr \<Rightarrow> (int \<times> 's) res) option"

record 's drivers =
  iops_of :: "ptr \<Rightarrow> 's inode_ops"
  fops_of :: "ptr \<Rightarrow> 's file_ops"
  remount_of :: "ptr \<Rightarrow> ('s \<Rightarrow> ptr \<Rightarrow> u32 \<Rightarrow> (int \<times> 's) res) option"
  mount_of :: "ptr \<Rightarrow> 's \<Rightarrow> ptr \<Rightarrow> string option \<Rightarrow> u32 \<Rightarrow> (int \<times> 's) res"
  callback_of :: "ptr \<Rightarrow> 's \<Rightarrow> ptr \<Rightarrow> int \<Rightarrow> u32 \<Rightarrow> u32 \<Rightarrow> 's res"

section \<open>Access to objects\<close>

definition deref :: "(ptr \<Rightarrow> 'b option) \<Rightarrow> ptr \<Rightarrow> 'b res" where
  "deref f p = (if p = NULL then Inl Null_deref else case f p of None \<Rightarrow> Inl Bad_access | Some x \<Rightarrow> Inr x)"

definition upd_inode :: "'a vfs_state_scheme \<Rightarrow> ptr \<Rightarrow> (inode \<Rightarrow> inode) \<Rightarrow> 'a vfs_state_scheme res" where
  "upd_inode s p f = rbind (deref (inodes s) p) (\<lambda>i. Inr (s\<lparr>inodes := (inodes s)(p \<mapsto> f i)\<rparr>))"

definition upd_file :: "'a vfs_state_scheme \<Rightarrow> ptr \<Rightarrow> (file_t \<Rightarrow> file_t) \<Rightarrow> 'a vfs_state_scheme res" where
  "upd_file s p f = rbind (deref (files s) p) (\<lambda>i. Inr (s\<lparr>files := (files s)(p \<mapsto> f i)\<rparr>))"

definition vfs_seterror :: "'a vfs_state_scheme \<Rightarrow> int \<Rightarrow> 'a vfs_state_scheme" where
  "vfs_seterror s err = s\<lparr>fs_error := err\<rparr>"

definition vfs_geterror :: "'a vfs_state_scheme \<Rightarrow> int" where
  "vfs_geterror s = fs_error s"

text \<open>\<^verbatim>\<open>ret_null_and_err\<close>, and the op table of an inode or file if the pointer to it is not null.\<close>

definition ret_null_and_err :: "'a vfs_state_scheme \<Rightarrow> int \<Rightarrow> (ptr \<times> 'a vfs_state_scheme) res" where
  "ret_null_and_err s err = Inr (NULL, vfs_seterror s err)"

definition inode_op :: "'s drivers \<Rightarrow> inode \<Rightarrow> ('s inode_ops \<Rightarrow> 'f option) \<Rightarrow> 'f option" where
  "inode_op D i op = (if i_ops i \<noteq> NULL then op (iops_of D (i_ops i)) else None)"

definition file_op :: "'s drivers \<Rightarrow> file_t \<Rightarrow> ('s file_ops \<Rightarrow> 'f option) \<Rightarrow> 'f option" where
  "file_op D f op = (if f_fops f \<noteq> NULL then op (fops_of D (f_fops f)) else None)"

section \<open>inode.c\<close>

definition def_dup :: "'a vfs_state_scheme \<Rightarrow> ptr \<Rightarrow> ptr \<Rightarrow> (int \<times> 'a vfs_state_scheme) res" where
  "def_dup s file newf =
     rbind (deref (files s) file) (\<lambda>f.
     rbind (upd_file s newf (\<lambda>n. n\<lparr>f_inode := f_inode f, f_pos := f_pos f, f_fops := f_fops f\<rparr>)) (\<lambda>s.
     Inr (0, s)))"

definition vfs_create ::
    "'a vfs_state_scheme drivers \<Rightarrow> 'a vfs_state_scheme \<Rightarrow> ptr \<Rightarrow> string option \<Rightarrow> u32 \<Rightarrow> (ptr \<times> 'a vfs_state_scheme) res" where
  "vfs_create D s dir name flags =
     (case name of
        None \<Rightarrow> ret_null_and_err s (- EINVAL)
      | Some name \<Rightarrow>
          if dir = NULL then ret_null_and_err s (- EINVAL)
          else rbind (deref (inodes s) dir) (\<lambda>i.
            if bnotset (i_flags i) FS_DIR then ret_null_and_err s (- EINVAL)
            else case inode_op D i iop_create of
                   Some create \<Rightarrow> create s dir name flags
                 | None \<Rightarrow> ret_null_and_err s (- ENOSYS)))"

definition vfs_unlink ::
    "'a vfs_state_scheme drivers \<Rightarrow> 'a vfs_state_scheme \<Rightarrow> ptr \<Rightarrow> (int \<times> 'a vfs_state_scheme) res" where
  "vfs_unlink D s ino =
     (if ino = NULL then Inr (- EINVAL, s)
      else rbind (deref (inodes s) ino) (\<lambda>i.
        if i_opencount i \<noteq> 0 then Inr (- EAGAIN, s)
        else case inode_op D i iop_unlink of
               Some unlink \<Rightarrow> unlink s ino
             | None \<Rightarrow> Inr (- ENOSYS, s)))"

text \<open>A new \<^verbatim>\<open>struct file\<close>, cleared.\<close>

definition new_file :: "'a vfs_state_scheme \<Rightarrow> ptr \<times> 'a vfs_state_scheme" where
  "new_file s =
     (let p = next_obj s
      in (p, s\<lparr>files := (files s)(p \<mapsto> \<lparr>f_inode = NULL, f_pos = 0, f_fops = NULL\<rparr>), next_obj := Suc p\<rparr>))"

definition free_file :: "'a vfs_state_scheme \<Rightarrow> ptr \<Rightarrow> 'a vfs_state_scheme" where
  "free_file s p = s\<lparr>files := (files s)(p := None)\<rparr>"

definition vfs_open ::
    "'a vfs_state_scheme drivers \<Rightarrow> 'a vfs_state_scheme \<Rightarrow> ptr \<Rightarrow> u32 \<Rightarrow> (ptr \<times> 'a vfs_state_scheme) res" where
  "vfs_open D s ino flags =
     (if ino = NULL then ret_null_and_err s (- EINVAL)
      else case new_file s of (file, s) \<Rightarrow>
        rbind (deref (inodes s) ino) (\<lambda>i.
          case inode_op D i iop_open of
            Some open_op \<Rightarrow>
              rbind (open_op s ino file flags) (\<lambda>(status, s).
                if status \<noteq> 0 then ret_null_and_err (free_file s file) status
                else rbind (upd_inode s ino (\<lambda>i. i\<lparr>i_opencount := i_opencount i + 1\<rparr>)) (\<lambda>s.
                     rbind (upd_file s file (\<lambda>f. f\<lparr>f_inode := ino\<rparr>)) (\<lambda>s. Inr (file, s))))
          | None \<Rightarrow> ret_null_and_err s (- EINVAL)))"

definition vfs_close ::
    "'a vfs_state_scheme drivers \<Rightarrow> 'a vfs_state_scheme \<Rightarrow> ptr \<Rightarrow> (int \<times> 'a vfs_state_scheme) res" where
  "vfs_close D s file =
     (if file = NULL then Inr (- EINVAL, s)
      else rbind (deref (files s) file) (\<lambda>f.
        case file_op D f fop_close of
          Some close_op \<Rightarrow>
            rbind (close_op s file) (\<lambda>(err, s).
              if err = 0
              then rbind (deref (files s) file) (\<lambda>f.
                   rbind (upd_inode s (f_inode f) (\<lambda>i. i\<lparr>i_opencount := i_opencount i - 1\<rparr>)) (\<lambda>s.
                   Inr (0, free_file s file)))
              else Inr (err, s))
        | None \<Rightarrow> Inr (- ENOSYS, s)))"

text \<open>
  \<^verbatim>\<open>FILE_OP(file, dup)\<close> reads \<^verbatim>\<open>file->fops->dup\<close> without a test for a null \<^verbatim>\<open>fops\<close>. On an error the
  original file is freed, not the new one.
\<close>

definition vfs_dup ::
    "'a vfs_state_scheme drivers \<Rightarrow> 'a vfs_state_scheme \<Rightarrow> ptr \<Rightarrow> (ptr \<times> 'a vfs_state_scheme) res" where
  "vfs_dup D s file =
     (if file = NULL then ret_null_and_err s (- EINVAL)
      else case new_file s of (newf, s) \<Rightarrow>
        rbind (deref (files s) file) (\<lambda>f.
          if f_fops f = NULL then Inl Null_deref
          else rbind (case fop_dup (fops_of D (f_fops f)) of
                        Some dup \<Rightarrow> dup s file newf | None \<Rightarrow> def_dup s file newf) (\<lambda>(err, s).
                 if err \<noteq> 0 then ret_null_and_err (free_file s file) err else Inr (newf, s))))"

text \<open>The result of the driver is added to the position, also when it is an error.\<close>

definition vfs_read ::
    "'a vfs_state_scheme drivers \<Rightarrow> 'a vfs_state_scheme \<Rightarrow> ptr \<Rightarrow> u32 \<Rightarrow> u32 \<Rightarrow> u32 \<Rightarrow> (int \<times> 'a vfs_state_scheme) res" where
  "vfs_read D s file buffer count offset =
     (if file = NULL then Inr (- EINVAL, s)
      else rbind (deref (files s) file) (\<lambda>f.
        case file_op D f fop_read of
          Some read_op \<Rightarrow>
            rbind (read_op s file buffer count offset) (\<lambda>(n, s).
            rbind (upd_file s file (\<lambda>f. f\<lparr>f_pos := f_pos f + word_of_int n\<rparr>)) (\<lambda>s. Inr (n, s)))
        | None \<Rightarrow> Inr (- ENOSYS, s)))"

definition vfs_write ::
    "'a vfs_state_scheme drivers \<Rightarrow> 'a vfs_state_scheme \<Rightarrow> ptr \<Rightarrow> u32 \<Rightarrow> u32 \<Rightarrow> u32 \<Rightarrow> (int \<times> 'a vfs_state_scheme) res" where
  "vfs_write D s file buffer count offset =
     (if file = NULL then Inr (- EINVAL, s)
      else rbind (deref (files s) file) (\<lambda>f.
        case file_op D f fop_write of
          Some write_op \<Rightarrow>
            rbind (write_op s file buffer count offset) (\<lambda>(n, s).
            rbind (upd_file s file (\<lambda>f. f\<lparr>f_pos := f_pos f + word_of_int n\<rparr>)) (\<lambda>s. Inr (n, s)))
        | None \<Rightarrow> Inr (- ENOSYS, s)))"

definition vfs_read_async ::
    "'a vfs_state_scheme drivers \<Rightarrow> 'a vfs_state_scheme \<Rightarrow> ptr \<Rightarrow> (int \<times> 'a vfs_state_scheme) res" where
  "vfs_read_async D s rq =
     (if rq = NULL then Inr (- EINVAL, s)
      else rbind (deref (requests s) rq) (\<lambda>r.
        if rq_file r = NULL then Inr (- EINVAL, s)
        else rbind (deref (files s) (rq_file r)) (\<lambda>f.
          case file_op D f fop_read_async of
            Some read_op \<Rightarrow> read_op s rq
          | None \<Rightarrow> Inr (- ENOSYS, s))))"

definition vfs_write_async ::
    "'a vfs_state_scheme drivers \<Rightarrow> 'a vfs_state_scheme \<Rightarrow> ptr \<Rightarrow> (int \<times> 'a vfs_state_scheme) res" where
  "vfs_write_async D s rq =
     (if rq = NULL then Inr (- EINVAL, s)
      else rbind (deref (requests s) rq) (\<lambda>r.
        if rq_file r = NULL then Inr (- EINVAL, s)
        else rbind (deref (files s) (rq_file r)) (\<lambda>f.
          case file_op D f fop_write_async of
            Some write_op \<Rightarrow> write_op s rq
          | None \<Rightarrow> Inr (- ENOSYS, s))))"

definition vfs_readdir ::
    "'a vfs_state_scheme drivers \<Rightarrow> 'a vfs_state_scheme \<Rightarrow> ptr \<Rightarrow> u32 \<Rightarrow> (ptr \<times> 'a vfs_state_scheme) res" where
  "vfs_readdir D s ino index =
     (if ino = NULL then ret_null_and_err s (- EINVAL)
      else rbind (deref (inodes s) ino) (\<lambda>i.
        if bnotset (i_flags i) FS_DIR then ret_null_and_err s (- EINVAL)
        else case inode_op D i iop_readdir of
               Some rd \<Rightarrow> rd s ino index
             | None \<Rightarrow> ret_null_and_err s (- ENOSYS)))"

text \<open>The debug message reads \<^verbatim>\<open>ino->name\<close> before the test for \<^verbatim>\<open>NULL\<close>.\<close>

definition vfs_finddir ::
    "'a vfs_state_scheme drivers \<Rightarrow> 'a vfs_state_scheme \<Rightarrow> ptr \<Rightarrow> string \<Rightarrow> (ptr \<times> 'a vfs_state_scheme) res" where
  "vfs_finddir D s ino name =
     rbind (deref (inodes s) ino) (\<lambda>i.
       if bnotset (i_flags i) FS_DIR then ret_null_and_err s (- EINVAL)
       else case inode_op D i iop_finddir of
              Some fd \<Rightarrow> fd s ino name
            | None \<Rightarrow> ret_null_and_err s (- ENOSYS))"

section \<open>path.c\<close>

text \<open>
  A path is the list of its characters before the terminating null byte. \<open>part_end\<close> is the scan for the
  end of a component.
\<close>

function part_end :: "string \<Rightarrow> nat \<Rightarrow> nat" where
  "part_end path i = (if i < length path \<and> path ! i \<noteq> CHR ''/'' then part_end path (Suc i) else i)"
  by auto
termination by (relation "measure (\<lambda>(path, i). length path - i)") auto

declare part_end.simps [simp del]

lemma part_end_eq: "part_end path i = i + length (takeWhile (\<lambda>c. c \<noteq> CHR ''/'') (drop i path))"
proof (induction path i rule: part_end.induct)
  case (1 path i)
  show ?case
  proof (cases "i < length path \<and> path ! i \<noteq> CHR ''/''")
    case True
    then have "drop i path = path ! i # drop (Suc i) path" by (simp add: Cons_nth_drop_Suc)
    with True 1 show ?thesis by (simp add: part_end.simps [of path i])
  next
    case False
    then have "takeWhile (\<lambda>c. c \<noteq> CHR ''/'') (drop i path) = []"
      by (cases "i < length path") (auto simp: Cons_nth_drop_Suc [symmetric])
    moreover have "part_end path i = i" unfolding part_end.simps [of path i] using False by (rule if_not_P)
    ultimately show ?thesis by (simp del: takeWhile_eq_Nil_iff)
  qed
qed

text \<open>The component that starts at an index, and where the next one starts.\<close>

definition next_part :: "string \<Rightarrow> nat \<Rightarrow> (string \<times> nat) option res" where
  "next_part path start =
     (let e = part_end path start
      in if e \<le> start then Inr None
         else rbind (kassert (e - start < FS_MAX_NAME)) (\<lambda>_.
                Inr (Some (take (e - start) (drop start path),
                           if e < length path \<and> path ! e = CHR ''/'' then e + 1 else e))))"

lemma next_part_advances:
  "next_part path start = Inr (Some (part, next)) \<Longrightarrow> start < next \<and> start < length path"
proof -
  assume n: "next_part path start = Inr (Some (part, next))"
  then have e: "start < part_end path start" and n': "part_end path start \<le> next"
    by (auto simp: next_part_def Let_def res_simps split: if_splits)
  then have "drop start path \<noteq> []" unfolding part_end_eq by auto
  with e n' show ?thesis by simp
qed

definition advance_root :: "string \<Rightarrow> bool \<times> string" where
  "advance_root p =
     (if p \<noteq> [] \<and> hd p = CHR ''/'' then (True, dropWhile (\<lambda>c. c = CHR ''/'') p) else (False, p))"

text \<open>
  What a lookup does to an inode before it looks for the next component in it: follow a symbolic link,
  at most 19 times in all, or a mount point, or fail when it is no directory. \<open>None\<close> is the return with
  an error.
\<close>

definition lookup_enter ::
    "'a vfs_state_scheme \<Rightarrow> inode \<Rightarrow> ptr \<Rightarrow> nat \<Rightarrow> (ptr \<times> nat) option \<times> 'a vfs_state_scheme" where
  "lookup_enter s i ino symc =
     (if bisset (i_flags i) FS_SYMLINK
      then if symc + 1 \<ge> FS_MAX_SYMLOOP then (None, vfs_seterror s (- ELOOP))
           else (Some (i_link i, symc + 1), s)
      else if bisset (i_flags i) FS_MOUNTP then (Some (i_link i, symc), s)
      else if bnotset (i_flags i) FS_DIR then (None, vfs_seterror s (- ENOENT))
      else (Some (ino, symc), s))"

text \<open>The loop; its first result says whether it ran to the end of the path.\<close>

function lookup_loop ::
    "'a vfs_state_scheme drivers \<Rightarrow> 'a vfs_state_scheme \<Rightarrow> string \<Rightarrow> nat \<Rightarrow> ptr \<Rightarrow> nat
       \<Rightarrow> (bool \<times> ptr \<times> 'a vfs_state_scheme) res" where
  "lookup_loop D s path pidx ino symc =
     rbind (next_part path pidx) (\<lambda>r.
       case r of
         None \<Rightarrow> Inr (True, ino, s)
       | Some (part, pidx') \<Rightarrow>
           if ino = NULL then Inr (False, NULL, s)
           else rbind (deref (inodes s) ino) (\<lambda>i.
             case lookup_enter s i ino symc of
               (None, s) \<Rightarrow> Inr (False, NULL, s)
             | (Some (ino, symc), s) \<Rightarrow>
                 rbind (vfs_finddir D s ino part) (\<lambda>(ino, s). lookup_loop D s path pidx' ino symc)))"
  by pat_completeness auto
termination
  by (relation "measure (\<lambda>(D, s, path, pidx, ino, symc). length path - pidx)")
    (auto dest!: next_part_advances)

declare lookup_loop.simps [simp del]

definition vfs_lookup ::
    "'a vfs_state_scheme drivers \<Rightarrow> 'a vfs_state_scheme \<Rightarrow> string \<Rightarrow> ptr \<Rightarrow> (ptr \<times> 'a vfs_state_scheme) res" where
  "vfs_lookup D s path start =
     rbind (kassert (start \<noteq> NULL)) (\<lambda>_.
     rbind (deref (inodes s) start) (\<lambda>_.
       case advance_root path of (absolute, path) \<Rightarrow>
         let start = (if absolute then fs_root s else start)
         in rbind (lookup_loop D s path 0 start 0) (\<lambda>(complete, ino, s).
              if \<not> complete \<or> ino = NULL then Inr (ino, s)
              else rbind (deref (inodes s) ino) (\<lambda>i.
                     Inr (if bisset (i_flags i) FS_MOUNTP then i_link i else ino, s)))))"

definition vfs_lookup_dir :: "'a vfs_state_scheme \<Rightarrow> string \<Rightarrow> ptr \<Rightarrow> ptr" where
  "vfs_lookup_dir s path start = NULL"

section \<open>super.c\<close>

definition vfs_mount ::
    "'a vfs_state_scheme drivers \<Rightarrow> 'a vfs_state_scheme \<Rightarrow> ptr \<Rightarrow> ptr \<Rightarrow> string option \<Rightarrow> u32
       \<Rightarrow> (int \<times> 'a vfs_state_scheme) res" where
  "vfs_mount D s type point device flags =
     (if type = NULL \<or> point = NULL then Inr (- EINVAL, s)
      else rbind (deref (inodes s) point) (\<lambda>i.
        if bnotset (i_flags i) FS_DIR then Inr (- EINVAL, s)
        else rbind (deref (fstypes s) type) (\<lambda>t.
          if bisset (ft_flags t) FST_NEED_DEV \<and> device = None then Inr (- EINVAL, s)
          else let sb = next_obj s;
                   s = s\<lparr>supers := (supers s)(sb \<mapsto> \<lparr>sb_root = NULL, sb_flags = 0, sb_ops = NULL\<rparr>),
                         next_obj := Suc sb\<rparr>
               in rbind (mount_of D (ft_mount t) s sb device flags) (\<lambda>(err, s).
                    if err \<noteq> 0 then Inr (err, s\<lparr>supers := (supers s)(sb := None)\<rparr>)
                    else rbind (deref (supers s) sb) (\<lambda>b.
                         rbind (upd_inode s point (\<lambda>i. i\<lparr>i_flags := bset (i_flags i) FS_MOUNTP,
                                                        i_link := sb_root b\<rparr>)) (\<lambda>s.
                         Inr (0, s)))))))"

definition vfs_umount ::
    "'a vfs_state_scheme drivers \<Rightarrow> 'a vfs_state_scheme \<Rightarrow> ptr \<Rightarrow> (int \<times> 'a vfs_state_scheme) res" where
  "vfs_umount D s ino =
     (if ino = NULL then Inr (- EINVAL, s)
      else rbind (deref (inodes s) ino) (\<lambda>i.
        if bnotset (i_flags i) FS_MOUNTP \<or> i_link i = NULL then Inr (- EINVAL, s)
        else rbind (deref (inodes s) (i_link i)) (\<lambda>r.
             rbind (deref (supers s) (i_sb r)) (\<lambda>b.
               case (if sb_ops b = NULL then None else remount_of D (sb_ops b)) of
                 None \<Rightarrow> Inr (- ENOSYS, s)
               | Some remount \<Rightarrow>
                   rbind (remount s (i_sb r) FSM_UMOUNT) (\<lambda>(err, s).
                     if err \<noteq> 0 then Inr (err, s)
                     else rbind (upd_inode (s\<lparr>supers := (supers s)(i_sb r := None)\<rparr>) ino
                                   (\<lambda>i. i\<lparr>i_flags := bclr (i_flags i) FS_MOUNTP, i_link := NULL\<rparr>)) (\<lambda>s.
                          Inr (0, s)))))))"

section \<open>request.c\<close>

text \<open>The offset of \<^verbatim>\<open>eax\<close> in \<^verbatim>\<open>struct regs\<close>, and \<^verbatim>\<open>sc_late_result\<close>.\<close>

abbreviation (input) REG_EAX :: u32 where "REG_EAX \<equiv> 28"

definition sc_late_result :: "'a pm_state_scheme \<Rightarrow> ptr \<Rightarrow> u32 \<Rightarrow> 'a pm_state_scheme res" where
  "sc_late_result s p result =
     rbind (get_proc s p) (\<lambda>c. kwrite_u32 s (p_sc_regs c + REG_EAX) result)"

definition rq_create :: "'a vfs_state_scheme \<Rightarrow> ptr \<Rightarrow> u32 \<Rightarrow> u32 \<Rightarrow> ptr \<times> 'a vfs_state_scheme" where
  "rq_create s file buffer buflen =
     (let p = next_obj s
      in (p, s\<lparr>requests := (requests s)(p \<mapsto>
                 \<lparr>rq_file = file, rq_proc = cur_proc s, rq_blocked = False, rq_result = - EINVAL,
                  rq_offset = 0, rq_buffer = buffer, rq_buflen = buflen, rq_func = NULL\<rparr>),
               next_obj := Suc p\<rparr>))"

definition rq_block :: "'a vfs_state_scheme \<Rightarrow> ptr \<Rightarrow> 'a vfs_state_scheme res" where
  "rq_block s rq =
     rbind (deref (requests s) rq) (\<lambda>r.
     rbind (pm_block s (rq_proc r) BR_WAIT_FS) (\<lambda>(b, s).
     rbind (deref (requests s) rq) (\<lambda>r.
       Inr (s\<lparr>requests := (requests s)(rq \<mapsto> r\<lparr>rq_blocked := True\<rparr>)\<rparr>))))"

definition rq_finish :: "'a vfs_state_scheme drivers \<Rightarrow> 'a vfs_state_scheme \<Rightarrow> ptr \<Rightarrow> 'a vfs_state_scheme res" where
  "rq_finish D s rq =
     rbind (deref (requests s) rq) (\<lambda>r.
     rbind (if rq_proc r \<noteq> NULL
            then rbind (if rq_blocked r then pm_unblock s (rq_proc r) else Inr s) (\<lambda>s.
                   sc_late_result s (rq_proc r) (word_of_int (rq_result r)))
            else if rq_func r \<noteq> NULL
            then callback_of D (rq_func r) s (rq_file r) (rq_result r) (rq_buffer r) (rq_buflen r)
            else Inr s) (\<lambda>s.
       Inr (s\<lparr>requests := (requests s)(rq := None)\<rparr>)))"

section \<open>fs.c: registered file systems\<close>

text \<open>
  A loop over a list that stops at the first entry whose data satisfies a test; \<^verbatim>\<open>NULL\<close> when none does.
\<close>

fun find_entry :: "(ptr \<Rightarrow> bool res) \<Rightarrow> list_heap \<Rightarrow> ptr list \<Rightarrow> ptr res" where
  "find_entry P h [] = Inr NULL"
| "find_entry P h (e # es) =
     rbind (get_entry h e) (\<lambda>x. rbind (P (le_data x)) (\<lambda>b. if b then Inr e else find_entry P h es))"

definition list_search :: "(ptr \<Rightarrow> bool res) \<Rightarrow> list_heap \<Rightarrow> ptr \<Rightarrow> ptr res" where
  "list_search P h l = rbind (list_iterate h l) (find_entry P h)"

definition vfs_register :: "'a vfs_state_scheme \<Rightarrow> ptr \<Rightarrow> (int \<times> 'a vfs_state_scheme) res" where
  "vfs_register s type =
     (if type = NULL then Inr (- EINVAL, s)
      else let s = (if fslist s = NULL
                    then case list_create (lists s) of (l, h) \<Rightarrow> s\<lparr>lists := h, fslist := l\<rparr>
                    else s)
           in rbind (list_add_back (lists s) (fslist s) type) (\<lambda>h. Inr (0, s\<lparr>lists := h\<rparr>)))"

definition vfs_unregister :: "'a vfs_state_scheme \<Rightarrow> ptr \<Rightarrow> (int \<times> 'a vfs_state_scheme) res" where
  "vfs_unregister s type =
     (if type = NULL then Inr (- EINVAL, s)
      else rbind (list_search (\<lambda>d. Inr (d = type)) (lists s) (fslist s)) (\<lambda>e.
        if e = NULL then Inr (- EINVAL, s)
        else rbind (list_del_entry (lists s) (fslist s) e) (\<lambda>(d, h). Inr (0, s\<lparr>lists := h\<rparr>))))"

definition vfs_gettype :: "'a vfs_state_scheme \<Rightarrow> string option \<Rightarrow> (ptr \<times> 'a vfs_state_scheme) res" where
  "vfs_gettype s name =
     (case name of
        None \<Rightarrow> ret_null_and_err s (- EINVAL)
      | Some name \<Rightarrow>
          rbind (list_search (\<lambda>d. rbind (deref (fstypes s) d) (\<lambda>t. Inr (ft_name t = name))) (lists s) (fslist s)) (\<lambda>e.
            if e = NULL then ret_null_and_err s (- ENOENT)
            else rbind (get_entry (lists s) e) (\<lambda>x. Inr (le_data x, s))))"

section \<open>fs.c: the files of a process\<close>

definition get_fs :: "'a vfs_state_scheme \<Rightarrow> ptr \<Rightarrow> fs_proc_data res" where
  "get_fs s p = (if p = NULL then Inl Null_deref else case proc_fs s p of None \<Rightarrow> Inl Null_deref | Some d \<Rightarrow> Inr d)"

definition put_fs :: "'a vfs_state_scheme \<Rightarrow> ptr \<Rightarrow> fs_proc_data \<Rightarrow> 'a vfs_state_scheme" where
  "put_fs s p d = s\<lparr>proc_fs := (proc_fs s)(p \<mapsto> d)\<rparr>"

definition proc_cwd :: "'a vfs_state_scheme \<Rightarrow> ptr \<Rightarrow> ptr res" where
  "proc_cwd s p = rbind (get_fs s p) (\<lambda>d. rbind (deref (dirents s) (fd_cwd d)) (\<lambda>e. Inr (d_inode e)))"

definition new_dirent :: "'a vfs_state_scheme \<Rightarrow> string \<Rightarrow> ptr \<Rightarrow> ptr \<times> 'a vfs_state_scheme" where
  "new_dirent s name ino =
     (let p = next_obj s
      in (p, s\<lparr>dirents := (dirents s)(p \<mapsto> \<lparr>d_name = name, d_inode = ino\<rparr>), next_obj := Suc p\<rparr>))"

definition vfs_create_procdata :: "'a vfs_state_scheme \<Rightarrow> fs_proc_data \<times> 'a vfs_state_scheme" where
  "vfs_create_procdata s =
     (case new_dirent s ''/'' (fs_root s) of (cwd, s) \<Rightarrow>
        (\<lparr>fd_cwd = cwd, fd_files = replicate 32 NULL\<rparr>, s))"

fun dup_files ::
    "'a vfs_state_scheme drivers \<Rightarrow> 'a vfs_state_scheme \<Rightarrow> ptr list \<Rightarrow> (ptr list \<times> 'a vfs_state_scheme) res" where
  "dup_files D s [] = Inr ([], s)"
| "dup_files D s (f # fs) =
     rbind (if f \<noteq> NULL then vfs_dup D s f else Inr (NULL, s)) (\<lambda>(g, s).
     rbind (dup_files D s fs) (\<lambda>(gs, s). Inr (g # gs, s)))"

definition vfs_clone_procdata ::
    "'a vfs_state_scheme drivers \<Rightarrow> 'a vfs_state_scheme \<Rightarrow> fs_proc_data \<Rightarrow> (fs_proc_data \<times> 'a vfs_state_scheme) res" where
  "vfs_clone_procdata D s d =
     rbind (deref (dirents s) (fd_cwd d)) (\<lambda>e.
       case new_dirent s (d_name e) (d_inode e) of (cwd, s) \<Rightarrow>
         rbind (dup_files D s (fd_files d)) (\<lambda>(fs, s). Inr (\<lparr>fd_cwd = cwd, fd_files = fs\<rparr>, s)))"

fun close_files :: "'a vfs_state_scheme drivers \<Rightarrow> 'a vfs_state_scheme \<Rightarrow> ptr list \<Rightarrow> 'a vfs_state_scheme res" where
  "close_files D s [] = Inr s"
| "close_files D s (f # fs) =
     rbind (if f \<noteq> NULL then vfs_close D s f else Inr (0, s)) (\<lambda>(e, s). close_files D s fs)"

text \<open>The pointer to the data in the process is left as it is.\<close>

definition vfs_free_procdata ::
    "'a vfs_state_scheme drivers \<Rightarrow> 'a vfs_state_scheme \<Rightarrow> fs_proc_data \<Rightarrow> 'a vfs_state_scheme res" where
  "vfs_free_procdata D s d =
     rbind (close_files D s (fd_files d)) (\<lambda>s. Inr (s\<lparr>dirents := (dirents s)(fd_cwd d := None)\<rparr>))"

text \<open>\<^verbatim>\<open>strncpy\<close> into a name of 255 bytes whose last byte is then cleared keeps 254 characters.\<close>

definition vfs_change_dir ::
    "'a vfs_state_scheme drivers \<Rightarrow> 'a vfs_state_scheme \<Rightarrow> ptr \<Rightarrow> string option \<Rightarrow> (int \<times> 'a vfs_state_scheme) res" where
  "vfs_change_dir D s p dir =
     (case dir of
        None \<Rightarrow> Inr (- EINVAL, s)
      | Some dir \<Rightarrow>
          rbind (get_fs s p) (\<lambda>d.
          let name = take (FS_MAX_NAME - 1) dir;
              newd = next_obj s; s = s\<lparr>next_obj := Suc newd\<rparr>
          in rbind (vfs_lookup D s name (fs_root s)) (\<lambda>(ino, s).
               if ino = NULL then Inr (vfs_geterror s, s)
               else Inr (0, put_fs (s\<lparr>dirents := (dirents s)(newd \<mapsto> \<lparr>d_name = name, d_inode = ino\<rparr>,
                                                            fd_cwd d := None)\<rparr>) p (d\<lparr>fd_cwd := newd\<rparr>)))))"

text \<open>\<^verbatim>\<open>fd >= data->numfiles\<close> compares unsigned numbers, so a negative descriptor is out of range.\<close>

definition fd2file :: "'a vfs_state_scheme \<Rightarrow> ptr \<Rightarrow> u32 \<Rightarrow> ptr res" where
  "fd2file s p fd =
     rbind (get_fs s p) (\<lambda>d. if unat fd \<ge> length (fd_files d) then Inr NULL else Inr (fd_files d ! unat fd))"

definition first_free :: "ptr list \<Rightarrow> nat option" where
  "first_free fs = List.find (\<lambda>i. fs ! i = NULL) [0..<length fs]"

definition newfd :: "'a vfs_state_scheme \<Rightarrow> ptr \<Rightarrow> (nat \<times> 'a vfs_state_scheme) res" where
  "newfd s p =
     rbind (get_fs s p) (\<lambda>d.
       case first_free (fd_files d) of
         Some i \<Rightarrow> Inr (i, s)
       | None \<Rightarrow> Inr (length (fd_files d), put_fs s p (d\<lparr>fd_files := fd_files d @ replicate 32 NULL\<rparr>)))"

section \<open>fs.c: system calls\<close>

definition sc_pdir :: "'a pm_state_scheme \<Rightarrow> u32 res" where
  "sc_pdir s = rbind (get_proc s (syscall_proc s)) (\<lambda>c. rbind (get_as s (p_as c)) (\<lambda>a. Inr (as_pdir a)))"

text \<open>
  Reading a null-terminated string from kernel memory, with a bound on its length, and writing one with
  \<^verbatim>\<open>strncpy\<close>, which fills the rest of its \<open>n\<close> bytes with null bytes.
\<close>

fun kread_string :: "nat \<Rightarrow> 'a um_state_scheme \<Rightarrow> u32 \<Rightarrow> string res" where
  "kread_string 0 s a = Inl Diverges"
| "kread_string (Suc n) s a =
     rbind (kread s a) (\<lambda>b. if b = 0 then Inr [] else rbind (kread_string n s (a + 1)) (\<lambda>cs. Inr (char_of (unat b) # cs)))"

definition kstrncpy :: "'a um_state_scheme \<Rightarrow> u32 \<Rightarrow> string \<Rightarrow> nat \<Rightarrow> 'a um_state_scheme res" where
  "kstrncpy s dst str n =
     kwrite_bytes s dst (map of_char (take n str) @ replicate (n - length str) 0)"

abbreviation (input) MAX_STRING :: nat where "MAX_STRING \<equiv> 1048576"

definition map_string :: "'a vfs_state_scheme \<Rightarrow> u32 \<Rightarrow> (u32 \<times> u32 \<times> string \<times> 'a vfs_state_scheme) res" where
  "map_string s vaddr =
     rbind (sc_pdir s) (\<lambda>pdir.
     rbind (vm_map_string s pdir vaddr True) (\<lambda>(str, len, s).
     rbind (kread_string MAX_STRING s str) (\<lambda>cs. Inr (str, the len, cs, s))))"

definition sys_open ::
    "'a vfs_state_scheme drivers \<Rightarrow> 'a vfs_state_scheme \<Rightarrow> u32 \<Rightarrow> u32 \<Rightarrow> (int \<times> 'a vfs_state_scheme) res" where
  "sys_open D s fname flags =
     rbind (map_string s fname) (\<lambda>(name, namelen, path, s).
     rbind (proc_cwd s (syscall_proc s)) (\<lambda>cwd.
     rbind (rbind (vfs_lookup D s path cwd) (\<lambda>(ino, s).
              if ino = NULL then Inr (vfs_geterror s, s)
              else rbind (vfs_open D s ino flags) (\<lambda>(file, s).
                if file = NULL then Inr (vfs_geterror s, s)
                else rbind (newfd s (syscall_proc s)) (\<lambda>(fd, s).
                     rbind (get_fs s (syscall_proc s)) (\<lambda>d.
                       Inr (int fd, put_fs s (syscall_proc s) (d\<lparr>fd_files := (fd_files d)[fd := file]\<rparr>))))))) (\<lambda>(result, s).
     rbind (km_free_addr s name namelen) (\<lambda>s. Inr (result, s)))))"

definition sys_close ::
    "'a vfs_state_scheme drivers \<Rightarrow> 'a vfs_state_scheme \<Rightarrow> u32 \<Rightarrow> (int \<times> 'a vfs_state_scheme) res" where
  "sys_close D s fd =
     rbind (fd2file s (syscall_proc s) fd) (\<lambda>file.
       if file = NULL then Inr (- ENOENT, s)
       else rbind (vfs_close D s file) (\<lambda>(err, s).
         if err = 0
         then rbind (get_fs s (syscall_proc s)) (\<lambda>d.
                Inr (0, put_fs s (syscall_proc s) (d\<lparr>fd_files := (fd_files d)[unat fd := NULL]\<rparr>)))
         else Inr (err, s)))"

abbreviation (input) SC_READ :: u32 where "SC_READ \<equiv> 9"

definition sys_readwrite ::
    "'a vfs_state_scheme drivers \<Rightarrow> 'a vfs_state_scheme \<Rightarrow> u32 \<Rightarrow> u32 \<Rightarrow> u32 \<Rightarrow> (int \<times> 'a vfs_state_scheme) res" where
  "sys_readwrite D s fd buffer count =
     rbind (sc_pdir s) (\<lambda>pdir.
     rbind (vm_user_to_kernel s pdir buffer count) (\<lambda>(kbuf, s).
     rbind (fd2file s (syscall_proc s) fd) (\<lambda>file.
     rbind (if file = NULL then Inr (- ENOENT, s)
            else rbind (get_proc s (syscall_proc s)) (\<lambda>c.
                 rbind (kread_u32 s (p_sc_regs c + REG_EAX)) (\<lambda>eax.
                 rbind (deref (files s) file) (\<lambda>f.
                   if eax = SC_READ then vfs_read D s file kbuf count (f_pos f)
                   else vfs_write D s file kbuf count (f_pos f))))) (\<lambda>(result, s).
     if result \<noteq> - EAGAIN then rbind (km_free_addr s kbuf count) (\<lambda>s. Inr (result, s))
     else Inr (result, s)))))"

text \<open>With \<^verbatim>\<open>count\<close> 0 the byte before the buffer is cleared.\<close>

definition sys_getcwd :: "'a vfs_state_scheme \<Rightarrow> u32 \<Rightarrow> u32 \<Rightarrow> (u32 \<times> 'a vfs_state_scheme) res" where
  "sys_getcwd s bufaddr count =
     rbind (sc_pdir s) (\<lambda>pdir.
     rbind (vm_user_to_kernel s pdir bufaddr count) (\<lambda>(buffer, s).
     rbind (get_fs s (syscall_proc s)) (\<lambda>d.
     rbind (deref (dirents s) (fd_cwd d)) (\<lambda>e.
     rbind (kstrncpy s buffer (d_name e) (unat count)) (\<lambda>s.
     rbind (kwrite s (buffer + count - 1) 0) (\<lambda>s.
     rbind (km_free_addr s buffer count) (\<lambda>s. Inr (bufaddr, s))))))))"

definition sys_stat :: "'a vfs_state_scheme \<Rightarrow> u32 \<Rightarrow> u32 \<Rightarrow> int" where
  "sys_stat s path sbuf = - ENOSYS"

text \<open>\<^verbatim>\<open>CHECK_TTY\<close> of \<^verbatim>\<open>tty.c\<close>: the inode's \<^verbatim>\<open>impl\<close>, as a signed number, is one of the eight terminals.\<close>

definition tty_isatty :: "'a vfs_state_scheme \<Rightarrow> ptr \<Rightarrow> bool res" where
  "tty_isatty s file =
     rbind (deref (files s) file) (\<lambda>f. rbind (deref (inodes s) (f_inode f)) (\<lambda>i.
       let n = sint (of_nat (i_impl i) :: u32) in Inr (0 \<le> n \<and> n < 8)))"

definition sys_isatty :: "'a vfs_state_scheme \<Rightarrow> u32 \<Rightarrow> int res" where
  "sys_isatty s fd =
     rbind (fd2file s (syscall_proc s) fd) (\<lambda>file.
       if file = NULL then Inr 0 else rbind (tty_isatty s file) (\<lambda>b. Inr (of_bool b)))"

definition sys_readdir ::
    "'a vfs_state_scheme drivers \<Rightarrow> 'a vfs_state_scheme \<Rightarrow> u32 \<Rightarrow> u32 \<Rightarrow> u32 \<Rightarrow> (int \<times> 'a vfs_state_scheme) res" where
  "sys_readdir D s path userbuf index =
     rbind (map_string s path) (\<lambda>(name, namelen, pathname, s).
     rbind (sc_pdir s) (\<lambda>pdir.
     rbind (vm_map_string s pdir userbuf True) (\<lambda>(buffer, sz, s).
     rbind (if name = 0 \<or> buffer = 0 then Inr (- ENOMEM, s)
            else rbind (proc_cwd s (syscall_proc s)) (\<lambda>cwd.
                 rbind (vfs_lookup D s pathname cwd) (\<lambda>(dir, s).
                   if dir = NULL then Inr (- ENOENT, s)
                   else rbind (vfs_readdir D s dir index) (\<lambda>(dirent, s).
                     if dirent = NULL then Inr (vfs_geterror s, s)
                     else rbind (deref (dirents s) dirent) (\<lambda>e.
                          rbind (kstrncpy s buffer (d_name e) (min FS_MAX_NAME (unat (the sz)))) (\<lambda>s.
                          Inr (0, s))))))) (\<lambda>(err, s).
     rbind (if name \<noteq> 0 then km_free_addr s name namelen else Inr s) (\<lambda>s.
     rbind (if buffer \<noteq> 0 then km_free_addr s buffer (the sz) else Inr s) (\<lambda>s. Inr (err, s)))))))"

definition sys_mount ::
    "'a vfs_state_scheme drivers \<Rightarrow> 'a vfs_state_scheme \<Rightarrow> u32 \<Rightarrow> u32 \<Rightarrow> u32 \<Rightarrow> (int \<times> 'a vfs_state_scheme) res" where
  "sys_mount D s mountp ftype device =
     (if mountp = 0 \<or> ftype = 0 then Inr (- EINVAL, s)
      else rbind (map_string s mountp) (\<lambda>(path, pathlen, pathname, s).
           rbind (map_string s ftype) (\<lambda>(type, typelen, typename, s).
           rbind (if device \<noteq> 0
                  then rbind (map_string s device) (\<lambda>(dev, devlen, devname, s). Inr (Some (dev, devlen, devname), s))
                  else Inr (None, s)) (\<lambda>(dev, s).
           rbind (vfs_gettype s (Some typename)) (\<lambda>(driver, s).
           rbind (proc_cwd s (syscall_proc s)) (\<lambda>cwd.
           rbind (vfs_lookup D s pathname cwd) (\<lambda>(ino, s).
           rbind (if driver = NULL \<or> ino = NULL then Inr (- EINVAL, s)
                  else vfs_mount D s driver ino (map_option (\<lambda>(_, _, n). n) dev) 0) (\<lambda>(err, s).
           rbind (km_free_addr s path pathlen) (\<lambda>s.
           rbind (km_free_addr s type typelen) (\<lambda>s.
           rbind (case dev of Some (d, l, _) \<Rightarrow> if d \<noteq> 0 then km_free_addr s d l else Inr s
                  | None \<Rightarrow> Inr s) (\<lambda>s. Inr (err, s))))))))))))"

text \<open>One of the three standard files: opened when the slot is empty, whatever \<^verbatim>\<open>vfs_open\<close> returns.\<close>

definition open_slot ::
    "'a vfs_state_scheme drivers \<Rightarrow> 'a vfs_state_scheme \<Rightarrow> nat \<Rightarrow> ptr \<Rightarrow> u32 \<Rightarrow> (int \<times> 'a vfs_state_scheme) res" where
  "open_slot D s i ino flags =
     rbind (get_fs s (syscall_proc s)) (\<lambda>d.
       if i \<ge> length (fd_files d) then Inl Bad_access
       else if fd_files d ! i \<noteq> NULL then Inr (0, s)
       else rbind (vfs_open D s ino flags) (\<lambda>(file, s).
            rbind (get_fs s (syscall_proc s)) (\<lambda>d.
              Inr (1, put_fs s (syscall_proc s) (d\<lparr>fd_files := (fd_files d)[i := file]\<rparr>)))))"

text \<open>\<open>tty\<close> is the process' terminal name, which may be null.\<close>

definition sys_open_std ::
    "'a vfs_state_scheme drivers \<Rightarrow> 'a vfs_state_scheme \<Rightarrow> string option \<Rightarrow> (int \<times> 'a vfs_state_scheme) res" where
  "sys_open_std D s tty =
     (case tty of
        None \<Rightarrow> Inr (0, s)
      | Some tty \<Rightarrow>
          rbind (proc_cwd s (syscall_proc s)) (\<lambda>cwd.
          rbind (vfs_lookup D s tty cwd) (\<lambda>(ino, s).
          rbind (open_slot D s 0 ino FSO_READ) (\<lambda>(a, s).
          rbind (open_slot D s 1 ino FSO_WRITE) (\<lambda>(b, s).
          rbind (open_slot D s 2 ino FSO_WRITE) (\<lambda>(c, s). Inr (a + b + c, s)))))))"

section \<open>Lookup by components\<close>

text \<open>
  The reference: split the path at the slashes, take the components before the first empty one, and
  walk them one after the other.
\<close>

fun split_path :: "string \<Rightarrow> string list" where
  "split_path [] = [[]]"
| "split_path (c # cs) =
     (if c = CHR ''/'' then [] # split_path cs
      else case split_path cs of [] \<Rightarrow> [[c]] | p # ps \<Rightarrow> (c # p) # ps)"

definition path_parts :: "string \<Rightarrow> string list" where
  "path_parts p = takeWhile (\<lambda>x. x \<noteq> []) (split_path p)"

fun walk_parts ::
    "'a vfs_state_scheme drivers \<Rightarrow> 'a vfs_state_scheme \<Rightarrow> ptr \<Rightarrow> nat \<Rightarrow> string list \<Rightarrow> (bool \<times> ptr \<times> 'a vfs_state_scheme) res" where
  "walk_parts D s ino symc [] = Inr (True, ino, s)"
| "walk_parts D s ino symc (part # parts) =
     rbind (kassert (length part < FS_MAX_NAME)) (\<lambda>_.
       if ino = NULL then Inr (False, NULL, s)
       else rbind (deref (inodes s) ino) (\<lambda>i.
         case lookup_enter s i ino symc of
           (None, s) \<Rightarrow> Inr (False, NULL, s)
         | (Some (ino, symc), s) \<Rightarrow>
             rbind (vfs_finddir D s ino part) (\<lambda>(ino, s). walk_parts D s ino symc parts)))"

lemma split_path_step:
  "split_path p = takeWhile (\<lambda>c. c \<noteq> CHR ''/'') p #
     (case dropWhile (\<lambda>c. c \<noteq> CHR ''/'') p of [] \<Rightarrow> [] | _ # r \<Rightarrow> split_path r)"
  by (induction p) auto

lemma path_parts_step:
  "path_parts p =
     (let a = takeWhile (\<lambda>c. c \<noteq> CHR ''/'') p
      in if a = [] then [] else a # path_parts (drop (length a + 1) p))"
proof -
  let ?a = "takeWhile (\<lambda>c. c \<noteq> CHR ''/'') p"
  have d: "drop (length ?a + 1) p = tl (dropWhile (\<lambda>c. c \<noteq> CHR ''/'') p)"
    by (simp add: dropWhile_eq_drop drop_Suc tl_drop)
  show ?thesis
  proof (cases "dropWhile (\<lambda>c. c \<noteq> CHR ''/'') p")
    case Nil
    then have "split_path p = [?a]" by (simp add: split_path_step [of p] del: dropWhile_eq_Nil_conv)
    then show ?thesis unfolding Let_def d Nil by (simp add: path_parts_def del: takeWhile_eq_Nil_iff)
  next
    case (Cons x r)
    then have "split_path p = ?a # split_path r" by (simp add: split_path_step [of p])
    then show ?thesis unfolding Let_def d Cons by (simp add: path_parts_def del: takeWhile_eq_Nil_iff)
  qed
qed

lemma next_part_eq:
  "next_part path i =
     (let a = takeWhile (\<lambda>c. c \<noteq> CHR ''/'') (drop i path)
      in if a = [] then Inr None
         else rbind (kassert (length a < FS_MAX_NAME)) (\<lambda>_.
           Inr (Some (a, if i + length a < length path then i + length a + 1 else i + length a))))"
proof -
  let ?a = "takeWhile (\<lambda>c. c \<noteq> CHR ''/'') (drop i path)"
  have t: "take (length ?a) (drop i path) = ?a" by (metis takeWhile_eq_take)
  have "path ! (i + length ?a) = CHR ''/''" if "i + length ?a < length path"
    using that nth_length_takeWhile [of "\<lambda>c. c \<noteq> CHR ''/''" "drop i path"] by simp
  then show ?thesis by (auto simp: next_part_def part_end_eq Let_def t)
qed

lemma lookup_loop_parts:
  "lookup_loop D s path pidx ino symc = walk_parts D s ino symc (path_parts (drop pidx path))"
proof (induction "length path - pidx" arbitrary: s pidx ino symc rule: less_induct)
  case less
  define a where "a = takeWhile (\<lambda>c. c \<noteq> CHR ''/'') (drop pidx path)"
  define n where "n = (if pidx + length a < length path then pidx + length a + 1 else pidx + length a)"
  have np: "next_part path pidx =
      (if a = [] then Inr None else rbind (kassert (length a < FS_MAX_NAME)) (\<lambda>_. Inr (Some (a, n))))"
    by (simp only: next_part_eq Let_def a_def n_def)
  have pp: "path_parts (drop pidx path) = (if a = [] then [] else a # path_parts (drop n path))"
  proof -
    have "drop (length a + 1) (drop pidx path) = drop n path" by (simp add: n_def add.commute)
    then show ?thesis by (subst path_parts_step) (simp only: Let_def a_def)
  qed
  show ?case
  proof (cases "a = []")
    case True
    then show ?thesis by (simp add: lookup_loop.simps [of D s path pidx] np pp)
  next
    case False
    then have "drop pidx path \<noteq> []" by (auto simp: a_def)
    with False have "length path - n < length path - pidx" by (auto simp: n_def)
    note IH = less [OF this]
    show ?thesis
      using False by (simp add: lookup_loop.simps [of D s path pidx] np pp rbind_assoc IH cong: prod.case_cong option.case_cong)
  qed
qed

lemma split_path_append: "split_path (p @ CHR ''/'' # q) = split_path p @ split_path q"
proof (induction p)
  case (Cons c p)
  then show ?case by (cases "split_path p") (auto simp: split_path_step [of p])
qed simp

lemma path_parts_double_slash: "path_parts (p @ ''//'' @ rest) = path_parts p"
proof -
  have "split_path (p @ ''//'' @ rest) = split_path p @ [] # split_path rest"
    using split_path_append [of p "CHR ''/'' # rest"] by simp
  moreover have "takeWhile (\<lambda>x. x \<noteq> []) (xs @ [] # ys) = takeWhile (\<lambda>x. x \<noteq> []) xs" for xs ys :: "string list"
    by (induction xs) auto
  ultimately show ?thesis by (simp add: path_parts_def)
qed

definition lookup_by_parts ::
    "'a vfs_state_scheme drivers \<Rightarrow> 'a vfs_state_scheme \<Rightarrow> bool \<Rightarrow> string list \<Rightarrow> ptr \<Rightarrow> (ptr \<times> 'a vfs_state_scheme) res" where
  "lookup_by_parts D s absolute parts start =
     rbind (kassert (start \<noteq> NULL)) (\<lambda>_.
     rbind (deref (inodes s) start) (\<lambda>_.
     rbind (walk_parts D s (if absolute then fs_root s else start) 0 parts) (\<lambda>(complete, ino, s).
       if \<not> complete \<or> ino = NULL then Inr (ino, s)
       else rbind (deref (inodes s) ino) (\<lambda>i.
              Inr (if bisset (i_flags i) FS_MOUNTP then i_link i else ino, s)))))"

definition path_absolute :: "string \<Rightarrow> bool" where
  "path_absolute p \<longleftrightarrow> take 1 p = ''/''"

definition all_parts :: "string \<Rightarrow> string list" where
  "all_parts p = path_parts (dropWhile (\<lambda>c. c = CHR ''/'') p)"

lemma advance_root_eq: "advance_root p = (path_absolute p, dropWhile (\<lambda>c. c = CHR ''/'') p)"
  by (cases p) (auto simp: advance_root_def path_absolute_def)

lemma vfs_lookup_parts: "vfs_lookup D s path start = lookup_by_parts D s (path_absolute path) (all_parts path) start"
  by (simp add: vfs_lookup_def lookup_by_parts_def advance_root_eq lookup_loop_parts all_parts_def Let_def)

lemma dropWhile_append_nonempty: "c \<in> set p \<Longrightarrow> \<not> P c \<Longrightarrow> dropWhile P (p @ q) = dropWhile P p @ q"
  by (induction p) auto

section \<open>Lookup in a directory tree\<close>

text \<open>The abstract view: what following names from an inode leads to, given the entries of directories.\<close>

fun resolve :: "(ptr \<Rightarrow> bool) \<Rightarrow> (ptr \<Rightarrow> string \<Rightarrow> ptr) \<Rightarrow> ptr \<Rightarrow> string list \<Rightarrow> ptr" where
  "resolve dir entry ino [] = ino"
| "resolve dir entry ino (p # ps) =
     (if ino = NULL \<or> \<not> dir ino then NULL else resolve dir entry (entry ino p) ps)"

definition is_dir :: "'a vfs_state_scheme \<Rightarrow> ptr \<Rightarrow> bool" where
  "is_dir s p = (case inodes s p of None \<Rightarrow> False | Some i \<Rightarrow> bisset (i_flags i) FS_DIR)"

text \<open>A set of inodes without links and mount points whose directories belong to one driver and are closed under it.\<close>

definition plain_tree ::
    "ptr \<Rightarrow> ('a vfs_state_scheme \<Rightarrow> ptr \<Rightarrow> bool) \<Rightarrow> ('a vfs_state_scheme \<Rightarrow> ptr \<Rightarrow> string \<Rightarrow> ptr)
       \<Rightarrow> 'a vfs_state_scheme \<Rightarrow> ptr set \<Rightarrow> bool" where
  "plain_tree tab ok entry s A \<longleftrightarrow> NULL \<notin> A \<and>
     (\<forall>p \<in> A. case inodes s p of None \<Rightarrow> False
        | Some i \<Rightarrow> \<not> bisset (i_flags i) FS_SYMLINK \<and> \<not> bisset (i_flags i) FS_MOUNTP
            \<and> (bisset (i_flags i) FS_DIR \<longrightarrow> i_ops i = tab \<and> ok s p \<and> (\<forall>n. entry s p n \<in> insert NULL A)))"

locale directory =
  fixes D :: "'a vfs_state_scheme drivers"
    and tab :: ptr
    and ok :: "'a vfs_state_scheme \<Rightarrow> ptr \<Rightarrow> bool"
    and entry :: "'a vfs_state_scheme \<Rightarrow> ptr \<Rightarrow> string \<Rightarrow> ptr"
  assumes tab_nonnull: "tab \<noteq> NULL"
    and has_finddir: "iop_finddir (iops_of D tab) \<noteq> None"
    and finddir_entry: "ok s ino \<Longrightarrow> iop_finddir (iops_of D tab) = Some fd \<Longrightarrow>
      returns (fd s ino name) (\<lambda>(p, t). p = entry s ino name \<and> t = s\<lparr>fs_error := fs_error t\<rparr>)"
    and error_irrelevant: "ok (s\<lparr>fs_error := e\<rparr>) ino = ok s ino" "entry (s\<lparr>fs_error := e\<rparr>) ino name = entry s ino name"
begin

lemma plain_tree_error: "plain_tree tab ok entry (s\<lparr>fs_error := e\<rparr>) A = plain_tree tab ok entry s A"
  by (simp add: plain_tree_def error_irrelevant cong: option.case_cong)

lemma enter_plain:
  assumes "plain_tree tab ok entry s A" and "p \<in> A" and "inodes s p = Some i"
  shows "lookup_enter s i p symc =
     (if is_dir s p then (Some (p, symc), s) else (None, vfs_seterror s (- ENOENT)))"
proof -
  have "\<not> bisset (i_flags i) FS_SYMLINK \<and> \<not> bisset (i_flags i) FS_MOUNTP"
    using assms by (auto simp: plain_tree_def split: option.splits)
  then show ?thesis using assms(3) by (simp add: lookup_enter_def is_dir_def bnotset_not)
qed

lemma finddir_plain:
  assumes t: "plain_tree tab ok entry s A" and p: "p \<in> A" and d: "is_dir s p"
  shows "returns (vfs_finddir D s p name)
    (\<lambda>(q, t). q = entry s p name \<and> q \<in> insert NULL A \<and> t = s\<lparr>fs_error := fs_error t\<rparr>)"
proof -
  from t p d obtain i where i: "inodes s p = Some i" "bisset (i_flags i) FS_DIR" "p \<noteq> NULL"
    "i_ops i = tab" "ok s p" "entry s p name \<in> insert NULL A"
    by (auto simp: plain_tree_def is_dir_def split: option.splits)
  from has_finddir obtain fd where fd: "iop_finddir (iops_of D tab) = Some fd" by blast
  have "vfs_finddir D s p name = fd s p name"
    using i fd tab_nonnull by (simp add: vfs_finddir_def deref_def bnotset_not inode_op_def)
  then show ?thesis using returns_mono [OF finddir_entry [OF i(5) fd, of name]] i(6)
    by (simp add: case_prod_unfold)
qed

lemma walk_plain:
  "plain_tree tab ok entry s A \<Longrightarrow> ino \<in> insert NULL A \<Longrightarrow> list_all (\<lambda>p. length p < FS_MAX_NAME) parts \<Longrightarrow>
   returns (walk_parts D s ino symc parts) (\<lambda>(c, p, t). p = resolve (is_dir s) (entry s) ino parts
     \<and> p \<in> insert NULL A \<and> t = s\<lparr>fs_error := fs_error t\<rparr>)"
proof (induction parts arbitrary: s ino symc)
  case (Cons part parts)
  show ?case
  proof (cases "ino = NULL")
    case False
    with Cons.prems have A: "ino \<in> A" by simp
    with Cons.prems(1) obtain i where i: "inodes s ino = Some i" by (auto simp: plain_tree_def split: option.splits)
    note e = enter_plain [OF Cons.prems(1) A i, of symc]
    show ?thesis
    proof (cases "is_dir s ino")
      case False
      then show ?thesis using \<open>ino \<noteq> NULL\<close> Cons.prems i e by (simp add: deref_def vfs_seterror_def)
    next
      case True
      from finddir_plain [OF Cons.prems(1) A True, of part] obtain q t where
        q: "vfs_finddir D s ino part = Inr (q, t)" "q = entry s ino part" "q \<in> insert NULL A" "t = s\<lparr>fs_error := fs_error t\<rparr>"
        by (auto elim!: returnsE)
      then obtain e' where te: "t = s\<lparr>fs_error := e'\<rparr>" by blast
      have pt: "plain_tree tab ok entry t A" using Cons.prems(1) by (simp add: te plain_tree_error)
      have same: "is_dir t = is_dir s" "entry t = entry s"
        by (simp_all add: te is_dir_def error_irrelevant fun_eq_iff)
      have "list_all (\<lambda>p. length p < FS_MAX_NAME) parts" using Cons.prems(3) by simp
      from Cons.IH [OF pt q(3) this, of symc]
      have "returns (walk_parts D t q symc parts) (\<lambda>(c, p, u). p = resolve (is_dir s) (entry s) q parts
        \<and> p \<in> insert NULL A \<and> u = s\<lparr>fs_error := fs_error u\<rparr>)"
        unfolding same by (rule returns_mono) (auto simp: te)
      then show ?thesis using \<open>ino \<noteq> NULL\<close> True Cons.prems i e q by (simp add: deref_def)
    qed
  qed (use Cons.prems in simp)
qed simp

lemma lookup_plain:
  assumes t: "plain_tree tab ok entry s A" and s: "start \<in> A" "fs_root s \<in> A"
    and l: "list_all (\<lambda>p. length p < FS_MAX_NAME) (all_parts path)"
  shows "returns (vfs_lookup D s path start) (\<lambda>(p, t).
     p = resolve (is_dir s) (entry s) (if path_absolute path then fs_root s else start) (all_parts path)
     \<and> t = s\<lparr>fs_error := fs_error t\<rparr>)"
proof -
  let ?b = "if path_absolute path then fs_root s else start"
  have b: "?b \<in> insert NULL A" using s by simp
  from walk_plain [OF t b l, of 0] obtain c p u where
    w: "walk_parts D s ?b 0 (all_parts path) = Inr (c, p, u)" "p = resolve (is_dir s) (entry s) ?b (all_parts path)"
      "p \<in> insert NULL A" "u = s\<lparr>fs_error := fs_error u\<rparr>"
    by (elim returnsE) (simp add: case_prod_unfold, metis prod.collapse)
  have u: "inodes u = inodes s" using arg_cong [OF w(4), of inodes] by simp
  have "NULL \<notin> A" using t by (simp add: plain_tree_def)
  then have "start \<noteq> NULL" using s by metis
  moreover have "inodes s start \<noteq> None" using t s by (auto simp: plain_tree_def split: option.splits)
  moreover have "p \<noteq> NULL \<Longrightarrow> \<exists>i. inodes s p = Some i \<and> \<not> bisset (i_flags i) FS_MOUNTP"
    using t w(3) by (auto simp: plain_tree_def split: option.splits)
  ultimately show ?thesis using w(1,4) u unfolding vfs_lookup_parts lookup_by_parts_def w(2) [symmetric]
    by (auto simp: deref_def)
qed

end

section \<open>Opening and closing\<close>

text \<open>A driver whose \<^verbatim>\<open>open\<close> always succeeds and fills in only the new file, and whose \<^verbatim>\<open>close\<close> does nothing.\<close>

locale file_driver =
  fixes D :: "'a vfs_state_scheme drivers"
    and tab :: ptr
    and ftab :: ptr
  assumes tabs_nonnull: "tab \<noteq> NULL" "ftab \<noteq> NULL"
    and has_open: "iop_open (iops_of D tab) \<noteq> None"
    and has_close: "fop_close (fops_of D ftab) \<noteq> None"
    and open_fills: "iop_open (iops_of D tab) = Some op \<Longrightarrow> file \<noteq> NULL \<Longrightarrow> files s file = Some f \<Longrightarrow>
      returns (op s ino file flags) (\<lambda>(st, t). st = 0 \<and> t = s\<lparr>files := (files s)(file \<mapsto> f\<lparr>f_pos := 0, f_fops := ftab\<rparr>)\<rparr>)"
    and close_nop: "fop_close (fops_of D ftab) = Some cl \<Longrightarrow> cl s file = Inr (0, s)"
begin

lemma vfs_open_state:
  assumes i: "inodes s ino = Some i" "i_ops i = tab" "ino \<noteq> NULL" and n: "next_obj s \<noteq> NULL"
  shows "vfs_open D s ino flags = Inr (next_obj s, s\<lparr>
      files := (files s)(next_obj s \<mapsto> \<lparr>f_inode = ino, f_pos = 0, f_fops = ftab\<rparr>),
      inodes := (inodes s)(ino \<mapsto> i\<lparr>i_opencount := i_opencount i + 1\<rparr>), next_obj := Suc (next_obj s)\<rparr>)"
proof -
  obtain op where op: "iop_open (iops_of D tab) = Some op" using has_open by blast
  let ?f = "\<lparr>f_inode = NULL, f_pos = 0, f_fops = NULL\<rparr>"
  define s1 where "s1 = s\<lparr>files := (files s)(next_obj s \<mapsto> ?f), next_obj := Suc (next_obj s)\<rparr>"
  have "files s1 (next_obj s) = Some ?f" by (simp add: s1_def)
  from open_fills [OF op n this, of ino flags]
  have "op s1 ino (next_obj s) flags = Inr (0, s1\<lparr>files := (files s1)(next_obj s \<mapsto> ?f\<lparr>f_pos := 0, f_fops := ftab\<rparr>)\<rparr>)"
    by (cases "op s1 ino (next_obj s) flags") auto
  then show ?thesis
    using i n op tabs_nonnull
    by (simp add: vfs_open_def new_file_def Let_def s1_def deref_def inode_op_def upd_inode_def upd_file_def)
qed

lemma vfs_open_close:
  assumes i: "inodes s ino = Some i" "i_ops i = tab" "ino \<noteq> NULL" and n: "next_obj s \<noteq> NULL"
  shows "returns (vfs_open D s ino flags) (\<lambda>(file, t).
      file \<noteq> NULL \<and> files t file = Some \<lparr>f_inode = ino, f_pos = 0, f_fops = ftab\<rparr>
      \<and> inodes t = (inodes s)(ino \<mapsto> i\<lparr>i_opencount := i_opencount i + 1\<rparr>)
      \<and> returns (vfs_close D t file) (\<lambda>(err, u). err = 0 \<and> inodes u = inodes s \<and> files u file = None))"
proof -
  obtain cl where cl: "fop_close (fops_of D ftab) = Some cl" using has_close by blast
  have "(inodes s)(ino \<mapsto> i) = inodes s" using i(1) by auto
  then show ?thesis
    using n tabs_nonnull i(3) cl close_nop [OF cl]
    by (simp add: vfs_open_state [OF assms] vfs_close_def deref_def file_op_def upd_inode_def free_file_def)
qed

end

section \<open>File descriptors\<close>

lemma first_free_Some:
  assumes "first_free fs = Some i"
  shows "i < length fs \<and> fs ! i = NULL \<and> (\<forall>j < i. fs ! j \<noteq> NULL)"
proof -
  from assms obtain k where k: "k < length [0..<length fs]" "fs ! ([0..<length fs] ! k) = NULL" "i = [0..<length fs] ! k"
    "\<forall>j<k. fs ! ([0..<length fs] ! j) \<noteq> NULL"
    unfolding first_free_def find_Some_iff by auto
  then show ?thesis by auto
qed

lemma first_free_None: "first_free fs = None \<Longrightarrow> NULL \<notin> set fs"
  by (auto simp: first_free_def find_None_iff in_set_conv_nth)

lemma newfd_first:
  assumes "get_fs s p = Inr d"
  shows "returns (newfd s p) (\<lambda>(fd, t). returns (get_fs t p) (\<lambda>d'.
      fd_cwd d' = fd_cwd d \<and> take (length (fd_files d)) (fd_files d') = fd_files d
      \<and> fd < length (fd_files d') \<and> fd_files d' ! fd = NULL \<and> NULL \<notin> set (take fd (fd_files d'))))"
proof (cases "first_free (fd_files d)")
  case None
  with assms first_free_None [OF None] show ?thesis
    by (auto simp: newfd_def get_fs_def put_fs_def nth_append split: if_splits)
next
  case (Some i)
  from first_free_Some [OF Some] have "NULL \<notin> set (take i (fd_files d))"
    by (auto simp: in_set_conv_nth)
  with assms Some first_free_Some [OF Some] show ?thesis by (simp add: newfd_def)
qed

section \<open>Results\<close>


text \<open>
  A doubled slash inside a path cuts the lookup short: everything after it is ignored, so that
  \<^verbatim>\<open>/usr//bin/sh\<close> is the same as \<^verbatim>\<open>/usr\<close>.
\<close>

theorem vfs_lookup_double_slash:
  assumes "\<exists>c \<in> set p. c \<noteq> CHR ''/''"
  shows "vfs_lookup D s (p @ ''//'' @ rest) start = vfs_lookup D s p start"
proof -
  from assms obtain c where c: "c \<in> set p" "\<not> c = CHR ''/''" by blast
  then have "path_absolute (p @ ''//'' @ rest) = path_absolute p" by (cases p) (auto simp: path_absolute_def)
  moreover have "all_parts (p @ ''//'' @ rest) = all_parts p"
    using dropWhile_append_nonempty [of c p "\<lambda>c. c = CHR ''/''", OF c] path_parts_double_slash by (simp add: all_parts_def)
  ultimately show ?thesis by (simp add: vfs_lookup_parts)
qed

theorem vfs_lookup_double_slash_witness:
  "\<forall>D s start. vfs_lookup D (s :: vfs_state) ''/usr//bin/sh'' start = vfs_lookup D s ''/usr'' start"
proof -
  have "\<exists>c \<in> set ''/usr''. c \<noteq> CHR ''/''" by simp
  from vfs_lookup_double_slash [where 'a = unit, OF this, where rest = "''bin/sh''"] show ?thesis by (simp add: append_assoc [symmetric])
qed

text \<open>
  A new file descriptor is the lowest free one: \<^verbatim>\<open>newfd\<close> returns a slot of the process' table that is
  empty and has no empty slot before it, growing the table by 32 slots when it is full and keeping
  every descriptor that was in it.
\<close>

theorem newfd_spec:
  assumes "get_fs s p = Inr d"
  shows "returns (newfd s p) (\<lambda>(fd, t). returns (get_fs t p) (\<lambda>d'.
      fd_cwd d' = fd_cwd d \<and> take (length (fd_files d)) (fd_files d') = fd_files d
      \<and> fd < length (fd_files d') \<and> fd_files d' ! fd = NULL \<and> NULL \<notin> set (take fd (fd_files d'))))"
  by (rule newfd_first [OF assms])


text \<open>An example: process 2 has its standard files open and descriptor 3 free.\<close>

definition demo_vfs :: vfs_state where
  "demo_vfs = pm_state.extend demo_sched (vfs_state.fields
     (\<lambda>_. None) (\<lambda>_. None) (\<lambda>_. None) (\<lambda>_. None) (\<lambda>_. None) (\<lambda>_. None) 1 empty_heap NULL 1 0
     [2 \<mapsto> \<lparr>fd_cwd = 9, fd_files = [5, 6, 7, NULL, 8, NULL]\<rparr>])"

lemma demo_vfs_fs: "get_fs demo_vfs 2 = Inr \<lparr>fd_cwd = 9, fd_files = [5, 6, 7, NULL, 8, NULL]\<rparr>"
  by (simp add: get_fs_def demo_vfs_def pm_state.defs vfs_state.defs)

theorem newfd_spec_witness:
  "returns (newfd demo_vfs 2) (\<lambda>(fd, t). returns (get_fs t 2) (\<lambda>d'.
      fd < length (fd_files d') \<and> fd_files d' ! fd = NULL \<and> NULL \<notin> set (take fd (fd_files d'))))"
  using newfd_spec [OF demo_vfs_fs] by (auto simp: case_prod_unfold elim!: returns_mono)

end
