(* ===== verification/Kos_Initrd.thy ===== *)
theory Kos_Initrd
  imports Kos_Vfs
begin

text \<open>
  The two file systems of the kernel: the initial ramdisk \<^verbatim>\<open>kernel/fs/initrd.c\<close>, whose directories are
  lists of inodes built from a boot module, and the device file system \<^verbatim>\<open>kernel/fs/devfs.c\<close>, one
  directory of registered devices. The theory shows that both are directories in the sense the path
  lookup relies on, what reading a ramdisk file returns and how it moves the file position, and that
  opening and closing a ramdisk file leaves its inode as it was.
\<close>

section \<open>State\<close>

record idev_state = vfs_state +
  id_root :: ptr
  id_super :: ptr
  devices :: ptr
  devfs_root :: ptr

text \<open>The addresses of the op tables.\<close>

abbreviation (input) INITRD_IOPS :: ptr where "INITRD_IOPS \<equiv> 1"
abbreviation (input) DEVFS_IOPS :: ptr where "DEVFS_IOPS \<equiv> 2"
abbreviation (input) INITRD_FOPS :: ptr where "INITRD_FOPS \<equiv> 1"
abbreviation (input) INITRD_SBOPS :: ptr where "INITRD_SBOPS \<equiv> 1"
abbreviation (input) DEVFS_SBOPS :: ptr where "DEVFS_SBOPS \<equiv> 2"

section \<open>initrd.c: file system operations\<close>

definition id_close :: "'a idev_state_scheme \<Rightarrow> ptr \<Rightarrow> (int \<times> 'a idev_state_scheme) res" where
  "id_close s file = Inr (0, s)"

text \<open>\<^verbatim>\<open>offs + count\<close> is a 32-bit sum.\<close>

definition do_read ::
    "'a idev_state_scheme \<Rightarrow> ptr \<Rightarrow> u32 \<Rightarrow> u32 \<Rightarrow> u32 \<Rightarrow> (int \<times> 'a idev_state_scheme) res" where
  "do_read s file offs buffer count =
     rbind (deref (files s) file) (\<lambda>f.
     rbind (deref (inodes s) (f_inode f)) (\<lambda>i.
       if offs > i_length i then Inr (- 1, s)
       else let count = (if offs + count > i_length i then i_length i - offs else count)
            in rbind (kmemcpy s buffer (of_nat (i_impl i) + offs) (unat count)) (\<lambda>s.
               rbind (upd_file s file (\<lambda>f. f\<lparr>f_pos := f_pos f + count\<rparr>)) (\<lambda>s.
               Inr (sint count, s)))))"

definition id_read ::
    "'a idev_state_scheme \<Rightarrow> ptr \<Rightarrow> u32 \<Rightarrow> u32 \<Rightarrow> u32 \<Rightarrow> (int \<times> 'a idev_state_scheme) res" where
  "id_read s file buffer count offset = do_read s file offset buffer count"

definition id_read_async ::
    "'a idev_state_scheme drivers \<Rightarrow> 'a idev_state_scheme \<Rightarrow> ptr \<Rightarrow> (int \<times> 'a idev_state_scheme) res" where
  "id_read_async D s rq =
     rbind (deref (requests s) rq) (\<lambda>r.
     rbind (do_read s (rq_file r) (rq_offset r) (rq_buffer r) (rq_buflen r)) (\<lambda>(result, s).
     rbind (deref (requests s) rq) (\<lambda>r.
     rbind (rq_finish D (s\<lparr>requests := (requests s)(rq \<mapsto> r\<lparr>rq_result := result\<rparr>)\<rparr>) rq) (\<lambda>s.
     Inr (result, s)))))"

definition id_open ::
    "'a idev_state_scheme \<Rightarrow> ptr \<Rightarrow> ptr \<Rightarrow> u32 \<Rightarrow> (int \<times> 'a idev_state_scheme) res" where
  "id_open s ino file flags =
     rbind (upd_file s file (\<lambda>f. f\<lparr>f_pos := 0, f_fops := INITRD_FOPS\<rparr>)) (\<lambda>s. Inr (0, s))"

text \<open>Entry number \<open>index\<close> of a list of inodes, copied into a new directory entry.\<close>

definition dirent_of :: "'a idev_state_scheme \<Rightarrow> ptr \<Rightarrow> ptr \<Rightarrow> (ptr \<times> 'a idev_state_scheme) res" where
  "dirent_of s dirent entry =
     rbind (get_entry (lists s) entry) (\<lambda>x.
     rbind (deref (inodes s) (le_data x)) (\<lambda>i.
       Inr (dirent, s\<lparr>dirents := (dirents s)(dirent \<mapsto> \<lparr>d_name = i_name i, d_inode = le_data x\<rparr>)\<rparr>)))"

definition id_readdir :: "'a idev_state_scheme \<Rightarrow> ptr \<Rightarrow> u32 \<Rightarrow> (ptr \<times> 'a idev_state_scheme) res" where
  "id_readdir s ino index =
     rbind (deref (inodes s) ino) (\<lambda>i.
       let dirent = next_obj s; s = s\<lparr>next_obj := Suc dirent\<rparr>
       in rbind (list_iterate (lists s) (i_impl i)) (\<lambda>es.
            if unat index < length es then dirent_of s dirent (es ! unat index)
            else ret_null_and_err s (- ENOENT)))"

definition has_name :: "'a vfs_state_scheme \<Rightarrow> string \<Rightarrow> ptr \<Rightarrow> bool res" where
  "has_name s name p = rbind (deref (inodes s) p) (\<lambda>i. Inr (i_name i = name))"

definition id_finddir :: "'a idev_state_scheme \<Rightarrow> ptr \<Rightarrow> string \<Rightarrow> (ptr \<times> 'a idev_state_scheme) res" where
  "id_finddir s ino name =
     rbind (deref (inodes s) ino) (\<lambda>i.
     rbind (list_search (has_name s name) (lists s) (i_impl i)) (\<lambda>e.
       if e = NULL then ret_null_and_err s (- ENOENT)
       else rbind (get_entry (lists s) e) (\<lambda>x. Inr (le_data x, s))))"

definition id_remount :: "'a idev_state_scheme \<Rightarrow> ptr \<Rightarrow> u32 \<Rightarrow> (int \<times> 'a idev_state_scheme) res" where
  "id_remount s sb flags = Inr (0, s)"

definition id_mount ::
    "'a idev_state_scheme \<Rightarrow> ptr \<Rightarrow> string option \<Rightarrow> u32 \<Rightarrow> (int \<times> 'a idev_state_scheme) res" where
  "id_mount s sb dev flags =
     rbind (deref (supers s) sb) (\<lambda>b.
       Inr (0, s\<lparr>supers := (supers s)(sb \<mapsto>
         b\<lparr>sb_root := id_root s, sb_ops := INITRD_SBOPS, sb_flags := bclr flags (FSM_WRITE OR FSM_EXEC)\<rparr>)\<rparr>))"

section \<open>initrd.c: parsing the image\<close>

text \<open>
  The image lies in kernel memory at \<open>disk\<close>. \<^verbatim>\<open>struct id_entry\<close> is five 32-bit words: type, name, count,
  content and next; \<^verbatim>\<open>id_get\<close> turns an offset into an address, and 0 into \<^verbatim>\<open>NULL\<close>.
\<close>

record id_entry =
  e_type :: u32
  e_name :: u32
  e_count :: u32
  e_content :: u32
  e_next :: u32

definition read_entry :: "'a um_state_scheme \<Rightarrow> u32 \<Rightarrow> id_entry res" where
  "read_entry s e =
     rbind (kread_u32 s e) (\<lambda>t. rbind (kread_u32 s (e + 4)) (\<lambda>n. rbind (kread_u32 s (e + 8)) (\<lambda>c.
     rbind (kread_u32 s (e + 12)) (\<lambda>d. rbind (kread_u32 s (e + 16)) (\<lambda>x.
       Inr \<lparr>e_type = t, e_name = n, e_count = c, e_content = d, e_next = x\<rparr>)))))"

definition id_get :: "u32 \<Rightarrow> u32 \<Rightarrow> u32" where
  "id_get off disk = (if off \<noteq> 0 then disk + off else 0)"

definition check_img :: "'a um_state_scheme \<Rightarrow> u32 \<Rightarrow> bool res" where
  "check_img s img =
     rbind (kread s img) (\<lambda>a. if a \<noteq> of_char CHR ''k'' then Inr False
     else rbind (kread s (img + 1)) (\<lambda>b. if b \<noteq> of_char CHR ''I'' then Inr False
     else rbind (kread s (img + 2)) (\<lambda>c. if c \<noteq> of_char CHR ''D'' then Inr False
     else rbind (kread s (img + 3)) (\<lambda>v. Inr (v = 0)))))"

definition new_inode :: "'a idev_state_scheme \<Rightarrow> id_entry \<Rightarrow> u32 \<Rightarrow> (ptr \<times> 'a idev_state_scheme) res" where
  "new_inode s e disk =
     (let p = next_obj s; n = id_get (e_name e) disk
      in rbind (if n = 0 then Inr ''<no name>'' else kread_string MAX_STRING s n) (\<lambda>name.
           Inr (p, s\<lparr>inodes := (inodes s)(p \<mapsto>
               \<lparr>i_name = name, i_flags = 0, i_perm = 0, i_length = e_count e, i_uid = 0, i_gid = 0,
                i_opencount = 0, i_impl = 0, i_link = NULL, i_ops = INITRD_IOPS, i_sb = id_super s\<rparr>),
             next_obj := Suc p\<rparr>)))"

definition parse_file :: "'a idev_state_scheme \<Rightarrow> id_entry \<Rightarrow> u32 \<Rightarrow> (ptr \<times> 'a idev_state_scheme) res" where
  "parse_file s e disk =
     rbind (new_inode s e disk) (\<lambda>(ino, s).
     rbind (upd_inode s ino (\<lambda>i. i\<lparr>i_flags := FS_FILE, i_impl := unat (id_get (e_content e) disk)\<rparr>)) (\<lambda>s.
     Inr (ino, s)))"

text \<open>
  \<^verbatim>\<open>parse_dir\<close> and its loop over the entries of the directory. The first argument bounds the depth of
  the recursion and the length of the chains together; an image with a cycle exhausts any bound.
\<close>

fun parse_dir :: "nat \<Rightarrow> 'a idev_state_scheme \<Rightarrow> u32 \<Rightarrow> u32 \<Rightarrow> (ptr \<times> 'a idev_state_scheme) res"
and parse_entries :: "nat \<Rightarrow> 'a idev_state_scheme \<Rightarrow> ptr \<Rightarrow> u32 \<Rightarrow> u32 \<Rightarrow> 'a idev_state_scheme res" where
  "parse_dir 0 s dir disk = Inl Diverges"
| "parse_dir (Suc n) s dir disk =
     rbind (read_entry s dir) (\<lambda>e.
       if e_type e \<noteq> 1 then Inl Panic
       else rbind (new_inode s e disk) (\<lambda>(ino, s).
         case list_create (lists s) of (l, h) \<Rightarrow>
           rbind (upd_inode (s\<lparr>lists := h\<rparr>) ino (\<lambda>i. i\<lparr>i_flags := FS_DIR, i_impl := l\<rparr>)) (\<lambda>s.
           rbind (if id_get (e_count e) disk > 0
                  then parse_entries n s l (id_get (e_content e) disk) disk else Inr s) (\<lambda>s.
           Inr (ino, s)))))"
| "parse_entries 0 s l entry disk = (if entry = 0 then Inr s else Inl Diverges)"
| "parse_entries (Suc n) s l entry disk =
     (if entry = 0 then Inr s
      else rbind (read_entry s entry) (\<lambda>e.
           rbind (if e_type e = 0 then parse_file s e disk
                  else if e_type e = 1 then parse_dir n s entry disk
                  else Inl Panic) (\<lambda>(ino, s).
           rbind (list_add_back (lists s) l ino) (\<lambda>h.
             parse_entries n (s\<lparr>lists := h\<rparr>) l (id_get (e_next e) disk) disk))))"

text \<open>
  \<^verbatim>\<open>init_initrd\<close>, from the address at which \<^verbatim>\<open>mod_load\<close> mapped module 0, with \<open>type\<close> the address of the
  static \<^verbatim>\<open>struct fstype initrd\<close>. The header has four bytes.
\<close>

definition init_initrd :: "nat \<Rightarrow> 'a idev_state_scheme \<Rightarrow> nat \<Rightarrow> u32 \<Rightarrow> ptr \<Rightarrow> 'a idev_state_scheme res" where
  "init_initrd n s mods_count disk type =
     rbind (kassert (\<not> mods_count < 1)) (\<lambda>_.
     rbind (check_img s disk) (\<lambda>ok.
     rbind (kassert ok) (\<lambda>_.
     rbind (parse_dir n s (disk + 4) disk) (\<lambda>(root, s).
     rbind (vfs_register (s\<lparr>id_root := root\<rparr>) type) (\<lambda>(r, s). Inr s)))))"

section \<open>devfs.c\<close>

definition dev_mount ::
    "'a idev_state_scheme \<Rightarrow> ptr \<Rightarrow> string option \<Rightarrow> u32 \<Rightarrow> (int \<times> 'a idev_state_scheme) res" where
  "dev_mount s sb dev flags =
     rbind (deref (supers s) sb) (\<lambda>b.
     rbind (upd_inode (s\<lparr>supers := (supers s)(sb \<mapsto> b\<lparr>sb_root := devfs_root s, sb_ops := DEVFS_SBOPS\<rparr>)\<rparr>)
              (devfs_root s) (\<lambda>i. i\<lparr>i_sb := sb\<rparr>)) (\<lambda>s.
     Inr (0, s)))"

text \<open>\<^verbatim>\<open>index >= list_size(devices)\<close> compares unsigned numbers.\<close>

definition dev_readdir :: "'a idev_state_scheme \<Rightarrow> ptr \<Rightarrow> u32 \<Rightarrow> (ptr \<times> 'a idev_state_scheme) res" where
  "dev_readdir s ino index =
     (if ino \<noteq> devfs_root s then Inr (NULL, s)
      else rbind (list_size (lists s) (devices s)) (\<lambda>n.
        if index \<ge> word_of_int n then Inr (NULL, s)
        else let dirent = next_obj s; s = s\<lparr>next_obj := Suc dirent\<rparr>
             in rbind (list_iterate (lists s) (devices s)) (\<lambda>es.
                  if unat index < length es then dirent_of s dirent (es ! unat index)
                  else Inr (NULL, s))))"

definition dev_finddir :: "'a idev_state_scheme \<Rightarrow> ptr \<Rightarrow> string \<Rightarrow> (ptr \<times> 'a idev_state_scheme) res" where
  "dev_finddir s ino name =
     (if ino \<noteq> devfs_root s then Inr (NULL, s)
      else rbind (list_search (has_name s name) (lists s) (devices s)) (\<lambda>e.
        if e = NULL then Inr (NULL, s)
        else rbind (get_entry (lists s) e) (\<lambda>x. Inr (le_data x, s))))"

definition devfs_register :: "'a idev_state_scheme \<Rightarrow> ptr \<Rightarrow> (int \<times> 'a idev_state_scheme) res" where
  "devfs_register s ino =
     rbind (deref (inodes s) (devfs_root s)) (\<lambda>r.
     rbind (upd_inode s ino (\<lambda>i. i\<lparr>i_sb := i_sb r\<rparr>)) (\<lambda>s.
     rbind (list_add_back (lists s) (devices s) ino) (\<lambda>h. Inr (0, s\<lparr>lists := h\<rparr>))))"

definition devfs_unregister :: "'a idev_state_scheme \<Rightarrow> ptr \<Rightarrow> (int \<times> 'a idev_state_scheme) res" where
  "devfs_unregister s ino =
     rbind (list_search (\<lambda>d. Inr (ino = d)) (lists s) (devices s)) (\<lambda>e.
       if e = NULL then Inr (- ENOENT, s)
       else rbind (list_del_entry (lists s) (devices s) e) (\<lambda>(d, h). Inr (0, s\<lparr>lists := h\<rparr>)))"

text \<open>\<open>type\<close> is the address of the static \<^verbatim>\<open>struct fstype devfs\<close>.\<close>

definition init_devfs :: "'a idev_state_scheme \<Rightarrow> ptr \<Rightarrow> 'a idev_state_scheme res" where
  "init_devfs s type =
     (case list_create (lists s) of (l, h) \<Rightarrow>
        rbind (vfs_register (s\<lparr>lists := h, devices := l,
                 fstypes := (fstypes s)(type \<mapsto> \<lparr>ft_name = ''devfs'', ft_flags = 0, ft_mount = 2\<rparr>)\<rparr>) type)
          (\<lambda>(r, s). Inr s))"

section \<open>The op tables\<close>

definition initrd_iops :: "'a idev_state_scheme inode_ops" where
  "initrd_iops = \<lparr>iop_create = None, iop_open = Some id_open, iop_unlink = None,
     iop_readdir = Some id_readdir, iop_finddir = Some id_finddir\<rparr>"

definition initrd_fops :: "'a idev_state_scheme drivers \<Rightarrow> 'a idev_state_scheme file_ops" where
  "initrd_fops D = \<lparr>fop_close = Some id_close, fop_dup = None, fop_read = Some id_read, fop_write = None,
     fop_read_async = Some (id_read_async D), fop_write_async = None\<rparr>"

definition devfs_iops :: "'a idev_state_scheme inode_ops" where
  "devfs_iops = \<lparr>iop_create = None, iop_open = None, iop_unlink = None,
     iop_readdir = Some dev_readdir, iop_finddir = Some dev_finddir\<rparr>"

text \<open>The tables of the two file systems, beside those of the other drivers.\<close>

definition kernel_drivers :: "'a idev_state_scheme drivers \<Rightarrow> 'a idev_state_scheme drivers" where
  "kernel_drivers D = D\<lparr>
     iops_of := (iops_of D)(INITRD_IOPS := initrd_iops, DEVFS_IOPS := devfs_iops),
     fops_of := (fops_of D)(INITRD_FOPS := initrd_fops D),
     remount_of := (remount_of D)(INITRD_SBOPS := Some id_remount, DEVFS_SBOPS := None),
     mount_of := (mount_of D)(1 := id_mount, 2 := dev_mount)\<rparr>"

section \<open>Directories\<close>

text \<open>A search over a well-formed list finds the first entry whose data passes the test.\<close>

definition entry_data :: "list_heap \<Rightarrow> ptr \<Rightarrow> ptr" where
  "entry_data h a = (case l_entries h a of None \<Rightarrow> NULL | Some e \<Rightarrow> le_data e)"

lemma find_entry_first:
  assumes "\<forall>a \<in> set as. 0 < a \<and> l_entries h a \<noteq> None" and "\<forall>a \<in> set as. P (entry_data h a) = Inr (Q (entry_data h a))"
  shows "find_entry P h as = Inr (case List.find (\<lambda>a. Q (entry_data h a)) as of None \<Rightarrow> NULL | Some a \<Rightarrow> a)"
  using assms by (induction as) (auto simp: entry_data_def)

lemma list_search_rep:
  assumes "list_rep h l as" and "\<forall>a \<in> set as. P (entry_data h a) = Inr (Q (entry_data h a))"
  shows "list_search P h l = Inr (case List.find (\<lambda>a. Q (entry_data h a)) as of None \<Rightarrow> NULL | Some a \<Rightarrow> a)"
  unfolding list_search_def list_iterate_rep [OF assms(1)]
  using find_entry_first [of as h P Q] list_rep_alloc [OF assms(1)] assms(2) by simp

lemma list_search_data:
  assumes rep: "list_rep h l as" and P: "\<forall>a \<in> set as. P (entry_data h a) = Inr (Q (entry_data h a))"
  shows "rbind (list_search P h l) (\<lambda>e. if e = NULL then none else rbind (get_entry h e) (\<lambda>x. f (le_data x)))
      = (case List.find Q (datas h as) of None \<Rightarrow> none | Some d \<Rightarrow> f d)"
proof -
  have d: "datas h as = map (entry_data h) as" by (simp add: datas_def entry_data_def)
  have f: "List.find Q (map (entry_data h) as) = map_option (entry_data h) (List.find (\<lambda>a. Q (entry_data h a)) as)"
    by (induction as) auto
  show ?thesis
  proof (cases "List.find (\<lambda>a. Q (entry_data h a)) as")
    case None
    then show ?thesis using list_search_rep [OF assms] by (simp add: d f)
  next
    case (Some a)
    then have "a \<in> set as" by (auto simp: find_Some_iff)
    then obtain e where "l_entries h a = Some e" "0 < a" using list_rep_alloc [OF rep] by blast
    with Some show ?thesis using list_search_rep [OF assms] by (simp add: d f entry_data_def)
  qed
qed

definition named :: "'a vfs_state_scheme \<Rightarrow> string \<Rightarrow> ptr \<Rightarrow> bool" where
  "named s name p = (case inodes s p of None \<Rightarrow> False | Some i \<Rightarrow> i_name i = name)"

text \<open>The inodes on a list, in its order.\<close>

definition inode_list :: "'a vfs_state_scheme \<Rightarrow> ptr \<Rightarrow> ptr list \<Rightarrow> bool" where
  "inode_list s l ps \<longleftrightarrow> (\<exists>as. list_rep (lists s) l as \<and> ps = datas (lists s) as)
     \<and> (\<forall>p \<in> set ps. p \<noteq> NULL \<and> inodes s p \<noteq> None)"

definition find_named :: "'a vfs_state_scheme \<Rightarrow> ptr list \<Rightarrow> string \<Rightarrow> ptr" where
  "find_named s ps name = (case List.find (named s name) ps of None \<Rightarrow> NULL | Some p \<Rightarrow> p)"

lemma search_named:
  assumes "inode_list s l ps"
  shows "rbind (list_search (has_name s name) (lists s) l)
      (\<lambda>e. if e = NULL then none else rbind (get_entry (lists s) e) (\<lambda>x. Inr (le_data x, s)))
    = (case List.find (named s name) ps of None \<Rightarrow> none | Some p \<Rightarrow> Inr (p, s))"
proof -
  from assms obtain as where rep: "list_rep (lists s) l as" and ps: "ps = datas (lists s) as"
    and p: "\<forall>p \<in> set ps. p \<noteq> NULL \<and> inodes s p \<noteq> None" by (auto simp: inode_list_def)
  have "entry_data (lists s) a \<in> set ps" if "a \<in> set as" for a
    using that ps by (auto simp: datas_def entry_data_def)
  moreover have "has_name s name d = Inr (named s name d)" if "d \<in> set ps" for d
    using p that by (cases "inodes s d") (auto simp: has_name_def named_def deref_def)
  ultimately have "\<forall>a \<in> set as. has_name s name (entry_data (lists s) a) = Inr (named s name (entry_data (lists s) a))"
    by blast
  from list_search_data [OF rep this, of none "\<lambda>d. Inr (d, s)"] show ?thesis unfolding ps .
qed

lemma inode_list_iterate: "inode_list s l ps \<Longrightarrow> \<exists>as. list_iterate (lists s) l = Inr as \<and> ps = datas (lists s) as"
  using list_iterate_rep by (auto simp: inode_list_def)

text \<open>The content of a ramdisk directory.\<close>

definition id_content :: "'a idev_state_scheme \<Rightarrow> ptr \<Rightarrow> ptr list" where
  "id_content s p =
     (case inodes s p of None \<Rightarrow> []
      | Some i \<Rightarrow> (case list_iterate (lists s) (i_impl i) of Inl _ \<Rightarrow> [] | Inr as \<Rightarrow> datas (lists s) as))"

definition id_dir_ok :: "'a idev_state_scheme \<Rightarrow> ptr \<Rightarrow> bool" where
  "id_dir_ok s p \<longleftrightarrow> p \<noteq> NULL \<and>
     (case inodes s p of None \<Rightarrow> False | Some i \<Rightarrow> \<exists>ps. inode_list s (i_impl i) ps)"

definition id_child :: "'a idev_state_scheme \<Rightarrow> ptr \<Rightarrow> string \<Rightarrow> ptr" where
  "id_child s p name = find_named s (id_content s p) name"

lemma id_finddir_child:
  assumes "id_dir_ok s p"
  shows "id_finddir s p name = (let q = id_child s p name in Inr (q, if q = NULL then vfs_seterror s (- ENOENT) else s))"
proof -
  from assms obtain i ps where i: "p \<noteq> NULL" "inodes s p = Some i" "inode_list s (i_impl i) ps"
    by (auto simp: id_dir_ok_def split: option.splits)
  from inode_list_iterate [OF i(3)] obtain as where as: "list_iterate (lists s) (i_impl i) = Inr as" "ps = datas (lists s) as" by blast
  have c: "id_content s p = ps" using i as by (simp add: id_content_def)
  have "q \<noteq> NULL" if "List.find (named s name) ps = Some q" for q
    using that i(3) by (metis find_SomeD inode_list_def)
  then show ?thesis
    using i search_named [OF i(3), of name "ret_null_and_err s (- ENOENT)"]
    by (auto simp: id_finddir_def deref_def id_child_def c find_named_def ret_null_and_err_def Let_def split: option.splits)
qed

lemma inode_list_error [simp]: "inode_list (s\<lparr>fs_error := e\<rparr>) l ps = inode_list s l ps"
  by (simp add: inode_list_def)

lemma named_error [simp]: "named (s\<lparr>fs_error := e\<rparr>) = named s"
  by (simp add: named_def fun_eq_iff)

lemma find_named_error [simp]: "find_named (s\<lparr>fs_error := e\<rparr>) = find_named s"
  by (simp add: find_named_def fun_eq_iff)

interpretation initrd: directory "kernel_drivers D" INITRD_IOPS id_dir_ok id_child for D
proof
  fix s :: "'a idev_state_scheme" and ino fd name e
  show "iop_finddir (iops_of (kernel_drivers D) INITRD_IOPS) \<noteq> None"
    by (simp add: kernel_drivers_def initrd_iops_def)
  show "id_dir_ok (s\<lparr>fs_error := e\<rparr>) ino = id_dir_ok s ino" "id_child (s\<lparr>fs_error := e\<rparr>) ino name = id_child s ino name"
    by (simp_all add: id_dir_ok_def id_child_def id_content_def cong: option.case_cong sum.case_cong)
  assume "id_dir_ok s ino" and "iop_finddir (iops_of (kernel_drivers D) INITRD_IOPS) = Some fd"
  then show "returns (fd s ino name) (\<lambda>(p, t). p = id_child s ino name \<and> t = s\<lparr>fs_error := fs_error t\<rparr>)"
    by (auto simp: kernel_drivers_def initrd_iops_def id_finddir_child vfs_seterror_def Let_def)
qed simp

interpretation initrd: file_driver "kernel_drivers D" INITRD_IOPS INITRD_FOPS for D
  by unfold_locales (auto simp: kernel_drivers_def initrd_iops_def initrd_fops_def id_open_def upd_file_def deref_def id_close_def)

section \<open>Devices\<close>

definition dev_ok :: "'a idev_state_scheme \<Rightarrow> ptr \<Rightarrow> bool" where
  "dev_ok s p \<longleftrightarrow> p \<noteq> NULL \<and> p = devfs_root s \<and> (\<exists>ps. inode_list s (devices s) ps)"

definition dev_content :: "'a idev_state_scheme \<Rightarrow> ptr list" where
  "dev_content s = (case list_iterate (lists s) (devices s) of Inl _ \<Rightarrow> [] | Inr as \<Rightarrow> datas (lists s) as)"

definition dev_child :: "'a idev_state_scheme \<Rightarrow> ptr \<Rightarrow> string \<Rightarrow> ptr" where
  "dev_child s p name = find_named s (dev_content s) name"

lemma dev_content_list: "inode_list s (devices s) ps \<Longrightarrow> dev_content s = ps"
  by (auto simp: dev_content_def dest: inode_list_iterate)

lemma dev_finddir_child: "dev_ok s p \<Longrightarrow> dev_finddir s p name = Inr (dev_child s p name, s)"
proof -
  assume "dev_ok s p"
  then obtain ps where ps: "p = devfs_root s" "inode_list s (devices s) ps" by (auto simp: dev_ok_def)
  then show ?thesis
    using search_named [OF ps(2), of name "Inr (NULL, s)"]
    by (simp add: dev_finddir_def dev_child_def find_named_def dev_content_list split: option.splits)
qed

interpretation devfs: directory "kernel_drivers D" DEVFS_IOPS dev_ok dev_child for D
proof
  fix s :: "'a idev_state_scheme" and ino fd name e
  show "iop_finddir (iops_of (kernel_drivers D) DEVFS_IOPS) \<noteq> None"
    by (simp add: kernel_drivers_def devfs_iops_def)
  show "dev_ok (s\<lparr>fs_error := e\<rparr>) ino = dev_ok s ino" "dev_child (s\<lparr>fs_error := e\<rparr>) ino name = dev_child s ino name"
    by (simp_all add: dev_ok_def dev_child_def dev_content_def cong: sum.case_cong)
  assume "dev_ok s ino" and "iop_finddir (iops_of (kernel_drivers D) DEVFS_IOPS) = Some fd"
  then show "returns (fd s ino name) (\<lambda>(p, t). p = dev_child s ino name \<and> t = s\<lparr>fs_error := fs_error t\<rparr>)"
    by (auto simp: kernel_drivers_def devfs_iops_def dev_finddir_child)
qed simp

section \<open>Reading\<close>

lemma read_count:
  assumes "unat (offs :: u32) \<le> unat len" and "unat offs + unat count < 2 ^ 32"
  shows "unat (if offs + count > len then len - offs else count) = min (unat count) (unat len - unat offs)"
proof -
  have "unat (offs + count) = unat offs + unat count" using assms(2) by (simp add: unat_add_u32_small)
  moreover have "unat (len - offs) = unat len - unat offs" using assms(1) by (simp add: unat_sub word_le_nat_alt)
  ultimately show ?thesis using assms(1) by (auto simp: word_less_nat_alt)
qed

lemma initrd_vfs_read:
  assumes f: "file \<noteq> NULL" "files s file = Some f" "f_fops f = INITRD_FOPS"
    and i: "f_inode f \<noteq> NULL" "inodes s (f_inode f) = Some i"
    and offs: "offs \<le> i_length i" and n: "n = (if offs + count > i_length i then i_length i - offs else count)"
    and cpy: "kmemcpy s buffer (of_nat (i_impl i) + offs) (unat n) = Inr t"
  shows "vfs_read (kernel_drivers D) s file buffer count offs =
     Inr (sint n, t\<lparr>files := (files s)(file \<mapsto> f\<lparr>f_pos := f_pos f + 2 * n\<rparr>)\<rparr>)"
proof -
  from kmemcpy_pmem [OF cpy] have t: "files t = files s" by auto
  have "do_read s file offs buffer count = Inr (sint n, t\<lparr>files := (files s)(file \<mapsto> f\<lparr>f_pos := f_pos f + n\<rparr>)\<rparr>)"
    using f i offs cpy t
    by (cases "offs + count > i_length i") (simp_all add: n do_read_def deref_def upd_file_def not_less [symmetric] Let_def)
  then show ?thesis using f
    by (simp add: vfs_read_def deref_def file_op_def kernel_drivers_def initrd_fops_def id_read_def upd_file_def ac_simps)
qed

section \<open>Mounting\<close>

lemma walk_mount:
  assumes "inodes s p = Some i" "p \<noteq> NULL" "bisset (i_flags i) FS_MOUNTP" "\<not> bisset (i_flags i) FS_SYMLINK"
    and "inodes s (i_link i) = Some r" "i_link i \<noteq> NULL"
    and "lookup_enter s r (i_link i) k = (Some (i_link i, k), s)" and "parts \<noteq> []"
  shows "walk_parts D s p k parts = walk_parts D s (i_link i) k parts"
  using assms by (cases parts) (auto simp: deref_def lookup_enter_def)

lemma bisset_mount: "bisset (bset f FS_MOUNTP) FS_MOUNTP" "bisset (bset f FS_MOUNTP) FS_SYMLINK = bisset f FS_SYMLINK"
proof -
  have "(f OR 0x40) AND 0x40 = (0x40 :: u32)" by (simp add: bit_eq_iff bit_simps)
  then show "bisset (bset f FS_MOUNTP) FS_MOUNTP" by (simp add: bisset_def bset_def)
  have "(f OR 0x40) AND 0x20 = f AND (0x20 :: u32)"
    by (simp add: bit.conj_disj_distrib2)
  then show "bisset (bset f FS_MOUNTP) FS_SYMLINK = bisset f FS_SYMLINK" by (simp add: bisset_def bset_def)
qed

definition mounted_initrd :: "'a idev_state_scheme \<Rightarrow> ptr \<Rightarrow> u32 \<Rightarrow> 'a idev_state_scheme" where
  "mounted_initrd s point flags = s\<lparr>
     supers := (supers s)(next_obj s \<mapsto> \<lparr>sb_root = id_root s, sb_flags = bclr flags (FSM_WRITE OR FSM_EXEC), sb_ops = INITRD_SBOPS\<rparr>),
     next_obj := Suc (next_obj s),
     inodes := (inodes s)(point := map_option (\<lambda>i. i\<lparr>i_flags := bset (i_flags i) FS_MOUNTP, i_link := id_root s\<rparr>) (inodes s point))\<rparr>"

lemma initrd_vfs_mount:
  assumes "type \<noteq> NULL" "fstypes s type = Some t" "ft_mount t = 1" "\<not> bisset (ft_flags t) FST_NEED_DEV"
    and "point \<noteq> NULL" "inodes s point = Some i" "bisset (i_flags i) FS_DIR" and "next_obj s \<noteq> NULL"
  shows "vfs_mount (kernel_drivers D) s type point dev flags = Inr (0, mounted_initrd s point flags)"
  using assms
  by (simp add: vfs_mount_def deref_def bnotset_not kernel_drivers_def id_mount_def upd_inode_def mounted_initrd_def Let_def)

lemma mounted_same:
  "lists (mounted_initrd s point flags) = lists s" "fs_root (mounted_initrd s point flags) = fs_root s"
  "inodes (mounted_initrd s point flags) p = None \<longleftrightarrow> inodes s p = None"
  "named (mounted_initrd s point flags) = named s"
  "p \<noteq> point \<Longrightarrow> inodes (mounted_initrd s point flags) p = inodes s p"
  by (auto simp: mounted_initrd_def named_def fun_eq_iff split: option.splits)

lemma mounted_inode_list: "inode_list (mounted_initrd s point flags) l ps = inode_list s l ps"
  by (simp add: inode_list_def mounted_same)

lemma mounted_dir:
  assumes "p \<noteq> point"
  shows "id_dir_ok (mounted_initrd s point flags) p = id_dir_ok s p"
    "id_child (mounted_initrd s point flags) p name = id_child s p name"
    "is_dir (mounted_initrd s point flags) p = is_dir s p"
  using assms by (simp_all add: id_dir_ok_def id_child_def id_content_def find_named_def is_dir_def
      mounted_same mounted_inode_list cong: option.case_cong sum.case_cong)

lemma mounted_plain:
  assumes t: "plain_tree INITRD_IOPS id_dir_ok id_child s A" and p: "point \<notin> A"
  shows "plain_tree INITRD_IOPS id_dir_ok id_child (mounted_initrd s point flags) A"
proof -
  have "q \<noteq> point" if "q \<in> A" for q using p that by blast
  with t show ?thesis unfolding plain_tree_def
    by (auto simp: mounted_same mounted_dir split: option.splits)
qed

lemma plain_tree_entry:
  "plain_tree tab ok entry s A \<Longrightarrow> p \<in> A \<Longrightarrow> is_dir s p \<Longrightarrow> entry s p n \<in> insert NULL A"
  unfolding plain_tree_def is_dir_def by (cases "inodes s p") force+

lemma resolve_cong:
  assumes "ino \<in> insert NULL A" and "\<And>p n. p \<in> A \<Longrightarrow> d p = d' p \<and> e p n = e' p n \<and> (d p \<longrightarrow> e p n \<in> insert NULL A)"
  shows "resolve d e ino parts = resolve d' e' ino parts"
  using assms(1)
proof (induction parts arbitrary: ino)
  case (Cons q parts)
  show ?case
  proof (cases "ino = NULL")
    case False
    then have "ino \<in> A" using Cons.prems by simp
    with assms(2) [of ino q] Cons.IH show ?thesis by auto
  qed simp
qed simp

lemma initrd_lookup_mounted:
  fixes s :: "'a idev_state_scheme"
  assumes t: "plain_tree INITRD_IOPS id_dir_ok id_child s A" and r: "id_root s \<in> A" "is_dir s (id_root s)"
    and p: "fs_root s \<notin> A" "fs_root s \<noteq> NULL" "inodes s (fs_root s) = Some i" "\<not> bisset (i_flags i) FS_SYMLINK"
    and st: "start \<noteq> NULL" "inodes s start \<noteq> None" and path: "path_absolute path"
    and l: "list_all (\<lambda>p. length p < FS_MAX_NAME) (all_parts path)"
  shows "returns (vfs_lookup (kernel_drivers D) (mounted_initrd s (fs_root s) flags) path start)
     (\<lambda>(q, u). q = resolve (is_dir s) (id_child s) (id_root s) (all_parts path))"
proof -
  define m where "m = mounted_initrd s (fs_root s) flags"
  note same = mounted_same [where s = s and point = "fs_root s" and flags = flags, folded m_def]
  have pm: "plain_tree INITRD_IOPS id_dir_ok id_child m A" using mounted_plain [OF t p(1)] by (simp add: m_def)
  have im: "inodes m (fs_root s) = Some (i\<lparr>i_flags := bset (i_flags i) FS_MOUNTP, i_link := id_root s\<rparr>)"
    using p by (simp add: m_def mounted_initrd_def)
  have "NULL \<notin> A" using t by (simp add: plain_tree_def)
  then have r0: "id_root s \<noteq> NULL" "id_root s \<noteq> fs_root s" using r(1) p(1) by metis+
  obtain j where j: "inodes m (id_root s) = Some j" using pm r(1) by (auto simp: plain_tree_def split: option.splits)
  have rd: "is_dir m (id_root s)" using mounted_dir(3) [OF r0(2), of s flags] r(2) by (simp add: m_def)
  have "inodes m start \<noteq> None" using st(2) unfolding same(3) .
  then obtain y where st': "inodes m start = Some y" by blast
  show ?thesis
  proof (cases "all_parts path")
    case Nil
    then show ?thesis using st(1) st' im p(2,4) path
      by (simp add: m_def [symmetric] vfs_lookup_parts lookup_by_parts_def deref_def same bisset_mount)
  next
    case (Cons x xs)
    have "walk_parts (kernel_drivers D) m (fs_root s) 0 (all_parts path) = walk_parts (kernel_drivers D) m (id_root s) 0 (all_parts path)"
      using walk_mount [OF im p(2), of j 0 "all_parts path" "kernel_drivers D"] p(4) r0 j Cons
        initrd.enter_plain [OF pm r(1) j, of 0] rd by (simp add: bisset_mount)
    moreover have "id_root s \<in> insert NULL A" using r by simp
    from initrd.walk_plain [OF pm this l, of D 0] obtain c q u where
      w: "walk_parts (kernel_drivers D) m (id_root s) 0 (all_parts path) = Inr (c, q, u)"
        "q = resolve (is_dir m) (id_child m) (id_root s) (all_parts path)" "q \<in> insert NULL A" "u = m\<lparr>fs_error := fs_error u\<rparr>"
      by (elim returnsE) (simp add: case_prod_unfold, metis prod.collapse)
    moreover have "inodes u = inodes m" using arg_cong [OF w(4), of inodes] by simp
    moreover have "q \<noteq> NULL \<Longrightarrow> \<exists>i. inodes m q = Some i \<and> \<not> bisset (i_flags i) FS_MOUNTP"
      using pm w(3) by (auto simp: plain_tree_def split: option.splits)
    moreover have "resolve (is_dir m) (id_child m) (id_root s) (all_parts path) = resolve (is_dir s) (id_child s) (id_root s) (all_parts path)"
    proof (rule resolve_cong [of _ A])
      fix q n assume q: "q \<in> A"
      then have "q \<noteq> fs_root s" using p by blast
      then show "is_dir m q = is_dir s q \<and> id_child m q n = id_child s q n \<and> (is_dir m q \<longrightarrow> id_child m q n \<in> insert NULL A)"
        using mounted_dir [of q "fs_root s" s flags] plain_tree_entry [OF t q, of n] by (simp add: m_def)
    qed (use r in simp)
    ultimately show ?thesis using st(1) st' path
      by (auto simp: m_def [symmetric] vfs_lookup_parts lookup_by_parts_def deref_def same)
  qed
qed

section \<open>Registering a device\<close>

lemma list_add_back_data:
  assumes "list_rep h l as" and "list_add_back h l d = Inr h'"
  shows "\<exists>bs. list_rep h' l bs \<and> datas h' bs = datas h as @ [d]"
  using list_add_back_rep [OF assms(1), of d] assms(2) by auto

lemma devfs_register_content:
  assumes ps: "inode_list s (devices s) ps" and i: "ino \<noteq> NULL" "inodes s ino = Some i"
    and r: "devfs_root s \<noteq> NULL" "inodes s (devfs_root s) = Some r"
  shows "returns (devfs_register s ino) (\<lambda>(err, t). err = 0 \<and> inode_list t (devices t) (ps @ [ino])
     \<and> named t = named s \<and> devfs_root t = devfs_root s)"
proof -
  from ps obtain as where as: "list_rep (lists s) (devices s) as" "ps = datas (lists s) as"
    "\<forall>p \<in> set ps. p \<noteq> NULL \<and> inodes s p \<noteq> None" by (auto simp: inode_list_def)
  obtain h where h: "list_add_back (lists s) (devices s) ino = Inr h"
    using list_add_back_rep [OF as(1), of ino] by (rule returnsE)
  from list_add_back_data [OF as(1) h] obtain bs where bs: "list_rep h (devices s) bs" "datas h bs = ps @ [ino]"
    using as(2) by auto
  define t where "t = s\<lparr>inodes := (inodes s)(ino \<mapsto> i\<lparr>i_sb := i_sb r\<rparr>), lists := h\<rparr>"
  have "devfs_register s ino = Inr (0, t)"
    using i r h by (simp add: devfs_register_def deref_def upd_inode_def t_def)
  moreover have "inode_list t (devices t) (ps @ [ino])"
    unfolding inode_list_def using bs as(3) i by (auto simp: t_def intro!: exI [of _ bs])
  moreover have "named t = named s" using i by (auto simp: t_def named_def fun_eq_iff)
  ultimately show ?thesis by (simp add: t_def)
qed

lemma find_named_snoc:
  "find_named s (ps @ [p]) name = (if \<exists>q \<in> set ps. named s name q then find_named s ps name
     else if named s name p then p else NULL)"
  by (induction ps) (auto simp: find_named_def)

section \<open>Results\<close>

text \<open>
  An example: the ramdisk has a root directory (inode 2) with one file \<^verbatim>\<open>f\<close> (inode 3) of 8 bytes, and
  inode 1 is the root of the file system.
\<close>

definition demo_inode :: "string \<Rightarrow> u32 \<Rightarrow> u32 \<Rightarrow> nat \<Rightarrow> ptr \<Rightarrow> inode" where
  "demo_inode name flags len impl ops = \<lparr>i_name = name, i_flags = flags, i_perm = 0, i_length = len, i_uid = 0,
     i_gid = 0, i_opencount = 0, i_impl = impl, i_link = NULL, i_ops = ops, i_sb = NULL\<rparr>"

definition demo_objects :: vfs_state where
  "demo_objects = pm_state.extend demo_sched (vfs_state.fields
     [1 \<mapsto> demo_inode ''/'' FS_DIR 0 0 NULL, 2 \<mapsto> demo_inode ''<no name>'' FS_DIR 1 1 INITRD_IOPS,
      3 \<mapsto> demo_inode ''f'' FS_FILE 8 0x5000 INITRD_IOPS]
     [6 \<mapsto> \<lparr>f_inode = 3, f_pos = 0, f_fops = INITRD_FOPS\<rparr>] (\<lambda>_. None) (\<lambda>_. None) (\<lambda>_. None)
     [4 \<mapsto> \<lparr>ft_name = ''initrd'', ft_flags = 0, ft_mount = 1\<rparr>] 7
     \<lparr>l_entries = [2 \<mapsto> \<lparr>le_data = 3, le_next = NULL, le_prev = NULL\<rparr>],
      l_lists = [1 \<mapsto> \<lparr>l_front = 2, l_back = 2, l_size = 1\<rparr>], l_fresh = 3\<rparr>
     NULL 1 0 (\<lambda>_. None))"

definition demo_fs :: idev_state where
  "demo_fs = (vfs_state.extend demo_objects (idev_state.fields 2 5 1 1))
     \<lparr>pdirs := (\<lambda>_ _. 0x6003), ptabs := (\<lambda>_ i. push_bit 12 (of_nat i) OR 3)\<rparr>"

lemmas idev_fields = pm_state.defs vfs_state.defs idev_state.defs

lemma demo_fs_simps:
  "inodes demo_fs = [1 \<mapsto> demo_inode ''/'' FS_DIR 0 0 NULL, 2 \<mapsto> demo_inode ''<no name>'' FS_DIR 1 1 INITRD_IOPS,
      3 \<mapsto> demo_inode ''f'' FS_FILE 8 0x5000 INITRD_IOPS]"
  "id_root demo_fs = 2" "fs_root demo_fs = 1" "next_obj demo_fs = 7"
  "fstypes demo_fs 4 = Some \<lparr>ft_name = ''initrd'', ft_flags = 0, ft_mount = 1\<rparr>"
  "lists demo_fs = \<lparr>l_entries = [2 \<mapsto> \<lparr>le_data = 3, le_next = NULL, le_prev = NULL\<rparr>],
      l_lists = [1 \<mapsto> \<lparr>l_front = 2, l_back = 2, l_size = 1\<rparr>], l_fresh = 3\<rparr>"
  "files demo_fs 6 = Some \<lparr>f_inode = 3, f_pos = 0, f_fops = INITRD_FOPS\<rparr>"
  "devices demo_fs = 1" "devfs_root demo_fs = 1"
  by (simp_all add: demo_fs_def demo_objects_def idev_fields)


lemma demo_fs_kaddr: "v \<in> {0x5004, 0x5005, 0x5006, 0x5007, 0x7000, 0x7001, 0x7002, 0x7003} \<Longrightarrow> kaddr demo_fs v = Inr v"
  by (auto simp: demo_fs_def demo_objects_def idev_fields kaddr_def bisset_def Let_def ptab_index_def addr2page_def
      PAGE_OFFSET_def getaddr_def bmask_def)

lemma demo_fs_list: "inode_list demo_fs 1 [3]"
  by (auto simp: inode_list_def demo_fs_simps list_rep_def heap_ok_def within_def last_or_def datas_def
      intro!: exI [of _ "[2]"])

lemma demo_fs_tree: "plain_tree INITRD_IOPS id_dir_ok id_child demo_fs {2, 3}"
proof -
  have c: "id_content demo_fs 2 = [3]"
    using inode_list_iterate [OF demo_fs_list] by (auto simp: id_content_def demo_fs_simps demo_inode_def)
  have "id_dir_ok demo_fs 2" using demo_fs_list by (auto simp: id_dir_ok_def demo_fs_simps demo_inode_def)
  moreover have "id_child demo_fs 2 n \<in> {0, 2, 3}" for n by (simp add: id_child_def c find_named_def)
  ultimately show ?thesis
    by (simp add: plain_tree_def demo_fs_simps demo_inode_def bisset_def)
qed

text \<open>
  Mounting the ramdisk on the root and looking up an absolute path: \<^verbatim>\<open>vfs_mount\<close> succeeds, and
  \<^verbatim>\<open>vfs_lookup\<close> then returns what resolving the components of the path from the root directory of the
  ramdisk gives, each by the first entry of the directory's list with that name.
\<close>

theorem initrd_mount_lookup:
  fixes s :: "'a idev_state_scheme"
  assumes "type \<noteq> NULL" "fstypes s type = Some t" "ft_mount t = 1" "\<not> bisset (ft_flags t) FST_NEED_DEV"
    and "plain_tree INITRD_IOPS id_dir_ok id_child s A" "id_root s \<in> A" "is_dir s (id_root s)"
    and "fs_root s \<notin> A" "fs_root s \<noteq> NULL" "inodes s (fs_root s) = Some i"
    and "bisset (i_flags i) FS_DIR" "\<not> bisset (i_flags i) FS_SYMLINK" "next_obj s \<noteq> NULL"
    and "start \<noteq> NULL" "inodes s start \<noteq> None" "path_absolute path"
    and "list_all (\<lambda>p. length p < FS_MAX_NAME) (all_parts path)"
  shows "returns (vfs_mount (kernel_drivers D) s type (fs_root s) dev flags) (\<lambda>(err, u). err = 0
     \<and> returns (vfs_lookup (kernel_drivers D) u path start) (\<lambda>(q, v).
         q = resolve (is_dir s) (id_child s) (id_root s) (all_parts path)))"
  using initrd_vfs_mount [OF assms(1-4,9-11,13)] initrd_lookup_mounted [OF assms(5-10,12,14-17)] by simp

theorem initrd_mount_lookup_witness:
  "\<forall>D. returns (vfs_mount (kernel_drivers D) demo_fs 4 1 None 0) (\<lambda>(err, u). err = 0
     \<and> returns (vfs_lookup (kernel_drivers D) u ''/f'' 1) (\<lambda>(q, v). q = 3))"
proof
  fix D
  have p: "all_parts ''/f'' = [''f'']" by (simp add: all_parts_def path_parts_def)
  have "id_content demo_fs 2 = [3]"
    using inode_list_iterate [OF demo_fs_list] by (auto simp: id_content_def demo_fs_simps demo_inode_def)
  then have r: "resolve (is_dir demo_fs) (id_child demo_fs) (id_root demo_fs) (all_parts ''/f'') = 3"
    by (simp add: p is_dir_def id_child_def find_named_def named_def demo_fs_simps demo_inode_def bisset_def)
  have "returns (vfs_mount (kernel_drivers D) demo_fs 4 (fs_root demo_fs) None 0) (\<lambda>(err, u). err = 0
     \<and> returns (vfs_lookup (kernel_drivers D) u ''/f'' 1) (\<lambda>(q, v).
         q = resolve (is_dir demo_fs) (id_child demo_fs) (id_root demo_fs) (all_parts ''/f'')))"
    using demo_fs_tree
    by (rule initrd_mount_lookup [rotated 4]) (simp_all add: demo_fs_simps demo_inode_def is_dir_def bisset_def p path_absolute_def, simp_all)
  then show "returns (vfs_mount (kernel_drivers D) demo_fs 4 1 None 0) (\<lambda>(err, u). err = 0
     \<and> returns (vfs_lookup (kernel_drivers D) u ''/f'' 1) (\<lambda>(q, v). q = 3))"
    unfolding r by (simp add: demo_fs_simps)
qed

text \<open>
  C25. Reading a ramdisk file: \<^verbatim>\<open>vfs_read\<close> at an offset not past the end returns the number of bytes
  left in the file if fewer than asked for, copies exactly those bytes of the file to the buffer, changes
  no other memory, and leaves everything else but the position of the file as it was. The position is advanced
  twice, by the driver and by \<^verbatim>\<open>vfs_read\<close>.
\<close>

theorem initrd_read_spec:
  assumes f: "file \<noteq> NULL" "files s file = Some f" "f_fops f = INITRD_FOPS"
    and i: "f_inode f \<noteq> NULL" "inodes s (f_inode f) = Some i"
    and offs: "unat offs \<le> unat (i_length i)" "unat offs + unat count < 2 ^ 31"
    and n: "n = min (unat count) (unat (i_length i) - unat offs)"
    and src: "kmapped s (of_nat (i_impl i) + offs) n a" and dst: "kmapped s buffer n b"
    and dj: "inj_on b {..<n}" "a ` {..<n} \<inter> b ` {..<n} = {}"
  shows "returns (vfs_read (kernel_drivers D) s file buffer count offs) (\<lambda>(r, t). r = int n
     \<and> (\<forall>k < n. pmem t (b k) = pmem s (a k)) \<and> (\<forall>x. x \<notin> b ` {..<n} \<longrightarrow> pmem t x = pmem s x)
     \<and> files t = (files s)(file \<mapsto> f\<lparr>f_pos := f_pos f + 2 * of_nat n\<rparr>)
     \<and> t = s\<lparr>pmem := pmem t, files := files t\<rparr>)"
proof -
  define w where "w = (if offs + count > i_length i then i_length i - offs else count)"
  have w: "unat w = n" using read_count [OF offs(1), of count] offs(2) by (simp add: w_def n)
  have "n < 2 ^ 31" using n offs(2) by simp
  then have "sint w = int n" using w by (simp add: sint_u32_small)
  moreover have "w = of_nat n" using w by (simp flip: w)
  moreover from kmemcpy_copies [OF src dst dj] obtain m where m:
    "kmemcpy s buffer (of_nat (i_impl i) + offs) n = Inr (s\<lparr>pmem := m\<rparr>)"
    "\<forall>k < n. m (b k) = pmem s (a k)" "\<forall>x. x \<notin> b ` {..<n} \<longrightarrow> m x = pmem s x" by blast
  moreover have "offs \<le> i_length i" using offs(1) by (simp add: word_le_nat_alt)
  ultimately show ?thesis
    using initrd_vfs_read [OF f i _ w_def, of buffer "s\<lparr>pmem := m\<rparr>" D] w by simp
qed

lemma less_4: "{..<4 :: nat} = {0, 1, 2, 3}"
  by auto

lemma demo_fs_mapped:
  "kmapped demo_fs 0x5004 4 (\<lambda>k. 0x5004 + of_nat k)" "kmapped demo_fs 0x7000 4 (\<lambda>k. 0x7000 + of_nat k)"
  "inj_on (\<lambda>k. 0x7000 + of_nat k :: u32) {..<4}"
  "(\<lambda>k. 0x5004 + of_nat k :: u32) ` {..<4} \<inter> (\<lambda>k. 0x7000 + of_nat k) ` {..<4} = {}"
proof -
  have "k = 0 \<or> k = 1 \<or> k = 2 \<or> k = 3" if "k < 4" for k :: nat using that by auto
  then show "kmapped demo_fs 0x5004 4 (\<lambda>k. 0x5004 + of_nat k)" "kmapped demo_fs 0x7000 4 (\<lambda>k. 0x7000 + of_nat k)"
    unfolding kmapped_def by (force simp: demo_fs_kaddr)+
qed (simp_all add: less_4)

theorem initrd_read_spec_witness:
  "\<forall>D. returns (vfs_read (kernel_drivers D) demo_fs 6 0x7000 100 4) (\<lambda>(r, t). r = 4 \<and> pmem t 0x7000 = pmem demo_fs 0x5004)"
proof
  fix D
  let ?f = "\<lparr>f_inode = 3, f_pos = 0, f_fops = INITRD_FOPS\<rparr>"
  have "returns (vfs_read (kernel_drivers D) demo_fs 6 0x7000 100 4) (\<lambda>(r, t). r = int 4
     \<and> (\<forall>k < 4. pmem t (0x7000 + of_nat k) = pmem demo_fs (0x5004 + of_nat k))
     \<and> (\<forall>x. x \<notin> (\<lambda>k. 0x7000 + of_nat k) ` {..<4} \<longrightarrow> pmem t x = pmem demo_fs x)
     \<and> files t = (files demo_fs)(6 \<mapsto> ?f\<lparr>f_pos := f_pos ?f + 2 * of_nat 4\<rparr>)
     \<and> t = demo_fs\<lparr>pmem := pmem t, files := files t\<rparr>)"
    by (rule initrd_read_spec [where i = "demo_inode ''f'' FS_FILE 8 0x5000 INITRD_IOPS"])
      (simp_all add: demo_fs_simps demo_inode_def demo_fs_mapped)
  then show "returns (vfs_read (kernel_drivers D) demo_fs 6 0x7000 100 4) (\<lambda>(r, t). r = 4 \<and> pmem t 0x7000 = pmem demo_fs 0x5004)"
    by (rule returns_mono) (auto dest: spec [of _ 0])
qed

text \<open>
  Opening a ramdisk inode and closing the file again: \<^verbatim>\<open>vfs_open\<close> returns a file at position 0 and counts
  the inode as open once more, and \<^verbatim>\<open>vfs_close\<close> of it succeeds, restores the inode and frees the file.
\<close>

theorem initrd_open_close:
  assumes "inodes s ino = Some i" "i_ops i = INITRD_IOPS" "ino \<noteq> NULL" "next_obj s \<noteq> NULL"
  shows "returns (vfs_open (kernel_drivers D) s ino flags) (\<lambda>(file, t).
      file \<noteq> NULL \<and> files t file = Some \<lparr>f_inode = ino, f_pos = 0, f_fops = INITRD_FOPS\<rparr>
      \<and> inodes t = (inodes s)(ino \<mapsto> i\<lparr>i_opencount := i_opencount i + 1\<rparr>)
      \<and> returns (vfs_close (kernel_drivers D) t file) (\<lambda>(err, u). err = 0 \<and> inodes u = inodes s \<and> files u file = None))"
  using assms by (rule initrd.vfs_open_close)

theorem initrd_open_close_witness:
  "\<forall>D. returns (vfs_open (kernel_drivers D) demo_fs 3 0) (\<lambda>(file, t).
      returns (vfs_close (kernel_drivers D) t file) (\<lambda>(err, u). err = 0 \<and> inodes u = inodes demo_fs))"
proof
  fix D
  have "returns (vfs_open (kernel_drivers D) demo_fs 3 0) (\<lambda>(file, t).
      file \<noteq> NULL \<and> files t file = Some \<lparr>f_inode = 3, f_pos = 0, f_fops = INITRD_FOPS\<rparr>
      \<and> inodes t = (inodes demo_fs)(3 \<mapsto> (demo_inode ''f'' FS_FILE 8 0x5000 INITRD_IOPS)\<lparr>i_opencount := i_opencount (demo_inode ''f'' FS_FILE 8 0x5000 INITRD_IOPS) + 1\<rparr>)
      \<and> returns (vfs_close (kernel_drivers D) t file) (\<lambda>(err, u). err = 0 \<and> inodes u = inodes demo_fs \<and> files u file = None))"
    by (rule initrd_open_close) (simp_all add: demo_fs_simps demo_inode_def)
  then show "returns (vfs_open (kernel_drivers D) demo_fs 3 0) (\<lambda>(file, t).
      returns (vfs_close (kernel_drivers D) t file) (\<lambda>(err, u). err = 0 \<and> inodes u = inodes demo_fs))"
    by (auto simp: case_prod_unfold elim!: returns_mono)
qed

text \<open>
  Registering a device: \<^verbatim>\<open>devfs_register\<close> appends it to the directory, and \<^verbatim>\<open>finddir\<close> then finds it by
  its name, unless a device of the same name was registered before, which still wins; the devices
  with other names are found as before.
\<close>

theorem devfs_register_finddir:
  assumes "inode_list s (devices s) ps" and "ino \<noteq> NULL" "inodes s ino = Some i"
    and "devfs_root s \<noteq> NULL" "inodes s (devfs_root s) = Some r"
  shows "returns (devfs_register s ino) (\<lambda>(err, t). err = 0
     \<and> returns (dev_finddir t (devfs_root t) name) (\<lambda>(p, u).
          p = (if find_named s ps name \<noteq> NULL then find_named s ps name
               else if i_name i = name then ino else NULL)))"
proof -
  from devfs_register_content [OF assms] obtain t where
    t: "devfs_register s ino = Inr (0, t)" "inode_list t (devices t) (ps @ [ino])" "named t = named s" "devfs_root t = devfs_root s"
    by (auto elim!: returnsE)
  then have "dev_ok t (devfs_root t)" using assms(4) by (auto simp: dev_ok_def)
  moreover have "find_named s ps name \<noteq> NULL \<longleftrightarrow> (\<exists>q \<in> set ps. named s name q)"
    using assms(1) by (auto simp: find_named_def inode_list_def find_None_iff dest: find_SomeD split: option.splits)
  ultimately show ?thesis
    using t find_named_snoc [of s ps ino name] assms(3)
    by (simp add: dev_finddir_child dev_child_def dev_content_list find_named_def named_def)
qed

theorem devfs_register_finddir_witness:
  "returns (devfs_register demo_fs 1) (\<lambda>(err, t). err = 0
     \<and> returns (dev_finddir t (devfs_root t) ''/'') (\<lambda>(p, u). p = 1))"
  using devfs_register_finddir [of demo_fs "[3]" 1 "demo_inode ''/'' FS_DIR 0 0 NULL" "demo_inode ''/'' FS_DIR 0 0 NULL" "''/''"]
    demo_fs_list by (simp add: demo_fs_simps find_named_def named_def demo_inode_def)

end
