(* ===== verification/Kos_Mkinitrd.thy ===== *)
theory Kos_Mkinitrd
  imports Kos_Initrd
begin

text \<open>
  The host tool that builds a ramdisk image, \<^verbatim>\<open>share/src/mkinitrd/initrd.c\<close>: the tree of entries its
  three calls build, and the writer. The theory shows that the calls for a directory tree build that tree,
  and that the writer, with its seek back to fill in the offset of the next entry, produces the image
  that a recursive encoder defines.
\<close>

section \<open>The tree of entries\<close>

text \<open>
  \<^verbatim>\<open>malloc\<close> returns a new address; what the memory there holds before it is set is \<open>b_junk\<close>.
\<close>

record entry =
  en_name :: string
  en_path :: "string option"
  en_count :: u32
  en_files :: ptr
  en_pdir :: ptr
  en_next :: ptr
  en_last_entry :: ptr

record id_build =
  b_entries :: "ptr \<Rightarrow> entry option"
  b_fresh :: ptr
  b_junk :: entry
  dir_level :: int
  cur_dir :: ptr
  cur_entry :: ptr
  b_root :: ptr
  entry_count :: int

definition id_init :: "id_build \<Rightarrow> id_build" where
  "id_init b = b\<lparr>dir_level := 0, cur_dir := NULL, cur_entry := NULL, b_root := NULL, entry_count := 0\<rparr>"

definition upd_en :: "id_build \<Rightarrow> ptr \<Rightarrow> (entry \<Rightarrow> entry) \<Rightarrow> id_build res" where
  "upd_en b p f = rbind (deref (b_entries b) p) (\<lambda>e. Inr (b\<lparr>b_entries := (b_entries b)(p \<mapsto> f e)\<rparr>))"

definition add_entry :: "id_build \<Rightarrow> ptr \<Rightarrow> id_build res" where
  "add_entry b e =
     rbind (deref (b_entries b) (cur_dir b)) (\<lambda>d.
     rbind (if en_files d = NULL then upd_en b (cur_dir b) (en_files_update (\<lambda>_. e)) else Inr b) (\<lambda>b.
     rbind (upd_en b e (en_next_update (\<lambda>_. NULL))) (\<lambda>b.
     rbind (upd_en b (cur_dir b) (\<lambda>d. d\<lparr>en_count := en_count d + 1\<rparr>)) (\<lambda>b.
     rbind (if cur_entry b \<noteq> NULL then upd_en b (cur_entry b) (en_next_update (\<lambda>_. e)) else Inr b) (\<lambda>b.
     rbind (upd_en b (cur_dir b) (en_last_entry_update (\<lambda>_. e))) (\<lambda>b.
     Inr (b\<lparr>entry_count := entry_count b + 1\<rparr>)))))))"

definition id_start_dir :: "id_build \<Rightarrow> string \<Rightarrow> id_build res" where
  "id_start_dir b name =
     (let dir = b_fresh b;
          b = b\<lparr>b_fresh := Suc dir, b_entries := (b_entries b)(dir \<mapsto> (b_junk b)\<lparr>en_name := name, en_path := None,
                  en_files := NULL, en_pdir := cur_dir b, en_count := 0, en_next := NULL\<rparr>)\<rparr>
      in rbind (if cur_dir b \<noteq> NULL then add_entry b dir else Inr (b\<lparr>b_root := dir\<rparr>)) (\<lambda>b.
         Inr (b\<lparr>cur_dir := dir, cur_entry := NULL\<rparr>)))"

definition id_add_file :: "id_build \<Rightarrow> string \<Rightarrow> string \<Rightarrow> id_build res" where
  "id_add_file b name path =
     (let file = b_fresh b;
          b = b\<lparr>b_fresh := Suc file, b_entries := (b_entries b)(file \<mapsto> (b_junk b)\<lparr>en_name := name,
                  en_path := Some path, en_files := NULL, en_pdir := NULL, en_last_entry := NULL\<rparr>)\<rparr>
      in rbind (add_entry b file) (\<lambda>b. Inr (b\<lparr>cur_entry := file\<rparr>)))"

definition id_end_dir :: "id_build \<Rightarrow> id_build res" where
  "id_end_dir b =
     rbind (deref (b_entries b) (cur_dir b)) (\<lambda>d.
       let b = b\<lparr>cur_dir := en_pdir d\<rparr>
       in if cur_dir b \<noteq> NULL
          then rbind (deref (b_entries b) (cur_dir b)) (\<lambda>d. Inr (b\<lparr>cur_entry := en_last_entry d\<rparr>))
          else Inr b)"

text \<open>
  What \<^verbatim>\<open>scan_dir\<close> of \<^verbatim>\<open>main.c\<close> finds on the host: a file with its full path, or a directory with its
  content in the order the host lists it, without \<^verbatim>\<open>.\<close> and \<^verbatim>\<open>..\<close>. \<^verbatim>\<open>scan_dir\<close> makes one call per file
  and two around the content of a directory.
\<close>

datatype host_tree = Host_File string string | Host_Dir string "host_tree list"

fun scan_dir :: "id_build \<Rightarrow> host_tree \<Rightarrow> id_build res"
and scan_entries :: "id_build \<Rightarrow> host_tree list \<Rightarrow> id_build res" where
  "scan_dir b (Host_File name path) = id_add_file b name path"
| "scan_dir b (Host_Dir name ts) =
     rbind (id_start_dir b name) (\<lambda>b. rbind (scan_entries b ts) id_end_dir)"
| "scan_entries b [] = Inr b"
| "scan_entries b (t # ts) = rbind (scan_dir b t) (\<lambda>b. scan_entries b ts)"

section \<open>Writing the image\<close>

text \<open>
  The output file is its bytes and the position; writing replaces the bytes there and extends the
  file at its end. The log file and the terminal output have no effect on it. \<open>host\<close> gives the content of
  the files of the host, which \<^verbatim>\<open>file_size\<close>, \<^verbatim>\<open>fopen\<close> and \<^verbatim>\<open>fread\<close> read.
\<close>

record out_file =
  o_bytes :: "u8 list"
  o_pos :: nat

definition fwrite :: "out_file \<Rightarrow> u8 list \<Rightarrow> out_file" where
  "fwrite f bs = f\<lparr>o_bytes := take (o_pos f) (o_bytes f) @ bs @ drop (o_pos f + length bs) (o_bytes f),
                   o_pos := o_pos f + length bs\<rparr>"

definition fseek :: "out_file \<Rightarrow> nat \<Rightarrow> out_file" where
  "fseek f pos = f\<lparr>o_pos := pos\<rparr>"

abbreviation (input) ftell :: "out_file \<Rightarrow> nat" where
  "ftell f \<equiv> o_pos f"

definition entry_bytes :: "id_entry \<Rightarrow> u8 list" where
  "entry_bytes e = bytes_of_u32 (e_type e) @ bytes_of_u32 (e_name e) @ bytes_of_u32 (e_count e)
     @ bytes_of_u32 (e_content e) @ bytes_of_u32 (e_next e)"

definition cstring :: "string \<Rightarrow> u8 list" where
  "cstring str = map of_char str @ [0]"

abbreviation (input) SIZEOF_ID_ENTRY :: u32 where "SIZEOF_ID_ENTRY \<equiv> 20"

definition write_file :: "(string \<Rightarrow> u8 list) \<Rightarrow> id_build \<Rightarrow> ptr \<Rightarrow> out_file \<Rightarrow> u32 \<Rightarrow> (u32 \<times> out_file) res" where
  "write_file host b file out offset =
     rbind (deref (b_entries b) file) (\<lambda>e.
       case en_path e of
         None \<Rightarrow> Inl Null_deref
       | Some path \<Rightarrow>
           let count = of_nat (length (host path));
               namelen = of_nat (length (en_name e)) + 1;
               namepos = offset + SIZEOF_ID_ENTRY;
               datapos = namepos + namelen;
               newoffs = datapos + count;
               entry = \<lparr>e_type = 0, e_name = namepos, e_count = count, e_content = datapos,
                        e_next = (if en_next e \<noteq> NULL then newoffs else 0)\<rparr>;
               out = fwrite out (entry_bytes entry);
               out = fwrite out (cstring (en_name e));
               out = fwrite out (host path)
           in Inr (newoffs, out))"

text \<open>\<^verbatim>\<open>write_dir\<close> and its loop over the entries; the first argument bounds depth and length together.\<close>

fun write_dir :: "(string \<Rightarrow> u8 list) \<Rightarrow> nat \<Rightarrow> id_build \<Rightarrow> ptr \<Rightarrow> out_file \<Rightarrow> u32 \<Rightarrow> (u32 \<times> out_file) res"
and write_entries :: "(string \<Rightarrow> u8 list) \<Rightarrow> nat \<Rightarrow> id_build \<Rightarrow> ptr \<Rightarrow> out_file \<Rightarrow> u32 \<Rightarrow> (u32 \<times> out_file) res" where
  "write_dir host 0 b dir out offset = Inl Diverges"
| "write_dir host (Suc n) b dir out offset =
     rbind (deref (b_entries b) dir) (\<lambda>d.
       let namelen = of_nat (length (en_name d)) + 1;
           namepos = offset + SIZEOF_ID_ENTRY;
           datapos = namepos + namelen;
           entry = \<lparr>e_type = 1, e_name = namepos, e_count = en_count d, e_content = datapos, e_next = 0\<rparr>;
           out = fwrite out (entry_bytes entry);
           next_posinfile = ftell out - 4;
           out = fwrite out (cstring (en_name d))
       in rbind (write_entries host n b (en_files d) out datapos) (\<lambda>(offs, out).
            if en_next d \<noteq> NULL
            then let cur_pos = ftell out;
                     out = fseek out next_posinfile;
                     out = fwrite out (bytes_of_u32 offs)
                 in Inr (offs, fseek out cur_pos)
            else Inr (offs, out)))"
| "write_entries host 0 b cur out offs = (if cur = NULL then Inr (offs, out) else Inl Diverges)"
| "write_entries host (Suc n) b cur out offs =
     (if cur = NULL then Inr (offs, out)
      else rbind (deref (b_entries b) cur) (\<lambda>e.
           rbind (if en_path e \<noteq> None then write_file host b cur out offs
                  else write_dir host n b cur out offs) (\<lambda>(offs, out).
             write_entries host n b (en_next e) out offs)))"

definition write_header :: "out_file \<Rightarrow> u32 \<times> out_file" where
  "write_header f = (4, fwrite f [of_char CHR ''k'', of_char CHR ''I'', of_char CHR ''D'', 0])"

text \<open>\<^verbatim>\<open>id_write\<close> opens the file for writing, which empties it.\<close>

definition id_write :: "(string \<Rightarrow> u8 list) \<Rightarrow> nat \<Rightarrow> id_build \<Rightarrow> u8 list res" where
  "id_write host n b =
     (case write_header \<lparr>o_bytes = [], o_pos = 0\<rparr> of (offs, f) \<Rightarrow>
        rbind (write_dir host n b (b_root b) f offs) (\<lambda>(size, f). Inr (o_bytes f)))"

text \<open>The whole tool: \<^verbatim>\<open>main\<close> after its arguments are read.\<close>

definition mkinitrd :: "(string \<Rightarrow> u8 list) \<Rightarrow> nat \<Rightarrow> id_build \<Rightarrow> host_tree \<Rightarrow> u8 list res" where
  "mkinitrd host n b t = rbind (scan_dir (id_init b) t) (id_write host n)"

section \<open>The image of a tree\<close>

text \<open>The length of the image of a tree, and the image of a tree that starts at offset \<open>pos\<close>.\<close>

fun image_size :: "(string \<Rightarrow> u8 list) \<Rightarrow> host_tree \<Rightarrow> nat"
and images_size :: "(string \<Rightarrow> u8 list) \<Rightarrow> host_tree list \<Rightarrow> nat" where
  "image_size host (Host_File name path) = 21 + length name + length (host path)"
| "image_size host (Host_Dir name ts) = 21 + length name + images_size host ts"
| "images_size host [] = 0"
| "images_size host (t # ts) = image_size host t + images_size host ts"

fun id_image :: "(string \<Rightarrow> u8 list) \<Rightarrow> nat \<Rightarrow> bool \<Rightarrow> host_tree \<Rightarrow> u8 list"
and id_images :: "(string \<Rightarrow> u8 list) \<Rightarrow> nat \<Rightarrow> host_tree list \<Rightarrow> u8 list" where
  "id_image host pos nx (Host_File name path) =
     entry_bytes \<lparr>e_type = 0, e_name = of_nat (pos + 20), e_count = of_nat (length (host path)),
       e_content = of_nat (pos + 21 + length name),
       e_next = (if nx then of_nat (pos + image_size host (Host_File name path)) else 0)\<rparr>
     @ cstring name @ host path"
| "id_image host pos nx (Host_Dir name ts) =
     entry_bytes \<lparr>e_type = 1, e_name = of_nat (pos + 20), e_count = of_nat (length ts),
       e_content = of_nat (pos + 21 + length name),
       e_next = (if nx then of_nat (pos + image_size host (Host_Dir name ts)) else 0)\<rparr>
     @ cstring name @ id_images host (pos + 21 + length name) ts"
| "id_images host pos [] = []"
| "id_images host pos (t # ts) = id_image host pos (ts \<noteq> []) t @ id_images host (pos + image_size host t) ts"

lemma length_entry_bytes [simp]: "length (entry_bytes e) = 20"
  by (simp add: entry_bytes_def bytes_of_u32_def)

lemma length_cstring [simp]: "length (cstring str) = Suc (length str)"
  by (simp add: cstring_def)

lemma length_id_image [simp]:
  "length (id_image host pos nx t) = image_size host t" "length (id_images host pos ts) = images_size host ts"
  by (induction t and ts arbitrary: pos nx and pos rule: image_size_images_size.induct) auto

section \<open>The calls build the tree\<close>

text \<open>
  The entries of a tree are allocated in the order of the calls, so the tree at \<open>p\<close> takes the addresses
  from \<open>p\<close> on, one per node.
\<close>

fun nodes :: "host_tree \<Rightarrow> nat"
and nodes_all :: "host_tree list \<Rightarrow> nat" where
  "nodes (Host_File name path) = 1"
| "nodes (Host_Dir name ts) = Suc (nodes_all ts)"
| "nodes_all [] = 0"
| "nodes_all (t # ts) = nodes t + nodes_all ts"

fun built :: "(ptr \<Rightarrow> entry option) \<Rightarrow> ptr \<Rightarrow> ptr \<Rightarrow> host_tree \<Rightarrow> bool"
and built_all :: "(ptr \<Rightarrow> entry option) \<Rightarrow> ptr \<Rightarrow> host_tree list \<Rightarrow> bool" where
  "built E p nx (Host_File name path) \<longleftrightarrow>
     (\<exists>e. E p = Some e \<and> en_name e = name \<and> en_path e = Some path \<and> en_next e = nx)"
| "built E p nx (Host_Dir name ts) \<longleftrightarrow>
     (\<exists>e. E p = Some e \<and> en_name e = name \<and> en_path e = None \<and> en_next e = nx \<and> en_count e = of_nat (length ts)
        \<and> en_files e = (if ts = [] then NULL else Suc p)) \<and> built_all E (Suc p) ts"
| "built_all E p [] \<longleftrightarrow> True"
| "built_all E p (t # ts) \<longleftrightarrow>
     built E p (if ts = [] then NULL else p + nodes t) t \<and> built_all E (p + nodes t) ts"

lemma nodes_pos [simp]: "0 < nodes t"
  by (cases t) auto

lemma built_cong:
  "(\<And>a. p \<le> a \<Longrightarrow> a < p + nodes t \<Longrightarrow> E' a = E a) \<Longrightarrow> built E' p nx t = built E p nx t"
  "(\<And>a. p \<le> a \<Longrightarrow> a < p + nodes_all ts \<Longrightarrow> E' a = E a) \<Longrightarrow> built_all E' p ts = built_all E p ts"
proof (induction t and ts arbitrary: p nx and p rule: nodes_nodes_all.induct)
  case (2 name ts)
  have "built_all E' (Suc p) ts = built_all E (Suc p) ts" using "2.prems" by (intro "2.IH") auto
  then show ?case using "2.prems" [of p] by simp
next
  case (4 t ts)
  have "built E' p nx t = built E p nx t" for nx using "4.prems" by (intro "4.IH"(1)) auto
  moreover have "built_all E' (p + nodes t) ts = built_all E (p + nodes t) ts" using "4.prems" by (intro "4.IH"(2)) auto
  ultimately show ?case by simp
qed auto

lemma built_relink:
  assumes "built E p nx t" and "E p = Some e" and "E' p = Some (e\<lparr>en_next := nx'\<rparr>)"
    and "\<And>a. p < a \<Longrightarrow> a < p + nodes t \<Longrightarrow> E' a = E a"
  shows "built E' p nx' t"
proof (cases t)
  case (Host_Dir name ts)
  have "built_all E' (Suc p) ts = built_all E (Suc p) ts" using assms(4) Host_Dir by (intro built_cong) auto
  then show ?thesis using assms(1-3) Host_Dir by auto
qed (use assms in auto)

lemma built_entry: "built E p nx t \<Longrightarrow> \<exists>e. E p = Some e \<and> en_next e = nx"
  by (cases t) auto

text \<open>
  The state between two calls: \<open>d\<close> is the current directory and \<open>c\<close> the last entry added to it, or null.
\<close>

definition building :: "id_build \<Rightarrow> ptr \<Rightarrow> entry \<Rightarrow> ptr \<Rightarrow> bool" where
  "building b d D c \<longleftrightarrow> cur_dir b = d \<and> cur_entry b = c \<and> 0 < d \<and> d < b_fresh b \<and> c < b_fresh b \<and> c \<noteq> d
     \<and> b_entries b d = Some D \<and> (c \<noteq> NULL \<longrightarrow> b_entries b c \<noteq> None \<and> en_files D \<noteq> NULL)
     \<and> (c = NULL \<longrightarrow> en_files D = NULL)"

text \<open>The entry \<open>q\<close> has been added behind \<open>c\<close>, and \<open>k\<close> entries in all; the last one is \<open>l\<close>.\<close>

definition added :: "id_build \<Rightarrow> id_build \<Rightarrow> ptr \<Rightarrow> entry \<Rightarrow> ptr \<Rightarrow> ptr \<Rightarrow> ptr \<Rightarrow> nat \<Rightarrow> bool" where
  "added b b' d D c q l k \<longleftrightarrow> cur_dir b' = d \<and> cur_entry b' = l \<and> b_root b' = b_root b
     \<and> b_entries b' d = Some (D\<lparr>en_files := (if en_files D = NULL then q else en_files D),
          en_count := en_count D + of_nat k, en_last_entry := l\<rparr>)
     \<and> (\<forall>C. c \<noteq> NULL \<longrightarrow> b_entries b c = Some C \<longrightarrow> b_entries b' c = Some (C\<lparr>en_next := q\<rparr>))
     \<and> (\<forall>a < b_fresh b. 0 < a \<longrightarrow> a \<noteq> d \<longrightarrow> a \<noteq> c \<longrightarrow> b_entries b' a = b_entries b a)"

lemma add_entry_added:
  assumes "building b d D c" and "b' = b\<lparr>b_fresh := Suc (b_fresh b), b_entries := (b_entries b)(b_fresh b \<mapsto> e)\<rparr>"
  shows "returns (add_entry b' (b_fresh b)) (\<lambda>t. cur_dir t = d \<and> cur_entry t = c \<and> b_root t = b_root b
     \<and> b_fresh t = Suc (b_fresh b) \<and> b_entries t (b_fresh b) = Some (e\<lparr>en_next := NULL\<rparr>)
     \<and> added b (t\<lparr>cur_entry := b_fresh b\<rparr>) d D c (b_fresh b) (b_fresh b) 1)"
  using assms by (auto simp: building_def add_entry_def upd_en_def deref_def added_def)

lemma scan_file:
  assumes b: "building b d D c"
  shows "returns (id_add_file b name path) (\<lambda>b'. added b b' d D c (b_fresh b) (b_fresh b) 1
     \<and> b_fresh b' = b_fresh b + nodes (Host_File name path) \<and> built (b_entries b') (b_fresh b) NULL (Host_File name path))"
proof -
  let ?e = "(b_junk b)\<lparr>en_name := name, en_path := Some path, en_files := NULL, en_pdir := NULL, en_last_entry := NULL\<rparr>"
  from add_entry_added [OF b refl, of ?e] show ?thesis
    by (auto simp: id_add_file_def Let_def elim!: returnsE)
qed

lemma added_building:
  assumes "building b d D c" and "added b b' d D c q l k" and "0 < q" "l \<noteq> d" "l < b_fresh b'" "l \<noteq> NULL" "b_entries b' l \<noteq> None"
    and "b_fresh b \<le> b_fresh b'"
  shows "building b' d (D\<lparr>en_files := (if en_files D = NULL then q else en_files D),
          en_count := en_count D + of_nat k, en_last_entry := l\<rparr>) l"
  using assms by (auto simp: building_def added_def)

text \<open>Inside a new directory: its entry, and what scanning its content leaves there.\<close>

definition new_dir :: "id_build \<Rightarrow> string \<Rightarrow> ptr \<Rightarrow> entry" where
  "new_dir b name d = (b_junk b)\<lparr>en_name := name, en_path := None, en_files := NULL, en_pdir := d, en_count := 0, en_next := NULL\<rparr>"

definition scanned :: "id_build \<Rightarrow> id_build \<Rightarrow> ptr \<Rightarrow> entry \<Rightarrow> ptr \<Rightarrow> host_tree list \<Rightarrow> bool" where
  "scanned b b' d D c ts \<longleftrightarrow> b_fresh b' = b_fresh b + nodes_all ts \<and> built_all (b_entries b') (b_fresh b) ts
     \<and> (if ts = [] then b' = b
        else \<exists>l. added b b' d D c (b_fresh b) l (length ts) \<and> l < b_fresh b' \<and> b_fresh b \<le> l \<and> b_entries b' l \<noteq> None)"

lemma scanned_dir:
  assumes "scanned b b' p (new_dir b0 name d) NULL ts" "building b p (new_dir b0 name d) NULL" "b_fresh b = Suc p"
  shows "\<exists>e. b_entries b' p = Some e \<and> en_pdir e = d \<and> built (b_entries b') p NULL (Host_Dir name ts)"
    "cur_dir b' = p" "\<And>a. a < p \<Longrightarrow> a \<noteq> 0 \<Longrightarrow> b_entries b' a = b_entries b a" "b_root b' = b_root b"
    "b_fresh b' = p + nodes (Host_Dir name ts)"
  using assms by (auto simp: scanned_def added_def building_def new_dir_def split: if_splits)

lemma start_dir_building:
  assumes b: "building b d D c"
  shows "returns (id_start_dir b name) (\<lambda>b1. b_fresh b1 = Suc (b_fresh b)
     \<and> building b1 (b_fresh b) (new_dir b name d) NULL
     \<and> added b (b1\<lparr>cur_dir := d, cur_entry := b_fresh b\<rparr>) d D c (b_fresh b) (b_fresh b) 1)"
proof -
  have "cur_dir b = d" "0 < d" "0 < b_fresh b" using b by (auto simp: building_def)
  with add_entry_added [OF b refl, of "new_dir b name d"] show ?thesis
    by (auto simp: id_start_dir_def Let_def building_def new_dir_def elim!: returnsE)
      (simp_all add: added_def)
qed

lemma scan_builds:
  "building b d D c \<Longrightarrow> returns (scan_dir b t) (\<lambda>b'. added b b' d D c (b_fresh b) (b_fresh b) 1
     \<and> b_fresh b' = b_fresh b + nodes t \<and> built (b_entries b') (b_fresh b) NULL t)"
  "building b d D c \<Longrightarrow> returns (scan_entries b ts) (\<lambda>b'. scanned b b' d D c ts)"
proof (induction t and ts arbitrary: b d D c and b d D c rule: nodes_nodes_all.induct)
  case (1 name path)
  then show ?case using scan_file by simp
next
  case (2 name ts)
  from start_dir_building [OF "2.prems"] obtain b1 where b1: "id_start_dir b name = Inr b1" "b_fresh b1 = Suc (b_fresh b)"
    "building b1 (b_fresh b) (new_dir b name d) NULL"
    "added b (b1\<lparr>cur_dir := d, cur_entry := b_fresh b\<rparr>) d D c (b_fresh b) (b_fresh b) 1" by (rule returnsE) blast
  from "2.IH" [OF b1(3)] obtain b2 where b2: "scan_entries b1 ts = Inr b2" "scanned b1 b2 (b_fresh b) (new_dir b name d) NULL ts"
    by (rule returnsE)
  note s = scanned_dir [OF b2(2) b1(3,2)]
  from s(1) obtain e where e: "b_entries b2 (b_fresh b) = Some e" "en_pdir e = d" by blast
  have d: "0 < d" "d < b_fresh b" "c < b_fresh b" "c \<noteq> d" using "2.prems" by (auto simp: building_def)
  show ?case using b1 b2(1) e s d
    by (simp add: id_end_dir_def deref_def added_def)
next
  case 3
  then show ?case by (simp add: scanned_def)
next
  case (4 t ts)
  from "4.IH"(1) [OF "4.prems"] obtain b1 where b1: "scan_dir b t = Inr b1" "added b b1 d D c (b_fresh b) (b_fresh b) 1"
    "b_fresh b1 = b_fresh b + nodes t" "built (b_entries b1) (b_fresh b) NULL t" by (rule returnsE) blast
  have d: "0 < d" "d < b_fresh b" "c < b_fresh b" "c \<noteq> d" "0 < b_fresh b" using "4.prems" by (auto simp: building_def)
  let ?D = "D\<lparr>en_files := (if en_files D = NULL then b_fresh b else en_files D), en_count := en_count D + of_nat 1, en_last_entry := b_fresh b\<rparr>"
  from built_entry [OF b1(4)] obtain e where e: "b_entries b1 (b_fresh b) = Some e" by blast
  have "building b1 d ?D (b_fresh b)"
    using d b1(3) e by (intro added_building [OF "4.prems" b1(2)]) auto
  from "4.IH"(2) [OF this] obtain b2 where b2: "scan_entries b1 ts = Inr b2" "scanned b1 b2 d ?D (b_fresh b) ts" by (rule returnsE)
  have "scanned b b2 d D c (t # ts)"
  proof (cases "ts = []")
    case True
    then show ?thesis using b1 b2 d e by (auto simp: scanned_def)
  next
    case False
    then obtain l where l: "added b1 b2 d ?D (b_fresh b) (b_fresh b1) l (length ts)" "l < b_fresh b2" "b_fresh b1 \<le> l"
      "b_entries b2 l \<noteq> None" "b_fresh b2 = b_fresh b1 + nodes_all ts" "built_all (b_entries b2) (b_fresh b1) ts"
      using b2(2) by (auto simp: scanned_def)
    have "built (b_entries b2) (b_fresh b) (b_fresh b1) t"
      using built_relink [OF b1(4) e, of "b_entries b2" "b_fresh b1"] l(1) e d b1(3) by (auto simp: added_def)
    moreover have "added b b2 d D c (b_fresh b) l (Suc (length ts))"
      using l(1) b1(2,3) d nodes_pos [of t] by (auto simp: added_def)
    ultimately show ?thesis using False l b1(3) by (auto simp: scanned_def)
  qed
  then show ?case using b1(1) b2(1) by simp
qed

lemma scan_root:
  assumes "0 < b_fresh b"
  shows "returns (scan_dir (id_init b) (Host_Dir name ts)) (\<lambda>b'. b_root b' = b_fresh b
     \<and> built (b_entries b') (b_fresh b) NULL (Host_Dir name ts))"
proof -
  define b1 where "b1 = (id_init b)\<lparr>b_fresh := Suc (b_fresh b),
      b_entries := (b_entries b)(b_fresh b \<mapsto> new_dir b name NULL), b_root := b_fresh b, cur_dir := b_fresh b, cur_entry := NULL\<rparr>"
  have 1: "id_start_dir (id_init b) name = Inr b1"
    by (simp add: id_start_dir_def id_init_def b1_def new_dir_def Let_def)
  have 2: "building b1 (b_fresh b) (new_dir b name NULL) NULL" "b_fresh b1 = Suc (b_fresh b)" "b_root b1 = b_fresh b"
    using assms by (simp_all add: building_def b1_def new_dir_def)
  from scan_builds(2) [OF 2(1)] obtain b2 where b2: "scan_entries b1 ts = Inr b2"
    "scanned b1 b2 (b_fresh b) (new_dir b name NULL) NULL ts" by (rule returnsE)
  note s = scanned_dir [OF b2(2) 2(1,2)]
  from s(1) obtain e where "b_entries b2 (b_fresh b) = Some e" "en_pdir e = NULL" by blast
  then show ?thesis using 1 2 b2(1) s assms by (simp add: id_end_dir_def deref_def)
qed

section \<open>The writer produces the image\<close>

definition append :: "out_file \<Rightarrow> u8 list \<Rightarrow> out_file" where
  "append f bs = \<lparr>o_bytes = o_bytes f @ bs, o_pos = length (o_bytes f @ bs)\<rparr>"

definition at_end :: "out_file \<Rightarrow> bool" where
  "at_end f \<longleftrightarrow> o_pos f = length (o_bytes f)"

lemma fwrite_append: "at_end f \<Longrightarrow> fwrite f bs = append f bs"
  by (simp add: fwrite_def append_def at_end_def)

lemma append_simps [simp]:
  "at_end (append f bs)" "append (append f bs) cs = append f (bs @ cs)"
  "o_pos (append f bs) = length (o_bytes f) + length bs" "o_bytes (append f bs) = o_bytes f @ bs"
  by (simp_all add: append_def at_end_def)

text \<open>The seek back to the last word of an entry that was written with 0 there.\<close>

lemma patch_next:
  "fseek (fwrite (fseek (append f (entry_bytes (e\<lparr>e_next := 0\<rparr>) @ bs)) (length (o_bytes f) + 16)) (bytes_of_u32 x))
     (length (o_bytes f) + (20 + length bs)) = append f (entry_bytes (e\<lparr>e_next := x\<rparr>) @ bs)"
  by (simp add: fseek_def fwrite_def append_def entry_bytes_def bytes_of_u32_def)

lemma write_file_image:
  assumes "built (b_entries b) p nx (Host_File name path)" "0 < p" "at_end out"
  shows "write_file host b p out (of_nat pos) = Inr (of_nat (pos + image_size host (Host_File name path)),
     append out (id_image host pos (nx \<noteq> NULL) (Host_File name path)))"
proof -
  from assms(1) obtain e where e: "b_entries b p = Some e" "en_name e = name" "en_path e = Some path" "en_next e = nx" by auto
  have o: "of_nat pos + 20 = (of_nat (pos + 20) :: u32)"
    "of_nat (pos + 20) + (of_nat (length name) + 1) = (of_nat (pos + 21 + length name) :: u32)"
    "of_nat (pos + 21 + length name) + of_nat (length (host path)) = (of_nat (pos + image_size host (Host_File name path)) :: u32)"
    by simp_all
  show ?thesis using e assms(2,3) unfolding write_file_def Let_def o
    by (simp add: deref_def o fwrite_append del: of_nat_add)
qed

lemma write_image:
  "built (b_entries b) p nx t \<Longrightarrow> 0 < p \<Longrightarrow> at_end out \<Longrightarrow> 2 * nodes t \<le> n \<Longrightarrow> t = Host_Dir name us \<Longrightarrow>
     write_dir host n b p out (of_nat pos) = Inr (of_nat (pos + image_size host t), append out (id_image host pos (nx \<noteq> NULL) t))"
  "built_all (b_entries b) p ts \<Longrightarrow> 0 < p \<Longrightarrow> at_end out \<Longrightarrow> 2 * nodes_all ts < n \<Longrightarrow>
     write_entries host n b (if ts = [] then NULL else p) out (of_nat pos) =
       Inr (of_nat (pos + images_size host ts), append out (id_images host pos ts))"
proof (induction t and ts arbitrary: p nx out n name us pos and p out n pos rule: nodes_nodes_all.induct)
  case (2 nm ts)
  then obtain m where n: "n = Suc m" by (cases n) auto
  from "2.prems"(1) obtain e where e: "b_entries b p = Some e" "en_name e = nm" "en_next e = nx"
    "en_count e = of_nat (length ts)" "en_files e = (if ts = [] then NULL else Suc p)" "built_all (b_entries b) (Suc p) ts" by auto
  let ?h = "\<lparr>e_type = 1, e_name = of_nat (pos + 20), e_count = of_nat (length ts), e_content = of_nat (pos + 21 + length nm), e_next = 0\<rparr>"
  let ?out = "append out (entry_bytes ?h @ cstring nm)"
  have w: "write_entries host m b (if ts = [] then NULL else Suc p) ?out (of_nat (pos + 21 + length nm)) =
       Inr (of_nat (pos + 21 + length nm + images_size host ts), append ?out (id_images host (pos + 21 + length nm) ts))"
    using "2.prems" n e by (intro "2.IH") auto
  have o: "of_nat pos + 20 + (of_nat (length nm) + 1) = (of_nat (pos + 21 + length nm) :: u32)" by simp
  show ?case
  proof (cases "nx = NULL")
    case True
    then show ?thesis using "2.prems"(2,3) n e w
      by (simp add: deref_def o fwrite_append Let_def ac_simps)
  next
    case False
    have "write_dir host n b p out (of_nat pos) = Inr (of_nat (pos + 21 + length nm + images_size host ts),
      fseek (fwrite (fseek (append out (entry_bytes (?h\<lparr>e_next := 0\<rparr>) @ cstring nm @ id_images host (pos + 21 + length nm) ts))
         (length (o_bytes out) + 16)) (bytes_of_u32 (of_nat (pos + 21 + length nm + images_size host ts))))
        (length (o_bytes out) + (20 + length (cstring nm @ id_images host (pos + 21 + length nm) ts))))"
      using False "2.prems"(2,3) n e w
      by (simp add: deref_def o fwrite_append Let_def ac_simps)
    then show ?thesis unfolding patch_next using False by (simp add: ac_simps)
  qed
next
  case (4 t ts)
  then obtain m where n: "n = Suc m" by (cases n) auto
  from "4.prems"(1) have t: "built (b_entries b) p (if ts = [] then NULL else p + nodes t) t" "built_all (b_entries b) (p + nodes t) ts" by auto
  from built_entry [OF t(1)] obtain e where e: "b_entries b p = Some e" "en_next e = (if ts = [] then NULL else p + nodes t)" by blast
  have "(if en_path e \<noteq> None then write_file host b p out (of_nat pos) else write_dir host m b p out (of_nat pos)) =
    Inr (of_nat (pos + image_size host t), append out (id_image host pos (ts \<noteq> []) t))"
  proof (cases t)
    case (Host_File name path)
    then show ?thesis using write_file_image [of b p _ name path out host pos] t(1) "4.prems"(2,3) e by (auto split: if_splits)
  next
    case (Host_Dir name us)
    have "2 * nodes t \<le> m" using "4.prems"(4) n by simp
    from "4.IH"(1) [OF t(1) "4.prems"(2,3) this Host_Dir, of pos] show ?thesis
      using t(1) e Host_Dir "4.prems"(2) by auto
  qed
  moreover have "write_entries host m b (if ts = [] then NULL else p + nodes t) (append out (id_image host pos (ts \<noteq> []) t))
      (of_nat (pos + image_size host t)) = Inr (of_nat (pos + image_size host t + images_size host ts),
        append (append out (id_image host pos (ts \<noteq> []) t)) (id_images host (pos + image_size host t) ts))"
  proof (rule "4.IH"(2))
    obtain k where "nodes t = Suc k" using nodes_pos [of t] gr0_conv_Suc by blast
    then show "2 * nodes_all ts < m" using "4.prems"(4) n by simp
  qed (use t "4.prems" in simp_all)
  ultimately show ?case using n e "4.prems"(2) by (simp add: deref_def ac_simps del: of_nat_add)
next
  case 3
  then show ?case by (cases n) (auto simp: append_def at_end_def)
qed simp

text \<open>The image the tool writes: the header and the root directory.\<close>

definition disk_image :: "(string \<Rightarrow> u8 list) \<Rightarrow> host_tree \<Rightarrow> u8 list" where
  "disk_image host t = [of_char CHR ''k'', of_char CHR ''I'', of_char CHR ''D'', 0] @ id_image host 4 False t"

lemma mkinitrd_image:
  assumes "0 < b_fresh b" and "2 * nodes (Host_Dir name ts) \<le> n"
  shows "mkinitrd host n b (Host_Dir name ts) = Inr (disk_image host (Host_Dir name ts))"
proof -
  from scan_root [OF assms(1), of name ts] obtain b' where b: "scan_dir (id_init b) (Host_Dir name ts) = Inr b'"
    "b_root b' = b_fresh b" "built (b_entries b') (b_fresh b) NULL (Host_Dir name ts)" by (rule returnsE) blast
  let ?f = "fwrite \<lparr>o_bytes = [], o_pos = 0\<rparr> [of_char CHR ''k'', of_char CHR ''I'', of_char CHR ''D'', 0]"
  have "at_end ?f" "o_bytes ?f = [of_char CHR ''k'', of_char CHR ''I'', of_char CHR ''D'', 0]" by (simp_all add: fwrite_def at_end_def)
  with write_image(1) [OF b(3) assms(1) _ assms(2) refl, of ?f host 4] show ?thesis
    using b(1,2) by (simp add: mkinitrd_def id_write_def write_header_def disk_image_def)
qed

text \<open>
  C24. The host tool writes the image of the tree: for every directory tree, the calls made while scanning it
  and the writer, which goes back in the file to fill in the offset of each next entry, return and
  give the header followed by the encoding of the tree, in which each entry carries its name, its
  content and the offset of its successor.
\<close>

theorem mkinitrd_writes_image:
  assumes "0 < b_fresh b" and "2 * nodes (Host_Dir name ts) \<le> n"
  shows "mkinitrd host n b (Host_Dir name ts) = Inr (disk_image host (Host_Dir name ts))"
  by (rule mkinitrd_image [OF assms])

text \<open>An example: a file \<^verbatim>\<open>a\<close> and a directory \<^verbatim>\<open>d\<close> with a file \<^verbatim>\<open>b\<close>.\<close>

definition demo_tree :: host_tree where
  "demo_tree = Host_Dir ''root'' [Host_File ''a'' ''/a'', Host_Dir ''d'' [Host_File ''b'' ''/b'']]"

definition demo_build :: id_build where
  "demo_build = \<lparr>b_entries = Map.empty, b_fresh = 1,
     b_junk = \<lparr>en_name = [], en_path = None, en_count = 7, en_files = 7, en_pdir = 7, en_next = 7, en_last_entry = 7\<rparr>,
     dir_level = 0, cur_dir = 0, cur_entry = 0, b_root = 0, entry_count = 0\<rparr>"

theorem mkinitrd_writes_image_witness:
  "mkinitrd (\<lambda>_. [1, 2, 3]) 8 demo_build demo_tree = Inr (disk_image (\<lambda>_. [1, 2, 3]) demo_tree)"
  unfolding demo_tree_def by (rule mkinitrd_writes_image) (simp_all add: demo_build_def)

end
