(* ===== verification/Kos_Image.thy ===== *)
theory Kos_Image
  imports Kos_Mkinitrd
begin

text \<open>
  The parser of the ramdisk image in \<^verbatim>\<open>kernel/fs/initrd.c\<close>, run on the image that the host tool writes. The
  theory shows that it returns, that the inodes and directory lists it builds are those of the tree the
  image was made from, and with the results on mounting and reading that a file packed on the host is
  found under its path and read back through the virtual file system.
\<close>

section \<open>Bytes in kernel memory\<close>

definition holds :: "'a um_state_scheme \<Rightarrow> u32 \<Rightarrow> u8 list \<Rightarrow> bool" where
  "holds s a bs \<longleftrightarrow> (\<forall>i < length bs. kread s (a + of_nat i) = Inr (bs ! i))"

lemma holds_Nil [simp]: "holds s a []"
  by (simp add: holds_def)

lemma holds_Cons: "holds s a (b # bs) \<longleftrightarrow> kread s a = Inr b \<and> holds s (a + 1) bs"
  unfolding holds_def length_Cons All_less_Suc2 by (simp add: ac_simps)

lemma holds_append: "holds s a (xs @ ys) \<longleftrightarrow> holds s a xs \<and> holds s (a + of_nat (length xs)) ys"
  by (induction xs arbitrary: a) (auto simp: holds_Cons ac_simps)

lemma holds_kread_bytes: "holds s a bs \<Longrightarrow> kread_bytes s a (length bs) = Inr bs"
  by (induction bs arbitrary: a) (auto simp: holds_Cons)

lemma length_bytes_of_u32 [simp]: "length (bytes_of_u32 w) = 4"
  by (simp add: bytes_of_u32_def)

lemma holds_u32: "holds s a (bytes_of_u32 w) \<Longrightarrow> kread_u32 s a = Inr w"
  using holds_kread_bytes [of s a "bytes_of_u32 w"] unfolding length_bytes_of_u32
  by (simp add: kread_u32_def u32_bytes_roundtrip)

lemma holds_entry: "holds s a (entry_bytes e) \<Longrightarrow> read_entry s a = Inr e"
  by (auto simp: entry_bytes_def holds_append read_entry_def ac_simps dest!: holds_u32)

lemma unat_of_char: "unat (of_char c :: u8) = of_char c"
proof -
  have "unat (of_nat (of_char c) :: u8) = of_char c" by (simp add: unat_of_nat take_bit_nat_eq_self_iff del: of_nat_of_char)
  then show ?thesis by (simp only: of_nat_of_char)
qed

lemma holds_cstring:
  "holds s a (cstring str) \<Longrightarrow> CHR 0x00 \<notin> set str \<Longrightarrow> length str < n \<Longrightarrow> kread_string n s a = Inr str"
proof (induction str arbitrary: a n)
  case Nil
  then show ?case by (cases n) (auto simp: cstring_def holds_Cons)
next
  case (Cons c str)
  then obtain m where n: "n = Suc m" by (cases n) auto
  have u: "unat (of_char c :: u8) = of_char c" by (simp add: unat_of_char)
  then have "char_of (unat (of_char c :: u8)) = c" by simp
  moreover have "(of_char c :: u8) \<noteq> 0"
  proof
    assume "of_char c = (0 :: u8)"
    then have "of_char c = (0 :: nat)" using u by simp
    then have "c = CHR 0x00" using char_of_char [of c, where 'a = nat] by (simp add: char_of_def)
    then show False using Cons.prems(2) by simp
  qed
  ultimately show ?case using Cons n by (auto simp: cstring_def holds_Cons)
qed

section \<open>What the parser builds\<close>

text \<open>
  Inodes and list objects are allocated in the order of the entries of the image, so a tree whose root
  is the inode \<open>p\<close> takes the inode addresses from \<open>p\<close> and the list addresses from \<open>l\<close> on.
\<close>

fun list_objs :: "host_tree \<Rightarrow> nat"
and list_objs_all :: "host_tree list \<Rightarrow> nat" where
  "list_objs (Host_File name path) = 0"
| "list_objs (Host_Dir name ts) = Suc (list_objs_all ts)"
| "list_objs_all [] = 0"
| "list_objs_all (t # ts) = Suc (list_objs t + list_objs_all ts)"

primrec kid_inodes :: "ptr \<Rightarrow> host_tree list \<Rightarrow> ptr list" where
  "kid_inodes p [] = []"
| "kid_inodes p (t # ts) = p # kid_inodes (p + nodes t) ts"

primrec kid_entries :: "ptr \<Rightarrow> host_tree list \<Rightarrow> ptr list" where
  "kid_entries l [] = []"
| "kid_entries l (t # ts) = (l + list_objs t) # kid_entries (Suc (l + list_objs t)) ts"

definition id_inode :: "string \<Rightarrow> u32 \<Rightarrow> nat \<Rightarrow> nat \<Rightarrow> ptr \<Rightarrow> inode" where
  "id_inode name flags len impl sb = \<lparr>i_name = name, i_flags = flags, i_perm = 0, i_length = of_nat len, i_uid = 0,
     i_gid = 0, i_opencount = 0, i_impl = impl, i_link = NULL, i_ops = INITRD_IOPS, i_sb = sb\<rparr>"

fun parsed :: "(string \<Rightarrow> u8 list) \<Rightarrow> u32 \<Rightarrow> 'a idev_state_scheme \<Rightarrow> nat \<Rightarrow> ptr \<Rightarrow> ptr \<Rightarrow> host_tree \<Rightarrow> bool"
and parsed_all :: "(string \<Rightarrow> u8 list) \<Rightarrow> u32 \<Rightarrow> 'a idev_state_scheme \<Rightarrow> nat \<Rightarrow> ptr \<Rightarrow> ptr \<Rightarrow> host_tree list \<Rightarrow> bool" where
  "parsed host disk s pos p l (Host_File name path) \<longleftrightarrow>
     inodes s p = Some (id_inode name FS_FILE (length (host path)) (unat (disk + of_nat (pos + 21 + length name))) (id_super s))"
| "parsed host disk s pos p l (Host_Dir name ts) \<longleftrightarrow>
     inodes s p = Some (id_inode name FS_DIR (length ts) l (id_super s))
     \<and> list_rep (lists s) l (kid_entries (Suc l) ts) \<and> datas (lists s) (kid_entries (Suc l) ts) = kid_inodes (Suc p) ts
     \<and> parsed_all host disk s (pos + 21 + length name) (Suc p) (Suc l) ts"
| "parsed_all host disk s pos p l [] \<longleftrightarrow> True"
| "parsed_all host disk s pos p l (t # ts) \<longleftrightarrow>
     parsed host disk s pos p l t \<and> parsed_all host disk s (pos + image_size host t) (p + nodes t) (Suc (l + list_objs t)) ts"

lemma kid_entries_range: "a \<in> set (kid_entries l ts) \<Longrightarrow> l \<le> a \<and> a < l + list_objs_all ts"
  by (induction ts arbitrary: l) (auto, fastforce+)

lemma list_rep_frame:
  assumes "list_rep h l as" "heap_ok h'" "l_lists h' l = l_lists h l" "\<And>a. a \<in> set as \<Longrightarrow> l_entries h' a = l_entries h a"
  shows "list_rep h' l as" "datas h' as = datas h as"
proof -
  have "dseg (l_entries h') q p as r = dseg (l_entries h) q p as r" for q p r
    using assms(4) by (induction as arbitrary: q p) (auto cong: option.case_cong)
  then show "list_rep h' l as" using assms(1-3) by (simp add: list_rep_def cong: option.case_cong)
  show "datas h' as = datas h as" using assms(4) by (simp add: datas_def)
qed

text \<open>The parts of two states that a parsed tree depends on are the same.\<close>

definition same_objs :: "'a idev_state_scheme \<Rightarrow> 'a idev_state_scheme \<Rightarrow> ptr \<Rightarrow> nat \<Rightarrow> ptr \<Rightarrow> nat \<Rightarrow> bool" where
  "same_objs s s' p i l k \<longleftrightarrow> heap_ok (lists s') \<and> id_super s' = id_super s
     \<and> (\<forall>a. p \<le> a \<and> a < p + i \<longrightarrow> inodes s' a = inodes s a)
     \<and> (\<forall>a. l \<le> a \<and> a < l + k \<longrightarrow> l_lists (lists s') a = l_lists (lists s) a \<and> l_entries (lists s') a = l_entries (lists s) a)"

lemma same_objs_sub:
  "same_objs s s' p i l k \<Longrightarrow> p \<le> p' \<Longrightarrow> p' + i' \<le> p + i \<Longrightarrow> l \<le> l' \<Longrightarrow> l' + k' \<le> l + k \<Longrightarrow> same_objs s s' p' i' l' k'"
  by (simp add: same_objs_def)

lemma parsed_frame:
  "parsed host disk s pos p l t \<Longrightarrow> same_objs s s' p (nodes t) l (list_objs t) \<Longrightarrow> parsed host disk s' pos p l t"
  "parsed_all host disk s pos p l ts \<Longrightarrow> same_objs s s' p (nodes_all ts) l (list_objs_all ts) \<Longrightarrow> parsed_all host disk s' pos p l ts"
proof (induction t and ts arbitrary: pos p l and pos p l rule: nodes_nodes_all.induct)
  case (1 name path)
  then show ?case by (simp add: same_objs_def)
next
  case (2 name ts)
  have "same_objs s s' (Suc p) (nodes_all ts) (Suc l) (list_objs_all ts)"
    by (rule same_objs_sub [OF "2.prems"(2)]) auto
  then have "parsed_all host disk s' (pos + 21 + length name) (Suc p) (Suc l) ts"
    using "2.prems"(1) by (intro "2.IH") auto
  moreover have "a \<in> set (kid_entries (Suc l) ts) \<Longrightarrow> l \<le> a \<and> a < l + Suc (list_objs_all ts)" for a
    using kid_entries_range [of a "Suc l" ts] by simp
  then have "list_rep (lists s') l (kid_entries (Suc l) ts)" "datas (lists s') (kid_entries (Suc l) ts) = datas (lists s) (kid_entries (Suc l) ts)"
    using "2.prems" list_rep_frame [of "lists s" l "kid_entries (Suc l) ts" "lists s'"] by (auto simp: same_objs_def)
  ultimately show ?case using "2.prems" by (simp add: same_objs_def)
next
  case (4 t ts)
  have "same_objs s s' p (nodes t) l (list_objs t)" "same_objs s s' (p + nodes t) (nodes_all ts) (Suc (l + list_objs t)) (list_objs_all ts)"
    by (rule same_objs_sub [OF "4.prems"(2)]; simp)+
  then show ?case using "4.prems"(1) "4.IH" by auto
qed auto

section \<open>Parsing the image\<close>

text \<open>Everything but the inodes and lists is as before, and new objects have come after the old ones.\<close>

definition grown :: "'a idev_state_scheme \<Rightarrow> 'a idev_state_scheme \<Rightarrow> nat \<Rightarrow> nat \<Rightarrow> bool" where
  "grown s s' i k \<longleftrightarrow> (\<exists>I h n. s' = s\<lparr>inodes := I, lists := h, next_obj := n\<rparr>)
     \<and> next_obj s' = next_obj s + i \<and> l_fresh (lists s') = l_fresh (lists s) + k \<and> heap_ok (lists s')
     \<and> (\<forall>a < next_obj s. inodes s' a = inodes s a)"

lemma grownI:
  "l_fresh h = l_fresh (lists s) + k \<Longrightarrow> heap_ok h \<Longrightarrow> (\<And>a. a < next_obj s \<Longrightarrow> I a = inodes s a) \<Longrightarrow>
     grown s (s\<lparr>inodes := I, lists := h, next_obj := next_obj s + i\<rparr>) i k"
  unfolding grown_def by (intro conjI exI [of _ I] exI [of _ h] exI [of _ "next_obj s + i"]) simp_all

lemma grownE:
  assumes "grown s s' i k"
  obtains I h where "s' = s\<lparr>inodes := I, lists := h, next_obj := next_obj s + i\<rparr>" "l_fresh h = l_fresh (lists s) + k"
    "heap_ok h" "\<And>a. a < next_obj s \<Longrightarrow> I a = inodes s a"
  using assms unfolding grown_def by fastforce

lemma grown_same:
  assumes "grown s s' i k"
  shows "kread s' = kread s" "id_super s' = id_super s" "fs_root s' = fs_root s" "fstypes s' = fstypes s"
  using assms by (auto simp: grown_def kread_def kaddr_def fun_eq_iff)

lemma grown_holds: "grown s s' i k \<Longrightarrow> holds s' = holds s"
  by (simp add: holds_def fun_eq_iff grown_same)

lemma grown_trans: "grown s t i k \<Longrightarrow> grown t u j m \<Longrightarrow> grown s u (i + j) (k + m)"
proof -
  assume "grown s t i k"
  then obtain I h where t: "t = s\<lparr>inodes := I, lists := h, next_obj := next_obj s + i\<rparr>" "l_fresh h = l_fresh (lists s) + k"
    "heap_ok h" "\<And>a. a < next_obj s \<Longrightarrow> I a = inodes s a" by (rule grownE) blast
  assume "grown t u j m"
  then obtain J g where u: "u = t\<lparr>inodes := J, lists := g, next_obj := next_obj t + j\<rparr>" "l_fresh g = l_fresh (lists t) + m"
    "heap_ok g" "\<And>a. a < next_obj t \<Longrightarrow> J a = inodes t a" by (rule grownE) blast
  have e: "u = s\<lparr>inodes := J, lists := g, next_obj := next_obj s + (i + j)\<rparr>" using t(1) u(1) by simp
  show ?thesis unfolding e using t u by (intro grownI) auto
qed

fun names_ok :: "host_tree \<Rightarrow> bool"
and names_ok_all :: "host_tree list \<Rightarrow> bool" where
  "names_ok (Host_File name path) \<longleftrightarrow> CHR 0x00 \<notin> set name \<and> length name < MAX_STRING"
| "names_ok (Host_Dir name ts) \<longleftrightarrow> CHR 0x00 \<notin> set name \<and> length name < MAX_STRING \<and> names_ok_all ts"
| "names_ok_all [] \<longleftrightarrow> True"
| "names_ok_all (t # ts) \<longleftrightarrow> names_ok t \<and> names_ok_all ts"

text \<open>An offset into an image that does not reach the end of the address space is not taken for null.\<close>

lemma id_get_offset:
  assumes "unat disk + off < 2 ^ 32" "0 < off"
  shows "id_get (of_nat off) disk = disk + of_nat off" "disk + of_nat off \<noteq> 0"
proof -
  have "unat (of_nat off :: u32) = off" using assms by simp
  moreover from this have "unat (disk + of_nat off) = unat disk + off" using assms by (simp add: unat_add_u32_small)
  ultimately have "unat (of_nat off :: u32) \<noteq> 0" "unat (disk + of_nat off) \<noteq> 0" using assms(2) by simp_all
  then show "id_get (of_nat off) disk = disk + of_nat off" "disk + of_nat off \<noteq> 0" unfolding id_get_def by auto
qed

lemma new_inode_image:
  assumes "holds s (disk + of_nat pos) (entry_bytes e @ cstring name @ rest)" "e_name e = of_nat (pos + 20)"
    and "unat disk + (pos + 20) < 2 ^ 32" "CHR 0x00 \<notin> set name" "length name < MAX_STRING"
  shows "new_inode s e disk = Inr (next_obj s, s\<lparr>
     inodes := (inodes s)(next_obj s \<mapsto> (id_inode name 0 0 0 (id_super s))\<lparr>i_length := e_count e\<rparr>), next_obj := Suc (next_obj s)\<rparr>)"
proof -
  have "kread_string MAX_STRING s (disk + of_nat (pos + 20)) = Inr name"
    using assms(1,4,5) by (intro holds_cstring) (auto simp: holds_append ac_simps)
  then show ?thesis using id_get_offset [OF assms(3)] assms(2)
    by (simp add: new_inode_def Let_def id_inode_def del: of_nat_add)
qed

lemma parse_file_image:
  assumes "holds s (disk + of_nat pos) (id_image host pos nx (Host_File name path))"
    and "unat disk + pos + image_size host (Host_File name path) < 2 ^ 32" "names_ok (Host_File name path)"
    and "0 < next_obj s" "heap_ok (lists s)"
  shows "\<exists>e s'. read_entry s (disk + of_nat pos) = Inr e \<and> e_type e = 0
     \<and> e_next e = (if nx then of_nat (pos + image_size host (Host_File name path)) else 0)
     \<and> parse_file s e disk = Inr (next_obj s, s') \<and> grown s s' 1 0 \<and> lists s' = lists s
     \<and> parsed host disk s' pos (next_obj s) l (Host_File name path)"
proof -
  let ?e = "\<lparr>e_type = 0, e_name = of_nat (pos + 20), e_count = of_nat (length (host path)),
       e_content = of_nat (pos + 21 + length name),
       e_next = (if nx then of_nat (pos + image_size host (Host_File name path)) else 0)\<rparr>"
  have h: "holds s (disk + of_nat pos) (entry_bytes ?e @ cstring name @ host path)" using assms(1) by (simp only: id_image.simps)
  have "unat disk + (pos + 21 + length name) < 2 ^ 32" using assms(2) by simp
  note g = id_get_offset [OF this]
  have n: "new_inode s ?e disk = Inr (next_obj s, s\<lparr>
     inodes := (inodes s)(next_obj s \<mapsto> (id_inode name 0 0 0 (id_super s))\<lparr>i_length := e_count ?e\<rparr>), next_obj := Suc (next_obj s)\<rparr>)"
    using assms(2,3) by (intro new_inode_image [OF h]) auto
  define s' where "s' = s\<lparr>inodes := (inodes s)(next_obj s \<mapsto> id_inode name FS_FILE (length (host path))
      (unat (disk + of_nat (pos + 21 + length name))) (id_super s)), next_obj := Suc (next_obj s)\<rparr>"
  have "parse_file s ?e disk = Inr (next_obj s, s')"
    using n g assms(4) by (simp add: parse_file_def upd_inode_def deref_def s'_def id_inode_def del: of_nat_add)
  moreover have "grown s (s\<lparr>inodes := inodes s', lists := lists s, next_obj := next_obj s + 1\<rparr>) 1 0"
    using assms(5) by (intro grownI) (simp_all add: s'_def)
  then have "grown s s' 1 0" by (simp add: s'_def)
  moreover have "parsed host disk s' pos (next_obj s) l (Host_File name path)" "lists s' = lists s"
    by (simp_all add: s'_def)
  moreover have "read_entry s (disk + of_nat pos) = Inr ?e" using h by (intro holds_entry) (simp add: holds_append)
  ultimately show ?thesis by (intro exI [of _ ?e] exI [of _ s']) (simp del: image_size.simps)
qed

text \<open>Appending to a list changes its header, its entries and the new entry only.\<close>

lemma list_add_back_frame:
  assumes rep: "list_rep h l as" and "list_add_back h l data = Inr h'"
  shows "\<And>a. a \<noteq> l \<Longrightarrow> l_lists h' a = l_lists h a" "\<And>a. a \<notin> set as \<Longrightarrow> a \<noteq> l_fresh h \<Longrightarrow> l_entries h' a = l_entries h a"
proof -
  from rep obtain L where L: "l_lists h l = Some L" "0 < l" "l_back L = last_or NULL as" "0 < l_fresh h" by (rule list_repE)
  have b: "l_back L \<noteq> NULL \<Longrightarrow> l_back L \<in> set as \<and> l_back L \<noteq> l_fresh h \<and> l_entries h (l_back L) \<noteq> None"
    using L list_rep_alloc [OF rep, of "last as"] by (auto simp: last_or_def split: if_splits)
  show "\<And>a. a \<noteq> l \<Longrightarrow> l_lists h' a = l_lists h a" "\<And>a. a \<notin> set as \<Longrightarrow> a \<noteq> l_fresh h \<Longrightarrow> l_entries h' a = l_entries h a"
    using assms(2) L b by (auto simp: list_add_back_def list_op_defs res_simps upd_entry_def split: if_splits)
qed

text \<open>The lists that existed before are as they were, but for the list \<open>l\<close> with the entries \<open>as\<close>.\<close>

definition old_lists :: "'a idev_state_scheme \<Rightarrow> 'a idev_state_scheme \<Rightarrow> ptr set \<Rightarrow> ptr set \<Rightarrow> bool" where
  "old_lists s s' L E \<longleftrightarrow> (\<forall>a < l_fresh (lists s). (a \<notin> L \<longrightarrow> l_lists (lists s') a = l_lists (lists s) a)
     \<and> (a \<notin> E \<longrightarrow> l_entries (lists s') a = l_entries (lists s) a))"

definition parse_ok :: "(string \<Rightarrow> u8 list) \<Rightarrow> u32 \<Rightarrow> 'a idev_state_scheme \<Rightarrow> nat \<Rightarrow> host_tree \<Rightarrow> ptr \<times> 'a idev_state_scheme \<Rightarrow> bool" where
  "parse_ok host disk s pos t r \<longleftrightarrow> (case r of (p, s') \<Rightarrow> p = next_obj s \<and> grown s s' (nodes t) (list_objs t)
     \<and> old_lists s s' {} {} \<and> parsed host disk s' pos p (l_fresh (lists s)) t)"

definition entries_ok ::
    "(string \<Rightarrow> u8 list) \<Rightarrow> u32 \<Rightarrow> 'a idev_state_scheme \<Rightarrow> nat \<Rightarrow> ptr \<Rightarrow> ptr list \<Rightarrow> host_tree list \<Rightarrow> 'a idev_state_scheme \<Rightarrow> bool" where
  "entries_ok host disk s pos l as ts s' \<longleftrightarrow> grown s s' (nodes_all ts) (list_objs_all ts) \<and> old_lists s s' {l} (set as)
     \<and> list_rep (lists s') l (as @ kid_entries (l_fresh (lists s)) ts)
     \<and> datas (lists s') (as @ kid_entries (l_fresh (lists s)) ts) = datas (lists s) as @ kid_inodes (next_obj s) ts
     \<and> parsed_all host disk s' pos (next_obj s) (l_fresh (lists s)) ts"

lemma entries_step:
  assumes rep: "list_rep (lists s) l as" and t: "parse_ok host disk s pos t (p, s1)" and p: "0 < next_obj s"
    and h: "list_add_back (lists s1) l p = Inr h"
    and ts: "entries_ok host disk (s1\<lparr>lists := h\<rparr>) (pos + image_size host t) l (as @ [l_fresh (lists s) + list_objs t]) ts s2"
  shows "entries_ok host disk s pos l as (t # ts) s2"
proof -
  let ?f = "l_fresh (lists s)" and ?p = "next_obj s" and ?k = "list_objs t" and ?u = "s1\<lparr>lists := h\<rparr>"
  from t have g1: "p = ?p" "grown s s1 (nodes t) ?k" "old_lists s s1 {} {}" "parsed host disk s1 pos ?p ?f t"
    by (auto simp: parse_ok_def)
  have old: "a < ?f \<Longrightarrow> l_lists (lists s1) a = l_lists (lists s) a \<and> l_entries (lists s1) a = l_entries (lists s) a" for a
    using g1(3) by (simp add: old_lists_def)
  have as: "l < ?f" "a \<in> set as \<Longrightarrow> a < ?f" for a
    using rep list_rep_alloc [OF rep, of a] by (auto elim: list_repE)
  have as': "?f \<le> a \<Longrightarrow> a \<notin> set as" for a using as(2) [of a] by auto
  have ok1: "heap_ok (lists s1)" "l_fresh (lists s1) = ?f + ?k" "next_obj s1 = ?p + nodes t" using g1(2) by (simp_all add: grown_def)
  have rep1: "list_rep (lists s1) l as" "datas (lists s1) as = datas (lists s) as"
    using list_rep_frame [OF rep ok1(1)] old as by auto
  from list_add_back_rep [OF rep1(1), of p] h have rep2: "list_rep h l (as @ [?f + ?k])" "datas h (as @ [?f + ?k]) = datas (lists s) as @ [?p]"
    "l_fresh h = Suc (?f + ?k)" using ok1(2) rep1(2) g1(1) by auto
  note fr = list_add_back_frame [OF rep1(1) h]
  have gu: "grown s1 (s1\<lparr>inodes := inodes s1, lists := h, next_obj := next_obj s1 + 0\<rparr>) 0 1"
    using rep2 ok1 by (intro grownI) (auto elim: list_repE)
  then have gu: "grown s ?u (nodes t) (Suc ?k)" using grown_trans [OF g1(2), of ?u 0 1] by simp
  from ts rep2 ok1 have e: "grown ?u s2 (nodes_all ts) (list_objs_all ts)" "old_lists ?u s2 {l} (set as \<union> {?f + ?k})"
    "list_rep (lists s2) l (as @ kid_entries ?f (t # ts))"
    "datas (lists s2) (as @ kid_entries ?f (t # ts)) = datas (lists s) as @ kid_inodes ?p (t # ts)"
    "parsed_all host disk s2 (pos + image_size host t) (?p + nodes t) (Suc (?f + ?k)) ts"
    by (simp_all add: entries_ok_def)
  have "grown s s2 (nodes_all (t # ts)) (list_objs_all (t # ts))" using grown_trans [OF gu e(1)] by simp
  moreover have "old_lists s s2 {l} (set as)"
    using e(2) g1(3) fr rep2(3) ok1(2) unfolding old_lists_def by auto
  moreover have "same_objs s1 s2 ?p (nodes t) ?f ?k"
    using e(1,2) fr as(1) as' ok1 rep2(3) grown_same(2) [OF e(1)] unfolding same_objs_def old_lists_def grown_def by auto
  then have "parsed host disk s2 pos ?p ?f t" by (rule parsed_frame(1) [OF g1(4)])
  ultimately show ?thesis using e(3-5) by (simp add: entries_ok_def)
qed


lemma grown_refl: "heap_ok (lists s) \<Longrightarrow> grown s s 0 0"
  using grownI [of "lists s" s 0 "inodes s" 0] by simp

lemma datas_Nil: "datas h [] = []"
  by (simp add: datas_def)

lemma length_le_images: "length ts \<le> images_size host ts"
proof (induction ts)
  case (Cons t ts)
  have "1 \<le> image_size host t" by (cases t) auto
  with Cons show ?case by simp
qed simp

lemma dir_start:
  assumes "0 < next_obj s" "heap_ok (lists s)" "read_entry s dir = Inr e" "e_type e = 1"
    and n: "new_inode s e disk = Inr (next_obj s, s\<lparr>inodes := (inodes s)(next_obj s \<mapsto> i), next_obj := Suc (next_obj s)\<rparr>)"
  shows "\<exists>u. parse_dir (Suc m) s dir disk =
       rbind (if id_get (e_count e) disk > 0 then parse_entries m u (l_fresh (lists s)) (id_get (e_content e) disk) disk else Inr u)
         (\<lambda>t. Inr (next_obj s, t))
     \<and> grown s u 1 1 \<and> old_lists s u {} {} \<and> list_rep (lists u) (l_fresh (lists s)) []
     \<and> inodes u (next_obj s) = Some (i\<lparr>i_flags := FS_DIR, i_impl := l_fresh (lists s)\<rparr>)"
proof -
  obtain l h where h: "list_create (lists s) = (l, h)" by fastforce
  have l: "l = l_fresh (lists s)" "l_fresh h = Suc l" "list_rep h l []" "heap_ok h"
    using h list_create_rep [OF assms(2) h] by (auto simp: list_create_def Let_def elim: list_repE)
  let ?I = "(inodes s)(next_obj s \<mapsto> i\<lparr>i_flags := FS_DIR, i_impl := l\<rparr>)"
  define u where "u = s\<lparr>inodes := (inodes s)(next_obj s \<mapsto> i), next_obj := Suc (next_obj s), lists := h, inodes := ?I\<rparr>"
  have u: "u = s\<lparr>inodes := ?I, lists := h, next_obj := next_obj s + 1\<rparr>" by (simp add: u_def)
  have "grown s u 1 1" unfolding u using l by (intro grownI) simp_all
  moreover have "old_lists s u {} {}" using h by (auto simp: u old_lists_def list_create_def Let_def)
  moreover have "upd_inode (s\<lparr>inodes := (inodes s)(next_obj s \<mapsto> i), next_obj := Suc (next_obj s), lists := h\<rparr>) (next_obj s)
      (\<lambda>i. i\<lparr>i_flags := FS_DIR, i_impl := l\<rparr>) = Inr u" using assms(1) by (simp add: upd_inode_def deref_def u_def)
  ultimately show ?thesis using assms(3,4) n h l by (intro exI [of _ u]) (simp add: u)
qed

lemma parse_dir_step:
  assumes h: "holds s (disk + of_nat pos) (id_image host pos nx (Host_Dir nm ts))"
    and b: "unat disk + (pos + image_size host (Host_Dir nm ts)) < 2 ^ 32" and nm: "names_ok (Host_Dir nm ts)"
    and s: "0 < next_obj s" "heap_ok (lists s)"
    and IH: "\<And>u. grown s u 1 1 \<Longrightarrow> list_rep (lists u) (l_fresh (lists s)) [] \<Longrightarrow>
      returns (parse_entries m u (l_fresh (lists s)) (if ts = [] then 0 else disk + of_nat (pos + 21 + length nm)) disk)
        (entries_ok host disk u (pos + 21 + length nm) (l_fresh (lists s)) [] ts)"
  shows "returns (parse_dir (Suc m) s (disk + of_nat pos) disk) (parse_ok host disk s pos (Host_Dir nm ts))"
proof -
  let ?e = "\<lparr>e_type = 1, e_name = of_nat (pos + 20), e_count = of_nat (length ts),
       e_content = of_nat (pos + 21 + length nm), e_next = (if nx then of_nat (pos + image_size host (Host_Dir nm ts)) else 0)\<rparr>"
  let ?pos = "pos + 21 + length nm"
  have h: "holds s (disk + of_nat pos) (entry_bytes ?e @ cstring nm @ id_images host ?pos ts)"
    using h by (simp only: id_image.simps)
  have r: "read_entry s (disk + of_nat pos) = Inr ?e" using h by (intro holds_entry) (simp add: holds_append)
  have b': "unat disk + ?pos < 2 ^ 32" using b by simp
  have ni: "new_inode s ?e disk = Inr (next_obj s, s\<lparr>
     inodes := (inodes s)(next_obj s \<mapsto> (id_inode nm 0 0 0 (id_super s))\<lparr>i_length := e_count ?e\<rparr>), next_obj := Suc (next_obj s)\<rparr>)"
    using b nm by (intro new_inode_image [OF h]) auto
  from dir_start [OF s r _ ni, of m] obtain u where
    u: "parse_dir (Suc m) s (disk + of_nat pos) disk =
       rbind (if id_get (e_count ?e) disk > 0 then parse_entries m u (l_fresh (lists s)) (id_get (e_content ?e) disk) disk else Inr u)
         (\<lambda>t. Inr (next_obj s, t))" and u2: "grown s u 1 1" "old_lists s u {} {}" "list_rep (lists u) (l_fresh (lists s)) []"
     "inodes u (next_obj s) = Some (id_inode nm FS_DIR (length ts) (l_fresh (lists s)) (id_super s))"
    by (auto simp: id_inode_def)
  have g: "id_get (e_content ?e) disk = disk + of_nat ?pos" using id_get_offset [OF b'] by simp
  have "length ts \<le> images_size host ts" by (rule length_le_images)
  then have c: "id_get (e_count ?e) disk > 0 \<longleftrightarrow> ts \<noteq> []"
    using id_get_offset [of disk "length ts"] b by (cases ts) (auto simp: id_get_def word_gt_0 simp del: of_nat_Suc)
  have f: "l_fresh (lists u) = Suc (l_fresh (lists s))" "next_obj u = Suc (next_obj s)" using u2(1) by (simp_all add: grown_def)
  from IH [OF u2(1,3)] obtain v where v: "parse_entries m u (l_fresh (lists s)) (if ts = [] then 0 else disk + of_nat ?pos) disk = Inr v"
    "entries_ok host disk u ?pos (l_fresh (lists s)) [] ts v" by (rule returnsE)
  have "ts = [] \<Longrightarrow> v = u" using v(1) by (cases m) auto
  with u c g v(1) have p: "parse_dir (Suc m) s (disk + of_nat pos) disk = Inr (next_obj s, v)" by (cases "ts = []") simp_all
  have "grown s v (1 + nodes_all ts) (1 + list_objs_all ts)" using grown_trans [OF u2(1)] v(2) by (simp add: entries_ok_def)
  moreover from this have "id_super v = id_super s" by (rule grown_same)
  moreover have "old_lists s v {} {}" using u2(2) v(2) f by (auto simp: entries_ok_def old_lists_def)
  moreover have "inodes v (next_obj s) = inodes u (next_obj s)" using v(2) f by (auto simp: entries_ok_def grown_def)
  ultimately have "parse_ok host disk s pos (Host_Dir nm ts) (next_obj s, v)"
    using v(2) f u2(4) by (simp add: parse_ok_def entries_ok_def datas_Nil)
  with p show ?thesis by simp
qed

text \<open>One round of the loop: the entry of the tree \<open>t\<close> is read and dispatched on its type.\<close>

definition parse_entry :: "nat \<Rightarrow> 'a idev_state_scheme \<Rightarrow> id_entry \<Rightarrow> u32 \<Rightarrow> u32 \<Rightarrow> (ptr \<times> 'a idev_state_scheme) res" where
  "parse_entry n s e entry disk =
     (if e_type e = 0 then parse_file s e disk else if e_type e = 1 then parse_dir n s entry disk else Inl Panic)"

lemma parse_entry_image:
  assumes h: "holds s (disk + of_nat pos) (id_image host pos nx t)" and b: "unat disk + (pos + image_size host t) < 2 ^ 32"
    and s: "names_ok t" "0 < next_obj s" "heap_ok (lists s)"
    and IH: "\<And>name us. t = Host_Dir name us \<Longrightarrow> returns (parse_dir m s (disk + of_nat pos) disk) (parse_ok host disk s pos t)"
  shows "\<exists>e s1. read_entry s (disk + of_nat pos) = Inr e \<and> e_next e = (if nx then of_nat (pos + image_size host t) else 0)
     \<and> parse_entry m s e (disk + of_nat pos) disk = Inr (next_obj s, s1) \<and> parse_ok host disk s pos t (next_obj s, s1)"
proof (cases t)
  case (Host_File name path)
  have "unat disk + pos + image_size host (Host_File name path) < 2 ^ 32" using b unfolding Host_File by (simp only: add.assoc)
  from parse_file_image [OF h [unfolded Host_File] this s(1) [unfolded Host_File] s(2,3), of "l_fresh (lists s)"]
  obtain e s' where "read_entry s (disk + of_nat pos) = Inr e" "e_type e = 0" "e_next e = (if nx then of_nat (pos + image_size host t) else 0)"
    "parse_file s e disk = Inr (next_obj s, s')" "grown s s' 1 0" "lists s' = lists s" "parsed host disk s' pos (next_obj s) (l_fresh (lists s)) t"
    unfolding Host_File by blast
  then show ?thesis by (intro exI [of _ e] exI [of _ s']) (simp add: parse_ok_def old_lists_def parse_entry_def Host_File)
next
  case (Host_Dir name us)
  from IH [OF Host_Dir] obtain r where
    "parse_dir m s (disk + of_nat pos) disk = Inr r" "parse_ok host disk s pos t r" by (rule returnsE)
  moreover from this have "r = (next_obj s, snd r)" by (cases r) (simp add: parse_ok_def)
  moreover have "read_entry s (disk + of_nat pos) = Inr \<lparr>e_type = 1, e_name = of_nat (pos + 20), e_count = of_nat (length us),
     e_content = of_nat (pos + 21 + length name), e_next = (if nx then of_nat (pos + image_size host t) else 0)\<rparr>"
    using h unfolding Host_Dir id_image.simps by (intro holds_entry) (simp add: holds_append)
  ultimately show ?thesis by (intro exI [of _ "\<lparr>e_type = 1, e_name = _, e_count = _, e_content = _, e_next = _\<rparr>"] exI [of _ "snd r"])
      (auto simp: parse_entry_def)
qed

lemma parse_entries_step:
  fixes s :: "'a idev_state_scheme"
  assumes t: "\<exists>e s1. read_entry s (disk + of_nat pos) = Inr e \<and> e_next e = (if ts \<noteq> [] then of_nat (pos + image_size host t) else 0)
     \<and> parse_entry m s e (disk + of_nat pos) disk = Inr (next_obj s, s1) \<and> parse_ok host disk s pos t (next_obj s, s1)"
    and rep: "list_rep (lists s) l as" and b: "unat disk + (pos + image_size host t) < 2 ^ 32" "0 < pos" "0 < next_obj s"
    and IH: "\<And>u :: 'a idev_state_scheme. holds u = holds s \<Longrightarrow> next_obj u = next_obj s + nodes t \<Longrightarrow> list_rep (lists u) l (as @ [l_fresh (lists s) + list_objs t]) \<Longrightarrow>
      returns (parse_entries m u l (if ts = [] then 0 else disk + of_nat (pos + image_size host t)) disk)
        (entries_ok host disk u (pos + image_size host t) l (as @ [l_fresh (lists s) + list_objs t]) ts)"
  shows "returns (parse_entries (Suc m) s l (disk + of_nat pos) disk) (entries_ok host disk s pos l as (t # ts))"
proof -
  from t obtain e s1 where e: "read_entry s (disk + of_nat pos) = Inr e"
    "e_next e = (if ts \<noteq> [] then of_nat (pos + image_size host t) else 0)"
    "parse_entry m s e (disk + of_nat pos) disk = Inr (next_obj s, s1)" "parse_ok host disk s pos t (next_obj s, s1)" by blast
  have g1: "grown s s1 (nodes t) (list_objs t)" "old_lists s s1 {} {}" using e(4) by (auto simp: parse_ok_def)
  have rep1: "list_rep (lists s1) l as"
    using list_rep_frame(1) [OF rep, of "lists s1"] g1 list_rep_alloc [OF rep] rep
    by (auto simp: grown_def old_lists_def elim: list_repE)
  from list_add_back_rep [OF rep1, of "next_obj s"] obtain h' where h': "list_add_back (lists s1) l (next_obj s) = Inr h'"
    "list_rep h' l (as @ [l_fresh (lists s1)])" by (rule returnsE) blast
  let ?u = "s1\<lparr>lists := h'\<rparr>"
  have "grown s1 (s1\<lparr>inodes := inodes s1, lists := h', next_obj := next_obj s1 + 0\<rparr>) 0 (l_fresh h' - l_fresh (lists s1))"
    using h' list_add_back_rep [OF rep1, of "next_obj s"] by (intro grownI) (auto elim: list_repE)
  then have "holds ?u = holds s" using grown_holds [OF g1(1)] grown_holds [of s1 ?u] by simp
  from IH [OF this] h'(2) g1(1) obtain v where
    v: "parse_entries m ?u l (if ts = [] then 0 else disk + of_nat (pos + image_size host t)) disk = Inr v"
    "entries_ok host disk ?u (pos + image_size host t) l (as @ [l_fresh (lists s) + list_objs t]) ts v"
    by (auto simp: grown_def elim: returnsE)
  have nx: "id_get (e_next e) disk = (if ts = [] then 0 else disk + of_nat (pos + image_size host t))"
    using id_get_offset [OF b(1)] e(2) by (cases t) (auto simp: id_get_def)
  have "disk + of_nat pos \<noteq> 0" using id_get_offset(2) [of disk pos] b(1,2) by simp
  then have "parse_entries (Suc m) s l (disk + of_nat pos) disk = Inr v"
    using e(1) e(3) h'(1) v(1) nx by (simp add: parse_entry_def)
  then show ?thesis using entries_step [OF rep e(4) b(3) h'(1) v(2)] by simp
qed

lemma parse_image:
  fixes s :: "'a idev_state_scheme"
  shows "holds s (disk + of_nat pos) (id_image host pos nx t) \<Longrightarrow> unat disk + (pos + image_size host t) < 2 ^ 32 \<Longrightarrow> names_ok t \<Longrightarrow>
     0 < next_obj s \<Longrightarrow> heap_ok (lists s) \<Longrightarrow> 2 * nodes t \<le> n \<Longrightarrow> t = Host_Dir name us \<Longrightarrow>
     returns (parse_dir n s (disk + of_nat pos) disk) (parse_ok host disk s pos t)"
  "holds s (disk + of_nat pos) (id_images host pos ts) \<Longrightarrow> unat disk + (pos + images_size host ts) < 2 ^ 32 \<Longrightarrow> names_ok_all ts \<Longrightarrow>
     0 < next_obj s \<Longrightarrow> list_rep (lists s) l as \<Longrightarrow> 2 * nodes_all ts < n \<Longrightarrow> 0 < pos \<Longrightarrow>
     returns (parse_entries n s l (if ts = [] then 0 else disk + of_nat pos) disk) (entries_ok host disk s pos l as ts)"
proof (induction t and ts arbitrary: s pos nx n name us and s pos l as n rule: nodes_nodes_all.induct)
  case (2 nm ts)
  then obtain m where n: "n = Suc m" by (cases n) auto
  have "returns (parse_dir (Suc m) s (disk + of_nat pos) disk) (parse_ok host disk s pos (Host_Dir nm ts))"
  proof (rule parse_dir_step [OF "2.prems"(1-5)])
    fix u assume u: "grown s u 1 1" "list_rep (lists u) (l_fresh (lists s)) []"
    have "holds u (disk + of_nat (pos + 21 + length nm)) (id_images host (pos + 21 + length nm) ts)"
      using "2.prems"(1) unfolding grown_holds [OF u(1)] by (simp add: holds_append ac_simps)
    then show "returns (parse_entries m u (l_fresh (lists s)) (if ts = [] then 0 else disk + of_nat (pos + 21 + length nm)) disk)
        (entries_ok host disk u (pos + 21 + length nm) (l_fresh (lists s)) [] ts)"
      using "2.prems" n u by (intro "2.IH") (auto simp: grown_def)
  qed
  then show ?case by (simp only: n)
next
  case (4 t ts)
  then obtain m where n: "n = Suc m" by (cases n) auto
  have h: "holds s (disk + of_nat pos) (id_image host pos (ts \<noteq> []) t)"
    "holds s (disk + of_nat (pos + image_size host t)) (id_images host (pos + image_size host t) ts)"
    using "4.prems"(1) by (simp_all add: holds_append ac_simps)
  have b: "unat disk + (pos + image_size host t) < 2 ^ 32" "names_ok t" "names_ok_all ts" "heap_ok (lists s)"
    using "4.prems"(2,3,5) by (auto elim: list_repE)
  obtain k where "nodes t = Suc k" using nodes_pos [of t] gr0_conv_Suc by blast
  then have k: "2 * nodes t \<le> m" "2 * nodes_all ts < m" using "4.prems"(6) n by simp_all
  have "returns (parse_entries (Suc m) s l (disk + of_nat pos) disk) (entries_ok host disk s pos l as (t # ts))"
  proof (rule parse_entries_step [OF parse_entry_image [OF h(1) b(1,2) "4.prems"(4) b(4)] "4.prems"(5) b(1) "4.prems"(7,4)])
    show "returns (parse_dir m s (disk + of_nat pos) disk) (parse_ok host disk s pos t)" if "t = Host_Dir name us" for name us
      using "4.IH"(1) [OF h(1) b(1,2) "4.prems"(4) b(4) k(1) that] .
    show "returns (parse_entries m u l (if ts = [] then 0 else disk + of_nat (pos + image_size host t)) disk)
        (entries_ok host disk u (pos + image_size host t) l (as @ [l_fresh (lists s) + list_objs t]) ts)"
      if "holds u = holds s" "next_obj u = next_obj s + nodes t" "list_rep (lists u) l (as @ [l_fresh (lists s) + list_objs t])"
      for u :: "'a idev_state_scheme"
      using that h(2) b(3) k(2) "4.prems"(2,4,7) by (intro "4.IH"(2)) auto
  qed
  then show ?case by (simp add: n)
next
  case 3
  then show ?case by (cases n) (auto simp: entries_ok_def old_lists_def intro!: grown_refl elim: list_repE)
qed simp

section \<open>Looking up in the parsed tree\<close>

fun tree_name :: "host_tree \<Rightarrow> string" where
  "tree_name (Host_File name path) = name"
| "tree_name (Host_Dir name ts) = name"

text \<open>Following a path in the host's tree.\<close>

fun find_tree :: "host_tree \<Rightarrow> string list \<Rightarrow> host_tree option" where
  "find_tree t [] = Some t"
| "find_tree (Host_File name path) (q # qs) = None"
| "find_tree (Host_Dir name ts) (q # qs) =
     (case List.find (\<lambda>t. tree_name t = q) ts of None \<Rightarrow> None | Some t \<Rightarrow> find_tree t qs)"

definition stored :: "(string \<Rightarrow> u8 list) \<Rightarrow> u32 \<Rightarrow> 'a idev_state_scheme \<Rightarrow> ptr \<Rightarrow> host_tree \<Rightarrow> bool" where
  "stored host disk s p t \<longleftrightarrow> 0 < p \<and> (\<exists>pos l nx. parsed host disk s pos p l t \<and> holds s (disk + of_nat pos) (id_image host pos nx t))"

lemma parsed_name: "parsed host disk s pos p l t \<Longrightarrow> named s name p \<longleftrightarrow> tree_name t = name"
  by (cases t) (auto simp: named_def id_inode_def)

lemma parsed_inode: "parsed host disk s pos p l t \<Longrightarrow> inodes s p \<noteq> None"
  by (cases t) auto

lemma find_kid:
  assumes "parsed_all host disk s pos p l ts" "holds s (disk + of_nat pos) (id_images host pos ts)" "0 < p"
  shows "case List.find (\<lambda>t. tree_name t = name) ts of None \<Rightarrow> find_named s (kid_inodes p ts) name = NULL
     | Some t \<Rightarrow> stored host disk s (find_named s (kid_inodes p ts) name) t"
  using assms
proof (induction ts arbitrary: pos p l)
  case (Cons t ts)
  have h: "holds s (disk + of_nat pos) (id_image host pos (ts \<noteq> []) t)"
    "holds s (disk + of_nat (pos + image_size host t)) (id_images host (pos + image_size host t) ts)"
    using Cons.prems(2) by (simp_all add: holds_append ac_simps)
  have t: "parsed host disk s pos p l t" and ts: "parsed_all host disk s (pos + image_size host t) (p + nodes t) (Suc (l + list_objs t)) ts"
    using Cons.prems(1) by simp_all
  show ?case
  proof (cases "tree_name t = name")
    case True
    then show ?thesis using t h(1) Cons.prems(3) parsed_name [OF t, of name]
      by (auto simp: find_named_def stored_def)
  next
    case False
    then have "find_named s (kid_inodes p (t # ts)) name = find_named s (kid_inodes (p + nodes t) ts) name"
      using parsed_name [OF t, of name] by (simp add: find_named_def)
    then show ?thesis using False Cons.IH [OF ts h(2)] Cons.prems(3) by (simp cong: option.case_cong)
  qed
qed (simp add: find_named_def)

lemma kid_inodes_range: "q \<in> set (kid_inodes p ts) \<Longrightarrow> p \<le> q \<and> q < p + nodes_all ts"
proof (induction ts arbitrary: p)
  case (Cons t ts)
  with nodes_pos [of t] show ?case by (cases "q = p") fastforce+
qed simp

lemma kid_inodes_exist: "parsed_all host disk s pos p l ts \<Longrightarrow> q \<in> set (kid_inodes p ts) \<Longrightarrow> inodes s q \<noteq> None"
  by (induction ts arbitrary: pos p l) (auto dest: parsed_inode)

lemma parsed_dir_list:
  assumes "parsed host disk s pos p l (Host_Dir name ts)"
  shows "inode_list s l (kid_inodes (Suc p) ts)" "id_content s p = kid_inodes (Suc p) ts"
proof -
  let ?as = "kid_entries (Suc l) ts"
  have a: "inodes s p = Some (id_inode name FS_DIR (length ts) l (id_super s))" "list_rep (lists s) l ?as"
    "kid_inodes (Suc p) ts = datas (lists s) ?as" "parsed_all host disk s (pos + 21 + length name) (Suc p) (Suc l) ts"
    using assms by auto
  have "q \<noteq> NULL \<and> inodes s q \<noteq> None" if "q \<in> set (kid_inodes (Suc p) ts)" for q
    using kid_inodes_exist [OF a(4) that] kid_inodes_range [OF that] by auto
  then show "inode_list s l (kid_inodes (Suc p) ts)" unfolding inode_list_def using a(2,3) by blast
  show "id_content s p = kid_inodes (Suc p) ts" using a list_iterate_rep [OF a(2)] by (simp add: id_content_def id_inode_def)
qed

lemma resolve_stored:
  "stored host disk s p t \<Longrightarrow> (case find_tree t qs of None \<Rightarrow> resolve (is_dir s) (id_child s) p qs = NULL
     | Some u \<Rightarrow> stored host disk s (resolve (is_dir s) (id_child s) p qs) u)"
proof (induction t qs arbitrary: p rule: find_tree.induct)
  case (1 t)
  then show ?case by simp
next
  case (2 name path q qs)
  then show ?case by (auto simp: stored_def is_dir_def id_inode_def bisset_def)
next
  case (3 name ts q qs)
  from "3.prems" obtain pos l nx where p: "0 < p" "parsed host disk s pos p l (Host_Dir name ts)"
    "holds s (disk + of_nat pos) (id_image host pos nx (Host_Dir name ts))" unfolding stored_def by blast
  have a: "parsed_all host disk s (pos + 21 + length name) (Suc p) (Suc l) ts" using p(2) by simp
  have "holds s (disk + of_nat (pos + 21 + length name)) (id_images host (pos + 21 + length name) ts)"
    using p(3) by (simp add: holds_append ac_simps)
  from find_kid [OF a this, of q] have k: "case List.find (\<lambda>t. tree_name t = q) ts of None \<Rightarrow> id_child s p q = NULL
     | Some t \<Rightarrow> stored host disk s (id_child s p q) t"
    using parsed_dir_list(2) [OF p(2)] by (simp add: id_child_def cong: option.case_cong)
  have d: "is_dir s p" using p(2) by (auto simp: is_dir_def id_inode_def bisset_def)
  show ?case
  proof (cases "List.find (\<lambda>t. tree_name t = q) ts")
    case None
    then show ?thesis using k d p(1) by (cases qs) auto
  next
    case (Some t)
    with k have "stored host disk s (id_child s p q) t" by simp
    from "3.IH" [OF Some this] Some show ?thesis using d p(1) by (simp cong: option.case_cong)
  qed
qed


lemma parsed_plain_node:
  "parsed host disk s pos p l t \<Longrightarrow> {p..<p + nodes t} \<subseteq> A \<Longrightarrow> 0 < p \<Longrightarrow> q \<in> {p..<p + nodes t} \<Longrightarrow>
     \<exists>i. inodes s q = Some i \<and> \<not> bisset (i_flags i) FS_SYMLINK \<and> \<not> bisset (i_flags i) FS_MOUNTP
            \<and> (bisset (i_flags i) FS_DIR \<longrightarrow> i_ops i = INITRD_IOPS \<and> id_dir_ok s q \<and> (\<forall>n. id_child s q n \<in> insert NULL A))"
  "parsed_all host disk s pos p l ts \<Longrightarrow> {p..<p + nodes_all ts} \<subseteq> A \<Longrightarrow> 0 < p \<Longrightarrow> q \<in> {p..<p + nodes_all ts} \<Longrightarrow>
     \<exists>i. inodes s q = Some i \<and> \<not> bisset (i_flags i) FS_SYMLINK \<and> \<not> bisset (i_flags i) FS_MOUNTP
            \<and> (bisset (i_flags i) FS_DIR \<longrightarrow> i_ops i = INITRD_IOPS \<and> id_dir_ok s q \<and> (\<forall>n. id_child s q n \<in> insert NULL A))"
proof (induction t and ts arbitrary: pos p l and pos p l rule: nodes_nodes_all.induct)
  case (1 name path)
  then show ?case by (auto simp: id_inode_def bisset_def)
next
  case (2 name ts)
  show ?case
  proof (cases "q = p")
    case True
    note d = parsed_dir_list [OF "2.prems"(1)]
    have "id_child s p n \<in> insert NULL A" for n
    proof (cases "List.find (named s n) (kid_inodes (Suc p) ts)")
      case (Some r)
      then have "r \<in> set (kid_inodes (Suc p) ts)" by (auto simp: find_Some_iff)
      with kid_inodes_range [OF this] have "r \<in> {p..<p + nodes (Host_Dir name ts)}" by simp
      then show ?thesis using "2.prems"(2) Some by (auto simp: id_child_def find_named_def d)
    qed (simp add: id_child_def find_named_def d)
    moreover have "id_dir_ok s p" using "2.prems"(1,3) d(1) by (auto simp: id_dir_ok_def id_inode_def)
    ultimately show ?thesis using True "2.prems"(1) by (auto simp: id_inode_def bisset_def)
  next
    case False
    then show ?thesis using "2.prems" by (intro "2.IH" [of "pos + 21 + length name" "Suc p" "Suc l"]) auto
  qed
next
  case (4 t ts)
  show ?case
  proof (cases "q < p + nodes t")
    case True
    then show ?thesis using "4.prems" by (intro "4.IH"(1) [of pos p l]) auto
  next
    case False
    then show ?thesis using "4.prems"
      by (intro "4.IH"(2) [of "pos + image_size host t" "p + nodes t" "Suc (l + list_objs t)"]) auto
  qed
qed simp

lemma parsed_plain_tree:
  assumes "parsed host disk s pos p l t" "0 < p"
  shows "plain_tree INITRD_IOPS id_dir_ok id_child s {p..<p + nodes t}"
proof -
  have "case inodes s q of None \<Rightarrow> False | Some i \<Rightarrow> \<not> bisset (i_flags i) FS_SYMLINK \<and> \<not> bisset (i_flags i) FS_MOUNTP
      \<and> (bisset (i_flags i) FS_DIR \<longrightarrow> i_ops i = INITRD_IOPS \<and> id_dir_ok s q \<and> (\<forall>n. id_child s q n \<in> insert NULL {p..<p + nodes t}))"
    if "q \<in> {p..<p + nodes t}" for q
    using parsed_plain_node(1) [OF assms(1) order_refl assms(2) that] by auto
  then show ?thesis unfolding plain_tree_def using assms(2) by auto
qed

section \<open>Starting from the image\<close>

text \<open>Registering the file system adds one entry to the list of file systems, which no directory shares.\<close>

lemma add_back_parsed:
  assumes p: "parsed host disk v pos p l t" and f: "list_rep (lists v) f fs"
    and d: "f \<notin> {l..<l + list_objs t}" "set fs \<inter> {l..<l + list_objs t} = {}" "l + list_objs t \<le> l_fresh (lists v)"
  shows "returns (list_add_back (lists v) f type) (\<lambda>h. heap_ok h \<and> parsed host disk (v\<lparr>lists := h\<rparr>) pos p l t)"
proof -
  from list_add_back_rep [OF f, of type] obtain h where h: "list_add_back (lists v) f type = Inr h" "list_rep h f (fs @ [l_fresh (lists v)])"
    by (rule returnsE) blast
  note fr = list_add_back_frame [OF f h(1)]
  have "a \<noteq> f \<and> a \<notin> set fs \<and> a \<noteq> l_fresh (lists v)" if "l \<le> a" "a < l + list_objs t" for a using d that by auto
  then have "same_objs v (v\<lparr>lists := h\<rparr>) p (nodes t) l (list_objs t)"
    unfolding same_objs_def using h(2) fr by (auto elim: list_repE)
  from parsed_frame(1) [OF p this] h show ?thesis by (auto elim: list_repE)
qed

definition same_fs :: "'a idev_state_scheme \<Rightarrow> 'a idev_state_scheme \<Rightarrow> bool" where
  "same_fs v u \<longleftrightarrow> kread u = kread v \<and> inodes u = inodes v \<and> next_obj u = next_obj v \<and> id_root u = id_root v
     \<and> fs_root u = fs_root v \<and> fstypes u = fstypes v"

lemma same_fs_lists [simp]: "same_fs v (v\<lparr>lists := h\<rparr>)" "same_fs v (v\<lparr>fslist := f, lists := h\<rparr>)"
  by (simp_all add: same_fs_def kread_def kaddr_def fun_eq_iff)

lemma register_parsed:
  assumes p: "parsed host disk v pos p l t" and k: "l + list_objs t = l_fresh (lists v)" "heap_ok (lists v)" "type \<noteq> NULL"
    and f: "fslist v \<noteq> NULL \<Longrightarrow> fslist v < l \<and> (\<exists>fs. list_rep (lists v) (fslist v) fs \<and> (\<forall>a \<in> set fs. a < l))"
  shows "returns (vfs_register v type) (\<lambda>(r, u). r = 0 \<and> parsed host disk u pos p l t \<and> same_fs v u)"
proof (cases "fslist v = NULL")
  case True
  obtain f h where h: "list_create (lists v) = (f, h)" by fastforce
  let ?w = "v\<lparr>lists := h, fslist := f\<rparr>"
  have w: "list_rep h f []" "f = l_fresh (lists v)" "l_fresh h = Suc f" "heap_ok h" "\<And>a. a \<noteq> f \<Longrightarrow> l_lists h a = l_lists (lists v) a" "l_entries h = l_entries (lists v)"
    using list_create_rep [OF k(2) h] h by (auto simp: list_create_def Let_def elim: list_repE)
  have "same_objs v ?w p (nodes t) l (list_objs t)" using w k(1) by (simp add: same_objs_def)
  from parsed_frame(1) [OF p this] have "parsed host disk ?w pos p l t" .
  from add_back_parsed [OF this, of f "[]" type] w k(1) show ?thesis
    using True h k(3) by (auto simp: vfs_register_def elim!: returnsE)
next
  case False
  from f [OF this] obtain fs where fs: "fslist v < l" "list_rep (lists v) (fslist v) fs" "\<forall>a \<in> set fs. a < l" by blast
  have "returns (list_add_back (lists v) (fslist v) type) (\<lambda>h. heap_ok h \<and> parsed host disk (v\<lparr>lists := h\<rparr>) pos p l t)"
    using fs k(1) by (intro add_back_parsed [OF p fs(2)]) force+
  then obtain h where "list_add_back (lists v) (fslist v) type = Inr h" "parsed host disk (v\<lparr>lists := h\<rparr>) pos p l t" by (rule returnsE) blast
  then show ?thesis using False k(3) by (simp add: vfs_register_def)
qed

text \<open>What the kernel needs before it parses the image at \<open>disk\<close>.\<close>

definition boot_ok :: "(string \<Rightarrow> u8 list) \<Rightarrow> u32 \<Rightarrow> 'a idev_state_scheme \<Rightarrow> host_tree \<Rightarrow> bool" where
  "boot_ok host disk s t \<longleftrightarrow> holds s disk (disk_image host t) \<and> unat disk + length (disk_image host t) < 2 ^ 32 \<and> names_ok t
     \<and> 0 < next_obj s \<and> heap_ok (lists s) \<and> (fslist s \<noteq> NULL \<longrightarrow> (\<exists>fs. list_rep (lists s) (fslist s) fs))"

lemma init_initrd_image:
  assumes b: "boot_ok host disk s t" and t: "t = Host_Dir nm ts" "2 * nodes t \<le> n" "1 \<le> mods_count" "type \<noteq> NULL"
  shows "returns (init_initrd n s mods_count disk type) (\<lambda>u. id_root u = next_obj s \<and> stored host disk u (next_obj s) t
     \<and> plain_tree INITRD_IOPS id_dir_ok id_child u {next_obj s..<next_obj u} \<and> next_obj u = next_obj s + nodes t
     \<and> fs_root u = fs_root s \<and> fstypes u = fstypes s \<and> (\<forall>a < next_obj s. inodes u a = inodes s a))"
proof -
  let ?l = "l_fresh (lists s)" and ?p = "next_obj s"
  from b have h: "holds s disk (disk_image host t)" "unat disk + (4 + image_size host t) < 2 ^ 32" "names_ok t" "0 < ?p" "heap_ok (lists s)"
    and f: "fslist s \<noteq> NULL \<Longrightarrow> \<exists>fs. list_rep (lists s) (fslist s) fs" by (auto simp: boot_ok_def disk_image_def)
  have h4: "holds s (disk + of_nat 4) (id_image host 4 False t)" and c: "check_img s disk = Inr True"
    using h(1) by (simp_all add: disk_image_def holds_Cons check_img_def ac_simps)
  from parse_image(1) [OF h4 h(2-5) t(2,1)] obtain v where v: "parse_dir n s (disk + 4) disk = Inr (?p, v)"
    "grown s v (nodes t) (list_objs t)" "old_lists s v {} {}" "parsed host disk v 4 ?p ?l t"
    by (auto simp: parse_ok_def elim!: returnsE)
  from v(2) obtain I g where vg: "v = s\<lparr>inodes := I, lists := g, next_obj := ?p + nodes t\<rparr>" "l_fresh g = ?l + list_objs t"
    "heap_ok g" "\<And>a. a < ?p \<Longrightarrow> I a = inodes s a" by (rule grownE) blast
  let ?v = "v\<lparr>id_root := ?p\<rparr>"
  have fl: "fslist ?v \<noteq> NULL \<Longrightarrow> fslist ?v < ?l \<and> (\<exists>fs. list_rep (lists ?v) (fslist ?v) fs \<and> (\<forall>a \<in> set fs. a < ?l))"
  proof -
    assume "fslist ?v \<noteq> NULL"
    then obtain fs where fs: "list_rep (lists s) (fslist s) fs" using f vg(1) by auto
    then have a: "fslist s < ?l" "\<And>a. a \<in> set fs \<Longrightarrow> a < ?l" using list_rep_alloc [OF fs] by (auto elim: list_repE)
    have "list_rep g (fslist s) fs" using v(3) a vg(1) list_rep_frame(1) [OF fs vg(3)] by (auto simp: old_lists_def)
    then show ?thesis using a vg(1) by auto
  qed
  have pv: "parsed host disk ?v 4 ?p ?l t"
    using v(4) vg by (intro parsed_frame(1) [OF v(4)]) (simp add: same_objs_def)
  from register_parsed [OF pv _ _ t(4) fl] vg obtain u where u: "vfs_register ?v type = Inr (0, u)"
    "parsed host disk u 4 ?p ?l t" "same_fs ?v u" by (auto elim!: returnsE)
  have k: "kread u = kread s" using u(3) vg(1) by (auto simp: same_fs_def kread_def kaddr_def fun_eq_iff)
  then have "stored host disk u ?p t" using h4 u(2) h(4) unfolding stored_def holds_def by (metis (no_types))
  moreover have "next_obj u = ?p + nodes t" using u(3) vg(1) by (simp add: same_fs_def)
  ultimately show ?thesis
    using t(3) c v(1) u parsed_plain_tree [OF u(2) h(4)] vg by (simp add: init_initrd_def same_fs_def)
qed


text \<open>The inode at \<open>q\<close> is what the host's tree has there; the content of a file lies at the inode's \<^verbatim>\<open>impl\<close>.\<close>

fun shows_tree :: "(string \<Rightarrow> u8 list) \<Rightarrow> 'a idev_state_scheme \<Rightarrow> ptr \<Rightarrow> host_tree \<Rightarrow> bool" where
  "shows_tree host s q (Host_File name path) \<longleftrightarrow> (\<exists>i. inodes s q = Some i \<and> i_name i = name \<and> i_flags i = FS_FILE
     \<and> i_ops i = INITRD_IOPS \<and> i_length i = of_nat (length (host path)) \<and> holds s (of_nat (i_impl i)) (host path))"
| "shows_tree host s q (Host_Dir name ts) \<longleftrightarrow> (\<exists>i. inodes s q = Some i \<and> i_name i = name \<and> i_flags i = FS_DIR
     \<and> i_ops i = INITRD_IOPS \<and> i_length i = of_nat (length ts))"

lemma stored_shows: "stored host disk s q t \<Longrightarrow> q \<noteq> NULL \<and> shows_tree host s q t"
proof (cases t)
  case (Host_File name path)
  assume "stored host disk s q t"
  then obtain pos l nx where q: "0 < q" "parsed host disk s pos q l t" "holds s (disk + of_nat pos) (id_image host pos nx t)"
    unfolding stored_def by blast
  have "disk + of_nat pos + 20 + (1 + of_nat (length name)) = disk + of_nat (pos + 21 + length name)" by simp
  then have "holds s (disk + of_nat (pos + 21 + length name)) (host path)" using q(3) by (simp add: Host_File holds_append add.assoc)
  then show ?thesis using q by (simp add: Host_File id_inode_def)
qed (auto simp: stored_def id_inode_def)

lemma resolve_in_tree:
  assumes "plain_tree tab ok entry s A"
  shows "p \<in> insert NULL A \<Longrightarrow> resolve (is_dir s) (entry s) p qs \<in> insert NULL A"
proof (induction qs arbitrary: p)
  case (Cons q qs)
  show ?case using Cons.IH [of "entry s p q"] plain_tree_entry [OF assms, of p q] Cons.prems by auto
qed simp

lemma shows_tree_mounted:
  assumes "shows_tree host s q t" "q \<noteq> point"
  shows "shows_tree host (mounted_initrd s point flags) q t"
proof -
  have "holds (mounted_initrd s point flags) = holds s"
    by (simp add: holds_def fun_eq_iff mounted_initrd_def kread_def kaddr_def)
  then show ?thesis using assms by (cases t) (auto simp: mounted_same)
qed

lemma initrd_path:
  fixes s :: "'a idev_state_scheme"
  assumes b: "boot_ok host disk s t" "t = Host_Dir nm ts" "2 * nodes t \<le> n" "1 \<le> mods_count"
    and ty: "type \<noteq> NULL" "fstypes s type = Some \<lparr>ft_name = ''initrd'', ft_flags = 0, ft_mount = 1\<rparr>"
    and r: "fs_root s \<noteq> NULL" "fs_root s < next_obj s" "inodes s (fs_root s) = Some i" "bisset (i_flags i) FS_DIR" "\<not> bisset (i_flags i) FS_SYMLINK"
    and path: "path_absolute path" "list_all (\<lambda>p. length p < FS_MAX_NAME) (all_parts path)"
  shows "returns (init_initrd n s mods_count disk type) (\<lambda>u.
     returns (vfs_mount (kernel_drivers D) u type (fs_root u) dev flags) (\<lambda>(err, v). err = 0 \<and>
       returns (vfs_lookup (kernel_drivers D) v path (fs_root v)) (\<lambda>(q, w).
         case find_tree t (all_parts path) of None \<Rightarrow> q = NULL | Some f \<Rightarrow> q \<noteq> NULL \<and> shows_tree host v q f)))"
proof -
  from init_initrd_image [OF b ty(1)] obtain u where u: "init_initrd n s mods_count disk type = Inr u"
    "id_root u = next_obj s" "stored host disk u (next_obj s) t"
    "plain_tree INITRD_IOPS id_dir_ok id_child u {next_obj s..<next_obj u}" "next_obj u = next_obj s + nodes t"
    "fs_root u = fs_root s" "fstypes u = fstypes s" "\<forall>a < next_obj s. inodes u a = inodes s a" by (rule returnsE) blast
  have iu: "inodes u (fs_root u) = Some i" using u(6,8) r(2,3) by simp
  have d: "is_dir u (id_root u)" using u(2) stored_shows [OF u(3)] b(2) by (auto simp: is_dir_def bisset_def)
  have m: "vfs_mount (kernel_drivers D) u type (fs_root u) dev flags = Inr (0, mounted_initrd u (fs_root u) flags)"
    using ty r u(5-7) iu b(1) by (intro initrd_vfs_mount [where i = i]) (auto simp: bisset_def boot_ok_def)
  let ?v = "mounted_initrd u (fs_root u) flags" and ?q = "resolve (is_dir u) (id_child u) (id_root u) (all_parts path)"
  have "returns (vfs_lookup (kernel_drivers D) ?v path (fs_root u)) (\<lambda>(q, w). q = ?q)"
    using u(2,5,6) d r iu path nodes_pos [of t]
    by (intro initrd_lookup_mounted [OF u(4)]) auto
  moreover have "case find_tree t (all_parts path) of None \<Rightarrow> ?q = NULL | Some f \<Rightarrow> ?q \<noteq> NULL \<and> shows_tree host ?v ?q f"
  proof (cases "find_tree t (all_parts path)")
    case (Some f)
    with resolve_stored [OF u(3), of "all_parts path"] u(2) have f: "stored host disk u ?q f" by simp
    have "?q \<in> insert NULL {next_obj s..<next_obj u}"
      using u(2,5) nodes_pos [of t] by (intro resolve_in_tree [OF u(4)]) simp
    then have "?q \<noteq> fs_root u" using stored_shows [OF f] u(6) r(2) by auto
    with Some stored_shows [OF f] show ?thesis by (auto intro: shows_tree_mounted)
  qed (use resolve_stored [OF u(3), of "all_parts path"] u(2) in simp)
  ultimately show ?thesis using u(1) m by (auto simp: mounted_same elim!: returns_mono)
qed

section \<open>Results\<close>

text \<open>
  C1. From the host to the kernel's file system: the tool returns an image of every directory tree; when that
  image lies in kernel memory, \<^verbatim>\<open>init_initrd\<close> returns, mounting the ramdisk on the root succeeds, and looking
  up any absolute path gives the inode of what the tree has there -- with its name, kind and size, and for
  a file with exactly the host's bytes behind it -- or null when the tree has nothing there.
\<close>

theorem initrd_roundtrip:
  fixes s :: "'a idev_state_scheme"
  assumes b: "0 < b_fresh b" "2 * nodes (Host_Dir nm ts) \<le> n" "names_ok (Host_Dir nm ts)"
    and s: "0 < next_obj s" "heap_ok (lists s)" "fslist s \<noteq> NULL \<Longrightarrow> \<exists>fs. list_rep (lists s) (fslist s) fs"
    and ty: "type \<noteq> NULL" "fstypes s type = Some \<lparr>ft_name = ''initrd'', ft_flags = 0, ft_mount = 1\<rparr>"
    and r: "fs_root s \<noteq> NULL" "fs_root s < next_obj s" "inodes s (fs_root s) = Some i" "bisset (i_flags i) FS_DIR" "\<not> bisset (i_flags i) FS_SYMLINK"
    and path: "path_absolute path" "list_all (\<lambda>p. length p < FS_MAX_NAME) (all_parts path)"
  shows "returns (mkinitrd host n b (Host_Dir nm ts)) (\<lambda>img.
     holds s disk img \<longrightarrow> unat disk + length img < 2 ^ 32 \<longrightarrow>
     returns (init_initrd n s 1 disk type) (\<lambda>u.
       returns (vfs_mount (kernel_drivers D) u type (fs_root u) dev flags) (\<lambda>(err, v). err = 0 \<and>
         returns (vfs_lookup (kernel_drivers D) v path (fs_root v)) (\<lambda>(q, w).
           case find_tree (Host_Dir nm ts) (all_parts path) of None \<Rightarrow> q = NULL
           | Some f \<Rightarrow> q \<noteq> NULL \<and> shows_tree host v q f))))"
  using mkinitrd_image [OF b(1,2), of host] initrd_path [OF _ refl b(2) _ ty r path, of host disk 1 D dev flags] b s
  by (simp add: boot_ok_def)

definition demo_ramdisk :: idev_state where
  "demo_ramdisk = demo_fs\<lparr>pmem := (\<lambda>a. disk_image (\<lambda>_. [1, 2, 3]) demo_tree ! unat (a - 0x10000))\<rparr>"

lemma demo_ramdisk_kaddr: "unat v < 4194304 \<Longrightarrow> kaddr demo_ramdisk v = Inr v"
proof -
  assume v: "unat v < 4194304"
  define i where "i = unat v div 4096"
  have i: "i < 1024" "ptab_index v = i" using v by (simp_all add: i_def ptab_index_nat less_mult_imp_div_less)
  have p: "push_bit 12 (of_nat i) = page_addr i" by (simp add: page_addr_def push_bit_eq_mult)
  have u: "unat (page_addr i) = i * 4096" using i(1) by (simp add: unat_page_addr)
  then have g: "getaddr (page_addr i OR 3) = page_addr i" by (intro getaddr_or_flags) simp_all
  have "bisset (page_addr i OR 3) PE_PRESENT" using u flags_present [of "page_addr i" 3] by (simp add: bisset_def)
  moreover have "unat (page_addr i + PAGE_OFFSET v) = unat v"
    using u i(1) by (simp add: unat_add_u32_small unat_PAGE_OFFSET) (simp add: i_def)
  then have "page_addr i + PAGE_OFFSET v = v" by (simp add: u32_eq_iff_unat)
  ultimately show ?thesis using g i(2) p
    by (simp add: kaddr_def demo_ramdisk_def demo_fs_def demo_objects_def idev_fields bisset_def)
qed

lemma demo_ramdisk_holds: "holds demo_ramdisk 0x10000 (disk_image (\<lambda>_. [1, 2, 3]) demo_tree)"
proof -
  have l: "length (disk_image (\<lambda>_. [1, 2, 3]) demo_tree) = 101" by (simp add: disk_image_def demo_tree_def)
  have "kread demo_ramdisk (0x10000 + of_nat i) = Inr (disk_image (\<lambda>_. [1, 2, 3]) demo_tree ! i)" if "i < 101" for i
  proof -
    have "unat (0x10000 + of_nat i :: u32) = 65536 + i" using that by (simp add: unat_add_u32_small)
    then have "kaddr demo_ramdisk (0x10000 + of_nat i) = Inr (0x10000 + of_nat i)" using that by (intro demo_ramdisk_kaddr) simp
    moreover have "pmem demo_ramdisk (0x10000 + of_nat i) = disk_image (\<lambda>_. [1, 2, 3]) demo_tree ! i"
      using that by (simp add: demo_ramdisk_def)
    ultimately show ?thesis by (simp add: kread_def)
  qed
  then show ?thesis by (simp add: holds_def l)
qed

theorem initrd_roundtrip_witness:
  "\<forall>D. returns (mkinitrd (\<lambda>_. [1, 2, 3]) 8 demo_build demo_tree) (\<lambda>img.
     returns (init_initrd 8 demo_ramdisk 1 0x10000 4) (\<lambda>u.
       returns (vfs_mount (kernel_drivers D) u 4 (fs_root u) None 0) (\<lambda>(err, v).
         returns (vfs_lookup (kernel_drivers D) v ''/d/b'' (fs_root v)) (\<lambda>(q, w).
           shows_tree (\<lambda>_. [1, 2, 3]) v q (Host_File ''b'' ''/b'')))))"
proof
  fix D
  have t: "demo_tree = Host_Dir ''root'' [Host_File ''a'' ''/a'', Host_Dir ''d'' [Host_File ''b'' ''/b'']]" by (rule demo_tree_def)
  have p: "all_parts ''/d/b'' = [''d'', ''b'']" by (simp add: all_parts_def path_parts_def)
  have f: "find_tree demo_tree (all_parts ''/d/b'') = Some (Host_File ''b'' ''/b'')" by (simp add: p t)
  have h: "heap_ok (lists demo_ramdisk)" by (auto simp: demo_ramdisk_def demo_fs_simps heap_ok_def within_def)
  have i: "inodes demo_ramdisk 1 = Some (demo_inode ''/'' FS_DIR 0 0 NULL)" "fslist demo_ramdisk = NULL" "fs_root demo_ramdisk = 1" "next_obj demo_ramdisk = 7"
    "fstypes demo_ramdisk 4 = Some \<lparr>ft_name = ''initrd'', ft_flags = 0, ft_mount = 1\<rparr>"
    by (simp_all add: demo_ramdisk_def demo_fs_simps) (simp add: demo_fs_def demo_objects_def idev_fields)
  have m: "mkinitrd (\<lambda>_. [1, 2, 3]) 8 demo_build demo_tree = Inr (disk_image (\<lambda>_. [1, 2, 3]) demo_tree)"
    unfolding t by (rule mkinitrd_image) (simp_all add: demo_build_def)
  have l: "unat (0x10000 :: u32) + length (disk_image (\<lambda>_. [1, 2, 3]) demo_tree) < 2 ^ 32" by (simp add: disk_image_def t)
  have "returns (mkinitrd (\<lambda>_. [1, 2, 3]) 8 demo_build (Host_Dir ''root'' [Host_File ''a'' ''/a'', Host_Dir ''d'' [Host_File ''b'' ''/b'']])) (\<lambda>img.
     holds demo_ramdisk 0x10000 img \<longrightarrow> unat (0x10000 :: u32) + length img < 2 ^ 32 \<longrightarrow>
     returns (init_initrd 8 demo_ramdisk 1 0x10000 4) (\<lambda>u.
       returns (vfs_mount (kernel_drivers D) u 4 (fs_root u) None 0) (\<lambda>(err, v). err = 0 \<and>
         returns (vfs_lookup (kernel_drivers D) v ''/d/b'' (fs_root v)) (\<lambda>(q, w).
           case find_tree (Host_Dir ''root'' [Host_File ''a'' ''/a'', Host_Dir ''d'' [Host_File ''b'' ''/b'']]) (all_parts ''/d/b'') of None \<Rightarrow> q = NULL
           | Some f \<Rightarrow> q \<noteq> NULL \<and> shows_tree (\<lambda>_. [1, 2, 3]) v q f))))"
    by (rule initrd_roundtrip [where i = "demo_inode ''/'' FS_DIR 0 0 NULL"])
      (simp_all add: h i i(1) [unfolded One_nat_def] p demo_build_def demo_inode_def bisset_def path_absolute_def)
  then have "returns (init_initrd 8 demo_ramdisk 1 0x10000 4) (\<lambda>u.
       returns (vfs_mount (kernel_drivers D) u 4 (fs_root u) None 0) (\<lambda>(err, v). err = 0 \<and>
         returns (vfs_lookup (kernel_drivers D) v ''/d/b'' (fs_root v)) (\<lambda>(q, w).
           q \<noteq> NULL \<and> shows_tree (\<lambda>_. [1, 2, 3]) v q (Host_File ''b'' ''/b''))))"
    unfolding t [symmetric] f m using demo_ramdisk_holds l by simp
  then have "returns (init_initrd 8 demo_ramdisk 1 0x10000 4) (\<lambda>u.
       returns (vfs_mount (kernel_drivers D) u 4 (fs_root u) None 0) (\<lambda>(err, v).
         returns (vfs_lookup (kernel_drivers D) v ''/d/b'' (fs_root v)) (\<lambda>(q, w).
           shows_tree (\<lambda>_. [1, 2, 3]) v q (Host_File ''b'' ''/b''))))"
    by (auto elim!: returns_mono)
  then show "returns (mkinitrd (\<lambda>_. [1, 2, 3]) 8 demo_build demo_tree) (\<lambda>img.
     returns (init_initrd 8 demo_ramdisk 1 0x10000 4) (\<lambda>u.
       returns (vfs_mount (kernel_drivers D) u 4 (fs_root u) None 0) (\<lambda>(err, v).
         returns (vfs_lookup (kernel_drivers D) v ''/d/b'' (fs_root v)) (\<lambda>(q, w).
           shows_tree (\<lambda>_. [1, 2, 3]) v q (Host_File ''b'' ''/b'')))))"
    unfolding m by simp
qed

end
