(* ===== verification/Kos_Proc.thy ===== *)
theory Kos_Proc
  imports Kos_Initrd
begin

text \<open>
  The life of a process: creation, fork and destruction in \<^verbatim>\<open>kernel/pm.c\<close>, which use the heap, paging and
  the file system.
\<close>

section \<open>State\<close>

text \<open>
  The members of \<^verbatim>\<open>struct proc\<close> that belong to the file system and the loader: the name of the terminal,
  the cleanup function and the loader's list of segments, and the segments themselves.
\<close>

record elf32_ldata =
  ld_base :: u32
  ld_pages :: u32

record kp_state = idev_state +
  p_tty :: "ptr \<Rightarrow> string option"
  p_cleanup :: "ptr \<Rightarrow> ptr"
  p_ldata :: "ptr \<Rightarrow> ptr"
  segments :: "ptr \<Rightarrow> elf32_ldata option"

abbreviation (input) km_alloc_page :: "'a vm_state_scheme \<Rightarrow> (u32 \<times> 'a vm_state_scheme) res" where
  "km_alloc_page s \<equiv> vm_alloc_page s (kernel_pdir s) False"

abbreviation (input) USER_FLAGS :: u32 where "USER_FLAGS \<equiv> PE_PRESENT OR PE_READWRITE OR PE_USERMODE"
abbreviation (input) INFO_SPACE_START :: u32 where "INFO_SPACE_START \<equiv> 0x30000000"
abbreviation (input) SIZEOF_MSG :: u32 where "SIZEOF_MSG \<equiv> 20"
abbreviation (input) PROC_MSG_BUFFER_SIZE :: u32 where "PROC_MSG_BUFFER_SIZE \<equiv> 24"

section \<open>pm.c: creating a process\<close>

text \<open>A string copied into a new heap block.\<close>

definition kstrdup :: "'a km_state_scheme \<Rightarrow> string \<Rightarrow> (u32 \<times> 'a km_state_scheme) res" where
  "kstrdup s str =
     rbind (kmalloc s (of_nat (length str) + 1)) (\<lambda>(p, s).
     rbind (kwrite_bytes s p (map of_char str @ [0])) (\<lambda>s. Inr (p, s)))"

text \<open>The part of \<^verbatim>\<open>init_proc\<close> that sets up the file system data, with the parent's directory if it has one.\<close>

definition init_proc_fs ::
    "'a kp_state_scheme drivers \<Rightarrow> 'a kp_state_scheme \<Rightarrow> ptr \<Rightarrow> ptr \<Rightarrow> 'a kp_state_scheme res" where
  "init_proc_fs D s proc pproc =
     (case vfs_create_procdata s of (d, s) \<Rightarrow>
        let s = put_fs s proc d
        in if pproc = NULL then Inr s
           else rbind (get_fs s pproc) (\<lambda>pd.
             if fd_cwd pd = NULL then Inr s
             else rbind (deref (dirents s) (fd_cwd pd)) (\<lambda>e.
                  rbind (vfs_change_dir D s proc (Some (d_name e))) (\<lambda>(err, s). Inr s))))"

text \<open>The user stack and the kernel stack with its first frame.\<close>

definition init_proc_stacks ::
    "'a kp_state_scheme \<Rightarrow> ptr \<Rightarrow> u32 \<Rightarrow> proc_mode \<Rightarrow> 'a kp_state_scheme res" where
  "init_proc_stacks s proc entry mode =
     (case mm_alloc_page s of (ustackp, s) \<Rightarrow>
        if ustackp = NO_PAGE then Inl Panic
        else rbind (upd_proc s proc (\<lambda>c. c\<lparr>p_ustack_addr := ustackp\<rparr>)) (\<lambda>s.
             rbind (get_proc s proc) (\<lambda>c.
             rbind (get_as s (p_as c)) (\<lambda>a.
             rbind (vm_map_page s (as_pdir a) ustackp (USER_STACK_ADDR - PAGE_SIZE) USER_FLAGS) (\<lambda>s.
             rbind (km_alloc_page s) (\<lambda>(kstack, s).
             rbind (upd_proc s proc (\<lambda>c. c\<lparr>p_kstack_addr := kstack\<rparr>)) (\<lambda>s.
               case prepare_stack (kstack + PAGE_SIZE) entry mode of (frame, kstack) \<Rightarrow>
                 rbind (kwrite_bytes s kstack (concat (map bytes_of_u32 frame))) (\<lambda>s.
                   upd_proc s proc (\<lambda>c. c\<lparr>p_kstack := kstack, p_esp := kstack\<rparr>)))))))))"

text \<open>
  \<open>mem\<close> is what the new message buffer's memory holds. \<^verbatim>\<open>cmdline\<close> is a string in kernel memory.
\<close>

definition init_proc ::
    "'a kp_state_scheme drivers \<Rightarrow> (nat \<Rightarrow> u8) \<Rightarrow> 'a kp_state_scheme \<Rightarrow> ptr \<Rightarrow> u32 \<Rightarrow> string \<Rightarrow> proc_mode \<Rightarrow> u32
       \<Rightarrow> proc_status \<Rightarrow> 'a kp_state_scheme res" where
  "init_proc D mem s proc entry cmdline mode parent status =
     (let pproc = (if parent \<noteq> 0 then pm_get_proc s parent else NULL)
      in case newpid s of (pid, s) \<Rightarrow>
        rbind (upd_proc s proc (\<lambda>c. c\<lparr>p_pid := pid, p_status := status,
            p_block := (if status \<noteq> PS_BLOCKED then BR_NOT_BLOCKED else BR_INIT), p_parent := parent,
            p_wait_proc := 0, p_wait_for := 0, p_exit_status := - 1, p_wakeup := 0, p_cmdline_mapped := False\<rparr>)) (\<lambda>s.
        rbind (kstrdup s cmdline) (\<lambda>(cmd, s).
        rbind (upd_proc s proc (\<lambda>c. c\<lparr>p_cmdline := cmd, p_ticks_left := PROC_START_TICKS, p_msg_waitbuf := 0,
            p_msgbuffer := rbuf_create mem SIZEOF_MSG PROC_MSG_BUFFER_SIZE False\<rparr>)) (\<lambda>s.
        let s = s\<lparr>p_tty := (p_tty s)(proc := if pproc \<noteq> NULL then p_tty s pproc else Some ''/dev/tty7'')\<rparr>
        in rbind (init_proc_fs D s proc pproc) (\<lambda>s.
           let s = s\<lparr>p_ldata := (p_ldata s)(proc := NULL), p_cleanup := (p_cleanup s)(proc := NULL)\<rparr>
           in rbind (upd_proc s proc (\<lambda>c. c\<lparr>p_mem_brk := 0, p_brk_page := 0, p_num_dyn := 0\<rparr>)) (\<lambda>s.
              rbind (vm_create_addrspace s) (\<lambda>(as, s).
              rbind (upd_proc s proc (\<lambda>c. c\<lparr>p_as := as\<rparr>)) (\<lambda>s.
              rbind (init_proc_stacks s proc entry mode) (\<lambda>s.
                if status = PS_READY then pm_activate s proc else Inr s)))))))))"

definition pm_create ::
    "'a kp_state_scheme drivers \<Rightarrow> (nat \<Rightarrow> u8) \<Rightarrow> 'a kp_state_scheme \<Rightarrow> u32 \<Rightarrow> string \<Rightarrow> proc_mode \<Rightarrow> u32 \<Rightarrow> proc_status
       \<Rightarrow> (ptr \<times> 'a kp_state_scheme) res" where
  "pm_create D mem s entry cmdline mode parent status =
     (let proc = get_empty_proc s
      in if proc = NULL then Inl Panic
         else rbind (init_proc D mem s proc entry cmdline mode parent status) (\<lambda>s. Inr (proc, s)))"

section \<open>pm.c: fork\<close>

definition pm_fork ::
    "'a kp_state_scheme drivers \<Rightarrow> (nat \<Rightarrow> u8) \<Rightarrow> 'a kp_state_scheme \<Rightarrow> ptr \<Rightarrow> u32 \<Rightarrow> (ptr \<times> 'a kp_state_scheme) res" where
  "pm_fork D mem s parent stackptr =
     (if parent = NULL then Inr (NULL, s)
      else let child = get_empty_proc s; pp = procs s parent
      in if child = NULL then Inr (NULL, s)
      else case newpid s of (pid, s) \<Rightarrow>
        rbind (upd_proc s child (\<lambda>c. c\<lparr>p_pid := pid, p_parent := p_pid pp, p_status := PS_READY, p_block := BR_NOT_BLOCKED,
            p_ticks_left := PROC_START_TICKS, p_wait_proc := 0, p_wait_for := 0, p_exit_status := - 1, p_wakeup := 0,
            p_cmdline_mapped := True\<rparr>)) (\<lambda>s.
        rbind (kread_string MAX_STRING s (p_cmdline pp)) (\<lambda>cmdline.
        rbind (kstrdup s cmdline) (\<lambda>(cmd, s).
        rbind (upd_proc s child (\<lambda>c. c\<lparr>p_cmdline := cmd, p_msg_waitbuf := 0,
            p_msgbuffer := rbuf_create mem SIZEOF_MSG PROC_MSG_BUFFER_SIZE False,
            p_mem_brk := p_mem_brk pp, p_brk_page := p_brk_page pp, p_num_dyn := p_num_dyn pp\<rparr>)) (\<lambda>s.
        let s = s\<lparr>p_tty := (p_tty s)(child := p_tty s parent), p_cleanup := (p_cleanup s)(child := NULL),
                  p_ldata := (p_ldata s)(child := NULL)\<rparr>
        in rbind (vm_clone_addrspace s (p_brk_page pp) (p_as pp)) (\<lambda>(as, s).
           rbind (upd_proc s child (\<lambda>c. c\<lparr>p_as := as\<rparr>)) (\<lambda>s.
           rbind (get_fs s parent) (\<lambda>pd.
           rbind (vfs_clone_procdata D s pd) (\<lambda>(d, s).
             let s = put_fs s child d
             in rbind (get_as s as) (\<lambda>a.
                case vm_resolve_virt s (as_pdir a) (USER_STACK_ADDR - PAGE_SIZE) of (ustack, s) \<Rightarrow>
                  rbind (upd_proc s child (\<lambda>c. c\<lparr>p_ustack_addr := ustack\<rparr>)) (\<lambda>s.
                  rbind (km_alloc_page s) (\<lambda>(kstack, s).
                  rbind (kmemcpy s kstack (p_kstack_addr pp) 4096) (\<lambda>s.
                    let sp = kstack + (stackptr - p_kstack_addr pp)
                    in rbind (upd_proc s child (\<lambda>c. c\<lparr>p_kstack_addr := kstack, p_esp := sp, p_kstack := sp,
                                                       p_sc_regs := sp\<rparr>)) (\<lambda>s.
                       Inr (child, s)))))))))))))))"

section \<open>pm.c: the end of a process\<close>

text \<open>\<open>C\<close> gives the cleanup functions by their address.\<close>

definition pm_destroy ::
    "(ptr \<Rightarrow> 'a kp_state_scheme \<Rightarrow> ptr \<Rightarrow> 'a kp_state_scheme res) \<Rightarrow> 'a kp_state_scheme \<Rightarrow> ptr \<Rightarrow> 'a kp_state_scheme res" where
  "pm_destroy C s proc =
     rbind (pm_deactivate s proc) (\<lambda>s.
     rbind (upd_proc s proc (\<lambda>c. c\<lparr>p_status := PS_SLOT_FREE\<rparr>)) (\<lambda>s.
     rbind (get_proc s proc) (\<lambda>c.
     rbind (if p_wait_proc c \<noteq> 0
            then let other = pm_get_proc s (p_wait_proc c)
                 in rbind (sc_late_result s other (p_exit_status c)) (\<lambda>s. pm_unblock s other)
            else Inr s) (\<lambda>s.
     rbind (if p_wait_for c \<noteq> 0
            then let other = pm_get_proc s (p_wait_for c)
                 in rbind (get_proc s other) (\<lambda>o'.
                      if p_wait_proc o' = p_pid c then upd_proc s other (\<lambda>o'. o'\<lparr>p_wait_proc := 0\<rparr>) else Inr s)
            else Inr s) (\<lambda>s.
     rbind (if p_cleanup s proc \<noteq> NULL then C (p_cleanup s proc) s proc else Inr s) (\<lambda>s.
     let s = kfree s (p_cmdline c); s = mm_free_page s (p_ustack_addr c)
     in vm_destroy_addrspace s (p_as c)))))))"

definition sys_exit ::
    "(ptr \<Rightarrow> 'a kp_state_scheme \<Rightarrow> ptr \<Rightarrow> 'a kp_state_scheme res) \<Rightarrow> 'a kp_state_scheme \<Rightarrow> u32 \<Rightarrow> (u32 \<times> 'a kp_state_scheme) res" where
  "sys_exit C s status =
     rbind (upd_proc s (cur_proc s) (\<lambda>c. c\<lparr>p_exit_status := status\<rparr>)) (\<lambda>s.
     rbind (pm_destroy C s (syscall_proc s)) (\<lambda>s.
     rbind (pm_schedule s) (\<lambda>s. Inr (0, s))))"

definition sys_fork ::
    "'a kp_state_scheme drivers \<Rightarrow> (nat \<Rightarrow> u8) \<Rightarrow> 'a kp_state_scheme \<Rightarrow> (u32 \<times> 'a kp_state_scheme) res" where
  "sys_fork D mem s =
     rbind (get_proc s (syscall_proc s)) (\<lambda>c.
     rbind (pm_fork D mem s (syscall_proc s) (p_esp c)) (\<lambda>(child, s).
       if child = NULL then Inr (- 1, s)
       else rbind (sc_late_result s child 0) (\<lambda>s.
            rbind (pm_activate s child) (\<lambda>s.
            rbind (get_proc s child) (\<lambda>ch. Inr (p_pid ch, s))))))"

text \<open>With the command line already mapped, the copy goes to the physical page at address 0.\<close>

definition sys_getcmdline :: "'a kp_state_scheme \<Rightarrow> (u32 \<times> 'a kp_state_scheme) res" where
  "sys_getcmdline s =
     rbind (get_proc s (syscall_proc s)) (\<lambda>c.
       if p_cmdline c = 0 then Inr (0, s)
       else rbind (if \<not> p_cmdline_mapped c
                   then case mm_alloc_page s of (page, s) \<Rightarrow>
                     if page = NO_PAGE then Inr (None, s)
                     else rbind (get_as s (p_as c)) (\<lambda>a.
                          rbind (vm_map_page s (as_pdir a) page INFO_SPACE_START USER_FLAGS) (\<lambda>s.
                          rbind (upd_proc s (syscall_proc s) (\<lambda>c. c\<lparr>p_cmdline_mapped := True\<rparr>)) (\<lambda>s.
                          Inr (Some page, s))))
                   else Inr (Some 0, s)) (\<lambda>(page, s).
         case page of
           None \<Rightarrow> Inr (0, s)
         | Some page \<Rightarrow>
             rbind (kread_string MAX_STRING s (p_cmdline c)) (\<lambda>str.
             rbind (vm_cpy_pv s page (p_cmdline c) (of_nat (length str) + 1)) (\<lambda>s. Inr (INFO_SPACE_START, s)))))"

section \<open>What the file system leaves alone\<close>

text \<open>The driver functions that the process manager and the loader reach keep a view of the state.\<close>

definition drivers_keep :: "('s \<Rightarrow> 'v) \<Rightarrow> 's drivers \<Rightarrow> bool" where
  "drivers_keep view D \<longleftrightarrow>
     (\<forall>t f s ino name p s'. iop_finddir (iops_of D t) = Some f \<longrightarrow> f s ino name = Inr (p, s') \<longrightarrow> view s' = view s)
   \<and> (\<forall>t f s ino file fl r s'. iop_open (iops_of D t) = Some f \<longrightarrow> f s ino file fl = Inr (r, s') \<longrightarrow> view s' = view s)
   \<and> (\<forall>t f s a b r s'. fop_dup (fops_of D t) = Some f \<longrightarrow> f s a b = Inr (r, s') \<longrightarrow> view s' = view s)
   \<and> (\<forall>t f s a buf n off r s'. fop_read (fops_of D t) = Some f \<longrightarrow> f s a buf n off = Inr (r, s') \<longrightarrow> view s' = view s)"

locale fs_frame = as_frame view for view :: "'a vfs_state_scheme \<Rightarrow> 'v" +
  assumes view_inodes [simp]: "view (s\<lparr>inodes := i\<rparr>) = view s"
    and view_files [simp]: "view (s\<lparr>files := f\<rparr>) = view s"
    and view_dirents [simp]: "view (s\<lparr>dirents := d\<rparr>) = view s"
    and view_next_obj [simp]: "view (s\<lparr>next_obj := n\<rparr>) = view s"
    and view_fs_error [simp]: "view (s\<lparr>fs_error := e\<rparr>) = view s"
    and view_proc_fs [simp]: "view (s\<lparr>proc_fs := p\<rparr>) = view s"
begin

lemma view_fs_simps [simp]:
  "view (vfs_seterror s e) = view s" "view (put_fs s p d) = view s" "view (free_file s q) = view s"
  by (simp_all add: vfs_seterror_def put_fs_def free_file_def)

lemma view_new:
  "new_file s = (p, s') \<Longrightarrow> view s' = view s" "new_dirent s n i = (p, s') \<Longrightarrow> view s' = view s"
  "vfs_create_procdata s = (d, s') \<Longrightarrow> view s' = view s"
  by (auto simp: new_file_def new_dirent_def vfs_create_procdata_def Let_def split: prod.splits)

lemma view_upd:
  "upd_inode s p fi = Inr s' \<Longrightarrow> view s' = view s" "upd_file s p ff = Inr s' \<Longrightarrow> view s' = view s"
  "ret_null_and_err s e = Inr (q, s') \<Longrightarrow> view s' = view s"
  by (auto simp: upd_inode_def upd_file_def ret_null_and_err_def elim!: resE)

lemma view_finddir: "drivers_keep view D \<Longrightarrow> vfs_finddir D s ino name = Inr (p, s') \<Longrightarrow> view s' = view s"
  unfolding vfs_finddir_def inode_op_def drivers_keep_def
  by (auto elim!: resE dest!: view_upd split: option.splits if_splits)

lemma view_enter: "lookup_enter s i ino c = (r, s') \<Longrightarrow> view s' = view s"
  by (auto simp: lookup_enter_def split: if_splits)

lemma view_lookup_loop:
  assumes D: "drivers_keep view D"
  shows "lookup_loop D s path i ino c = Inr (b, p, s') \<Longrightarrow> view s' = view s"
proof (induction "length path - i" arbitrary: s i ino c rule: less_induct)
  case less
  from less.prems show ?case
    unfolding lookup_loop.simps [of D s]
  proof (elim rbindE, goal_cases)
    case (1 r)
    then show ?case
      by (auto elim!: resE dest!: view_enter view_finddir [OF D] less.hyps [rotated] next_part_advances split: option.splits)
  qed
qed

lemma view_lookup:
  assumes D: "drivers_keep view D"
  shows "vfs_lookup D s path d = Inr (p, s') \<Longrightarrow> view s' = view s"
  unfolding vfs_lookup_def Let_def
  by (auto elim!: resE dest!: view_lookup_loop [OF D])

lemma view_change_dir:
  assumes D: "drivers_keep view D"
  shows "vfs_change_dir D s p dir = Inr (r, s') \<Longrightarrow> view s' = view s"
  unfolding vfs_change_dir_def Let_def
  by (auto elim!: resE dest!: view_lookup [OF D] split: option.splits)

lemma view_dup: "drivers_keep view D \<Longrightarrow> vfs_dup D s f = Inr (r, s') \<Longrightarrow> view s' = view s"
  unfolding vfs_dup_def def_dup_def drivers_keep_def
  by (auto elim!: resE dest!: view_new view_upd split: option.splits)

lemma view_dup_files:
  assumes D: "drivers_keep view D"
  shows "dup_files D s fs = Inr (gs, s') \<Longrightarrow> view s' = view s"
  by (induction fs arbitrary: s gs) (auto elim!: resE dest!: view_dup [OF D])

lemma view_clone_procdata:
  assumes D: "drivers_keep view D"
  shows "vfs_clone_procdata D s d = Inr (c, s') \<Longrightarrow> view s' = view s"
  unfolding vfs_clone_procdata_def
  by (auto elim!: resE dest!: view_new view_dup_files [OF D])

lemma view_open: "drivers_keep view D \<Longrightarrow> vfs_open D s ino fl = Inr (f, s') \<Longrightarrow> view s' = view s"
  unfolding vfs_open_def inode_op_def drivers_keep_def
  by (auto elim!: resE dest!: view_new view_upd split: option.splits if_splits)

lemma view_read: "drivers_keep view D \<Longrightarrow> vfs_read D s f b n off = Inr (r, s') \<Longrightarrow> view s' = view s"
  unfolding vfs_read_def file_op_def drivers_keep_def
  by (auto elim!: resE dest!: view_upd split: option.splits if_splits)

end

end
