(* ===== verification/Kos_Loader.thy ===== *)
theory Kos_Loader
  imports Kos_Proc
begin

text \<open>
  The program loader \<^verbatim>\<open>kernel/loader.c\<close>: ELF images, their segments, and the system call that starts a
  program from a file.
\<close>

section \<open>loader.c: ELF images\<close>

text \<open>
  The image is in kernel memory at \<open>mem\<close>; the offsets are those of \<^verbatim>\<open>Elf32_Ehdr\<close> and \<^verbatim>\<open>Elf32_Phdr\<close> of \<^verbatim>\<open>elf.h\<close>.
\<close>

datatype exec_type = ET_UNKNOWN | ET_ELF32_EXEC

definition kread_u16 :: "'a um_state_scheme \<Rightarrow> u32 \<Rightarrow> u32 res" where
  "kread_u16 s v = rbind (kread s v) (\<lambda>a. rbind (kread s (v + 1)) (\<lambda>b. Inr (ucast a + 256 * ucast b)))"

record elf32_phdr =
  ph_type :: u32
  ph_offset :: u32
  ph_vaddr :: u32
  ph_filesz :: u32
  ph_memsz :: u32

definition read_phdr :: "'a um_state_scheme \<Rightarrow> u32 \<Rightarrow> elf32_phdr res" where
  "read_phdr s p =
     rbind (kread_u32 s p) (\<lambda>t. rbind (kread_u32 s (p + 4)) (\<lambda>off. rbind (kread_u32 s (p + 8)) (\<lambda>v.
     rbind (kread_u32 s (p + 16)) (\<lambda>fsz. rbind (kread_u32 s (p + 20)) (\<lambda>msz.
       Inr \<lparr>ph_type = t, ph_offset = off, ph_vaddr = v, ph_filesz = fsz, ph_memsz = msz\<rparr>)))))"

definition elf32_check :: "'a um_state_scheme \<Rightarrow> u32 \<Rightarrow> bool res" where
  "elf32_check s mem =
     rbind (kread s mem) (\<lambda>a. if a \<noteq> 0x7F then Inr False
     else rbind (kread s (mem + 1)) (\<lambda>b. if b \<noteq> of_char CHR ''E'' then Inr False
     else rbind (kread s (mem + 2)) (\<lambda>c. if c \<noteq> of_char CHR ''L'' then Inr False
     else rbind (kread s (mem + 3)) (\<lambda>d. Inr (d = of_char CHR ''F'')))))"

definition elf32_check_type :: "'a um_state_scheme \<Rightarrow> u32 \<Rightarrow> u32 \<Rightarrow> bool res" where
  "elf32_check_type s mem type = rbind (kread_u16 s (mem + 16)) (\<lambda>t. Inr (t = type))"

abbreviation (input) ET_EXEC :: u32 where "ET_EXEC \<equiv> 2"
abbreviation (input) PT_LOAD :: u32 where "PT_LOAD \<equiv> 1"
abbreviation (input) CONF_PROG_BASE_MIN :: u32 where "CONF_PROG_BASE_MIN \<equiv> 0x40000000"

definition get_exec_type :: "'a um_state_scheme \<Rightarrow> u32 \<Rightarrow> exec_type res" where
  "get_exec_type s mem =
     rbind (elf32_check s mem) (\<lambda>ok.
       if ok then rbind (elf32_check_type s mem ET_EXEC) (\<lambda>ex. Inr (if ex then ET_ELF32_EXEC else ET_UNKNOWN))
       else Inr ET_UNKNOWN)"

definition elf32_has_entry :: "elf32_phdr \<Rightarrow> u32 \<Rightarrow> bool" where
  "elf32_has_entry ph entry \<longleftrightarrow> entry \<ge> ph_vaddr ph \<and> entry < ph_vaddr ph + ph_memsz ph"

text \<open>\<^verbatim>\<open>pages\<close> is a signed number, so a count with the top bit set runs no round.\<close>

fun elf32_alloc_mem :: "'a vm_state_scheme \<Rightarrow> u32 \<Rightarrow> u32 \<Rightarrow> nat list \<Rightarrow> (bool \<times> 'a vm_state_scheme) res" where
  "elf32_alloc_mem s pdir base [] = Inr (True, s)"
| "elf32_alloc_mem s pdir base (i # is) =
     (case mm_alloc_page s of (page, s) \<Rightarrow>
        if page = NO_PAGE then Inr (False, s)
        else rbind (vm_map_page s pdir page (base + of_nat i * PAGE_SIZE) VM_USER_FLAGS) (\<lambda>s.
               elf32_alloc_mem s pdir base is))"

fun elf32_free_mem :: "'a vm_state_scheme \<Rightarrow> u32 \<Rightarrow> u32 \<Rightarrow> nat list \<Rightarrow> 'a vm_state_scheme" where
  "elf32_free_mem s pdir base [] = s"
| "elf32_free_mem s pdir base (i # is) =
     (case vm_resolve_virt s pdir (base + of_nat i * PAGE_SIZE) of (page, s) \<Rightarrow>
        elf32_free_mem (mm_free_page s page) pdir base is)"

definition rounds :: "u32 \<Rightarrow> nat list" where
  "rounds pages = [0..<nat (sint pages)]"

definition elf32_first_page_bytes :: "elf32_phdr \<Rightarrow> u32" where
  "elf32_first_page_bytes ph =
     (if ph_filesz ph > PAGE_SIZE - ph_vaddr ph mod PAGE_SIZE then PAGE_SIZE - ph_vaddr ph mod PAGE_SIZE
      else ph_filesz ph)"

definition elf32_getbrk :: "elf32_phdr \<Rightarrow> u32 \<times> u32" where
  "elf32_getbrk ph =
     (ph_vaddr ph + ph_memsz ph, PAGE_ALIGN_ROUND_DOWN (ph_vaddr ph) + NUM_PAGES (ph_memsz ph) * PAGE_SIZE)"

fun free_segments :: "'a kp_state_scheme \<Rightarrow> u32 \<Rightarrow> ptr list \<Rightarrow> 'a kp_state_scheme res" where
  "free_segments s pdir [] = Inr s"
| "free_segments s pdir (e # es) =
     rbind (get_entry (lists s) e) (\<lambda>x.
     rbind (deref (segments s) (le_data x)) (\<lambda>d.
       free_segments (elf32_free_mem s pdir (ld_base d) (rounds (ld_pages d))) pdir es))"

definition elf32_cleanup :: "'a kp_state_scheme \<Rightarrow> ptr \<Rightarrow> 'a kp_state_scheme res" where
  "elf32_cleanup s proc =
     (if p_ldata s proc = NULL then Inr s
      else rbind (get_proc s proc) (\<lambda>c.
           rbind (get_as s (p_as c)) (\<lambda>a.
           rbind (list_iterate (lists s) (p_ldata s proc)) (\<lambda>es.
           rbind (free_segments s (as_pdir a) es) (\<lambda>s.
           rbind (list_destroy (lists s) (p_ldata s proc)) (\<lambda>h. Inr (s\<lparr>lists := h\<rparr>)))))))"

section \<open>loader.c: loading\<close>

text \<open>The loops of \<^verbatim>\<open>elf32_map_segment\<close> over the pages after the first and over those without file data.\<close>

fun elf32_copy_pages :: "'a um_state_scheme \<Rightarrow> u32 \<Rightarrow> u32 \<Rightarrow> u32 \<Rightarrow> nat list \<Rightarrow> 'a um_state_scheme res" where
  "elf32_copy_pages s pdir base src [] = Inr s"
| "elf32_copy_pages s pdir base src (i # is) =
     (case vm_resolve_virt s pdir (base + of_nat i * PAGE_SIZE) of (pdst, s) \<Rightarrow>
        rbind (vm_cpy_pv s pdst src PAGE_SIZE) (\<lambda>s. elf32_copy_pages s pdir base (src + PAGE_SIZE) is))"

fun elf32_zero_pages :: "'a um_state_scheme \<Rightarrow> u32 \<Rightarrow> u32 \<Rightarrow> nat list \<Rightarrow> 'a um_state_scheme res" where
  "elf32_zero_pages s pdir base [] = Inr s"
| "elf32_zero_pages s pdir base (i # is) =
     (case vm_resolve_virt s pdir (base + of_nat i * PAGE_SIZE) of (pdst, s) \<Rightarrow>
        rbind (vm_set_p s pdst 0 PAGE_SIZE) (\<lambda>s. elf32_zero_pages s pdir base is))"

text \<open>
  The number of bytes \<^verbatim>\<open>elf32_map_segment\<close> clears behind the file data: between 1 and a page, also when the
  data ends at the end of a page.
\<close>

definition last_page_padding :: "elf32_phdr \<Rightarrow> u32" where
  "last_page_padding ph = PAGE_SIZE - (ph_offset ph + ph_filesz ph) mod PAGE_SIZE"

definition elf32_fill_segment ::
    "'a um_state_scheme \<Rightarrow> u32 \<Rightarrow> elf32_phdr \<Rightarrow> u32 \<Rightarrow> 'a um_state_scheme res" where
  "elf32_fill_segment s pdir ph mem =
     (let base = PAGE_ALIGN_ROUND_DOWN (ph_vaddr ph);
          memsz_pages = NUM_PAGES (ph_memsz ph);
          first_page_bytes = elf32_first_page_bytes ph;
          src = mem + ph_offset ph;
          filesz_pages = NUM_PAGES (ph_filesz ph)
      in case vm_resolve_virt s pdir (ph_vaddr ph) of (pdst, s) \<Rightarrow>
        rbind (vm_cpy_pv s pdst src first_page_bytes) (\<lambda>s.
        rbind (elf32_copy_pages s pdir base (src + first_page_bytes) [1..<unat filesz_pages]) (\<lambda>s.
        let padding = last_page_padding ph
        in rbind (if padding \<noteq> 0
                  then case vm_resolve_virt s pdir (base + (filesz_pages - 1) * PAGE_SIZE + (PAGE_SIZE - padding)) of
                    (pdst, s) \<Rightarrow> vm_set_p s pdst 0 padding
                  else Inr s) (\<lambda>s.
           elf32_zero_pages s pdir base [unat filesz_pages..<unat memsz_pages]))))"

definition elf32_map_segment ::
    "'a kp_state_scheme \<Rightarrow> u32 \<Rightarrow> elf32_phdr \<Rightarrow> u32 \<Rightarrow> ptr \<Rightarrow> (bool \<times> 'a kp_state_scheme) res" where
  "elf32_map_segment s pdir ph mem linfo =
     (if ph_memsz ph = 0 then Inr (True, s)
      else let base = PAGE_ALIGN_ROUND_DOWN (ph_vaddr ph); memsz_pages = NUM_PAGES (ph_memsz ph)
      in if base < CONF_PROG_BASE_MIN then Inr (False, s)
      else rbind (elf32_alloc_mem s pdir base (rounds memsz_pages)) (\<lambda>(ok, s).
        if \<not> ok then Inr (False, s)
        else rbind (kmalloc s 8) (\<lambda>(ldata, s).
             let s = s\<lparr>segments := (segments s)(unat ldata \<mapsto> \<lparr>ld_base = base, ld_pages = memsz_pages\<rparr>)\<rparr>
             in rbind (list_add_front (lists s) linfo (unat ldata)) (\<lambda>h.
                rbind (elf32_fill_segment (s\<lparr>lists := h\<rparr>) pdir ph mem) (\<lambda>s. Inr (True, s))))))"

text \<open>The only cleanup function is \<^verbatim>\<open>elf32_cleanup\<close>, whose address is \<open>1\<close>.\<close>

abbreviation (input) ELF32_CLEANUP :: ptr where "ELF32_CLEANUP \<equiv> 1"

definition cleanup_of :: "ptr \<Rightarrow> 'a kp_state_scheme \<Rightarrow> ptr \<Rightarrow> 'a kp_state_scheme res" where
  "cleanup_of f s proc = (if f = ELF32_CLEANUP then elf32_cleanup s proc else Inl Bad_access)"

text \<open>
  The loop of \<^verbatim>\<open>elf32_exec\<close> over the program headers; it reads \<^verbatim>\<open>e_phnum\<close>, a 16 bit number, anew in each
  round, so that \<open>65536\<close> rounds are enough. The result is false when a segment could not be mapped.
\<close>

fun elf32_load_segments ::
    "nat \<Rightarrow> 'a kp_state_scheme \<Rightarrow> ptr \<Rightarrow> u32 \<Rightarrow> u32 \<Rightarrow> nat \<Rightarrow> (bool \<times> 'a kp_state_scheme) res" where
  "elf32_load_segments n s proc mem phdr i =
     rbind (kread_u16 s (mem + 44)) (\<lambda>phnum.
       if i < unat phnum
       then (case n of
           0 \<Rightarrow> Inl Diverges
         | Suc n \<Rightarrow>
             rbind (read_phdr s phdr) (\<lambda>ph.
               if ph_type ph = PT_LOAD
               then rbind (get_proc s proc) (\<lambda>c.
                    rbind (get_as s (p_as c)) (\<lambda>a.
                    rbind (elf32_map_segment s (as_pdir a) ph mem (p_ldata s proc)) (\<lambda>(ok, s).
                      if \<not> ok then Inr (False, s)
                      else case elf32_getbrk ph of (brk, page) \<Rightarrow>
                        rbind (upd_proc s proc (\<lambda>c. c\<lparr>p_mem_brk := brk, p_brk_page := page\<rparr>)) (\<lambda>s.
                          elf32_load_segments n s proc mem (phdr + 32) (i + 1)))))
               else elf32_load_segments n s proc mem (phdr + 32) (i + 1)))
       else Inr (True, s))"

declare elf32_load_segments.simps [simp del]

definition elf32_exec ::
    "'a kp_state_scheme drivers \<Rightarrow> (nat \<Rightarrow> u8) \<Rightarrow> 'a kp_state_scheme \<Rightarrow> u32 \<Rightarrow> string \<Rightarrow> u32
       \<Rightarrow> (u32 \<times> 'a kp_state_scheme) res" where
  "elf32_exec D heap s mem args parent =
     rbind (kread_u32 s (mem + 28)) (\<lambda>phoff.
     rbind (kread_u32 s (mem + 24)) (\<lambda>entry.
     rbind (pm_create D heap s entry args PM_USER parent PS_BLOCKED) (\<lambda>(proc, s).
       if proc = NULL then Inr (0, s)
       else case list_create (lists s) of (l, h) \<Rightarrow>
         let s = s\<lparr>p_cleanup := (p_cleanup s)(proc := ELF32_CLEANUP), lists := h, p_ldata := (p_ldata s)(proc := l)\<rparr>
         in rbind (elf32_load_segments 65536 s proc mem (mem + phoff) 0) (\<lambda>(ok, s).
              if \<not> ok then rbind (pm_destroy cleanup_of s proc) (\<lambda>s. Inr (0, s))
              else rbind (pm_unblock s proc) (\<lambda>s.
                   rbind (get_proc s proc) (\<lambda>c. Inr (p_pid c, s)))))))"

definition exec_mem ::
    "'a kp_state_scheme drivers \<Rightarrow> (nat \<Rightarrow> u8) \<Rightarrow> 'a kp_state_scheme \<Rightarrow> u32 \<Rightarrow> string \<Rightarrow> u32
       \<Rightarrow> (u32 \<times> 'a kp_state_scheme) res" where
  "exec_mem D heap s mem args parent =
     rbind (get_exec_type s mem) (\<lambda>t.
       case t of ET_ELF32_EXEC \<Rightarrow> elf32_exec D heap s mem args parent | ET_UNKNOWN \<Rightarrow> Inr (0, s))"

text \<open>The length and the address of the buffer, 0 for a file that cannot be read; the file stays open.\<close>

definition load_file_to_mem ::
    "'a kp_state_scheme drivers \<Rightarrow> 'a kp_state_scheme \<Rightarrow> string \<Rightarrow> (u32 \<times> u32 \<times> 'a kp_state_scheme) res" where
  "load_file_to_mem D s filename =
     rbind (proc_cwd s (cur_proc s)) (\<lambda>cwd.
     rbind (vfs_lookup D s filename cwd) (\<lambda>(ino, s).
       if ino = NULL then Inr (0, 0, s)
       else rbind (deref (inodes s) ino) (\<lambda>i.
            rbind (vfs_open D s ino FSO_READ) (\<lambda>(file, s).
              if file = NULL then Inr (0, 0, s)
              else rbind (kmalloc s (i_length i)) (\<lambda>(buffer, s).
                   rbind (vfs_read D s file buffer (i_length i) 0) (\<lambda>(n, s).
                     if n \<le> 0 then Inr (0, 0, kfree s buffer) else Inr (i_length i, buffer, s)))))))"

definition exec_file ::
    "'a kp_state_scheme drivers \<Rightarrow> (nat \<Rightarrow> u8) \<Rightarrow> 'a kp_state_scheme \<Rightarrow> string \<Rightarrow> string \<Rightarrow> u32
       \<Rightarrow> (u32 \<times> 'a kp_state_scheme) res" where
  "exec_file D heap s filename args parent =
     rbind (load_file_to_mem D s filename) (\<lambda>(size, mem, s).
       if size = 0 then Inr (0, s)
       else rbind (exec_mem D heap s mem args parent) (\<lambda>(pid, s). Inr (pid, kfree s mem)))"

definition sys_execute ::
    "'a kp_state_scheme drivers \<Rightarrow> (nat \<Rightarrow> u8) \<Rightarrow> 'a kp_state_scheme \<Rightarrow> u32 \<Rightarrow> u32 \<Rightarrow> (u32 \<times> 'a kp_state_scheme) res" where
  "sys_execute D heap s path cmd =
     rbind (map_string s path) (\<lambda>(file, flen, filename, s).
     rbind (map_string s cmd) (\<lambda>(cmdline, clen, args, s).
     rbind (get_proc s (syscall_proc s)) (\<lambda>me.
     rbind (exec_file D heap s filename args (p_pid me)) (\<lambda>(pid, s).
     rbind (km_free_addr s file flen) (\<lambda>s.
     rbind (km_free_addr s cmdline clen) (\<lambda>s. Inr (pid, s)))))))"

end
