(* ===== verification/Kos_Table.thy ===== *)
theory Kos_Table
  imports Kos_Loader
begin

text \<open>
  The process table of \<^verbatim>\<open>kernel/pm.c\<close> as a whole: an invariant on slots, identifiers and run queue links that
  creation, fork, exit, destruction, waiting and scheduling keep in any order, so that a process is always
  found by its identifier, and the two ways in which the end of a process goes wrong.
\<close>

section \<open>The process table\<close>

text \<open>The part of the state that belongs to the process manager itself.\<close>

definition pm_view :: "'a pm_state_scheme \<Rightarrow> (ptr \<Rightarrow> proc) \<times> ptr \<times> ptr \<times> ptr \<times> u32 \<times> ptr" where
  "pm_view s = (procs s, plist_head s, plist_tail s, cur_proc s, next_pid s, syscall_proc s)"

interpretation pmv: fs_frame "pm_view :: 'a vfs_state_scheme \<Rightarrow> _"
  by unfold_locales (simp_all add: pm_view_def)

lemma pm_viewD:
  assumes "pm_view s' = pm_view s"
  shows "procs s' = procs s" "plist_head s' = plist_head s" "plist_tail s' = plist_tail s"
    "cur_proc s' = cur_proc s" "next_pid s' = next_pid s" "syscall_proc s' = syscall_proc s"
  using assms by (simp_all add: pm_view_def)

text \<open>The ramdisk and the device file system keep it.\<close>

lemma view_dirs:
  "id_finddir s ino n = Inr (p, s') \<Longrightarrow> pm_view s' = pm_view s" "dev_finddir s ino n = Inr (p, s') \<Longrightarrow> pm_view s' = pm_view s"
  unfolding id_finddir_def dev_finddir_def by (auto elim!: resE dest!: pmv.view_upd)

lemma view_id_file:
  "id_open s ino f fl = Inr (r, s') \<Longrightarrow> pm_view s' = pm_view s" "id_read s f b n o' = Inr (r, s') \<Longrightarrow> pm_view s' = pm_view s"
  unfolding id_open_def id_read_def do_read_def Let_def by (auto elim!: resE dest!: pmv.view_upd pmv.view_frame)

lemma kernel_drivers_keep: "drivers_keep pm_view D \<Longrightarrow> drivers_keep pm_view (kernel_drivers D)"
  unfolding drivers_keep_def kernel_drivers_def initrd_iops_def devfs_iops_def initrd_fops_def
  by (auto dest: view_dirs view_id_file)

text \<open>
  Slots \<open>1\<close> to \<open>k\<close> have been used before: their process identifiers differ and were handed out by \<^verbatim>\<open>newpid\<close>.
  The other slots are as the system started with them, and the links of the run queue do not reach them.
\<close>

definition proc_table :: "'a pm_state_scheme \<Rightarrow> nat \<Rightarrow> bool" where
  "proc_table s k \<longleftrightarrow>
     k \<le> MAX_PROCS \<and> distinct (map (\<lambda>p. p_pid (procs s p)) [1..<k + 1])
     \<and> list_all (\<lambda>p. p_pid (procs s p) < next_pid s \<and> p_next (procs s p) \<le> k) [1..<k + 1]
     \<and> list_all (\<lambda>p. p_status (procs s p) = PS_SLOT_FREE \<and> p_next (procs s p) = NULL \<and> p_wakeup (procs s p) = 0)
          [k + 1..<MAX_PROCS + 1]
     \<and> plist_head s \<le> k \<and> plist_tail s \<le> k \<and> (cur_proc s \<le> k \<or> cur_proc s = idle_proc)"

definition live :: "'a pm_state_scheme \<Rightarrow> ptr \<Rightarrow> bool" where
  "live s p \<longleftrightarrow> 1 \<le> p \<and> p \<le> MAX_PROCS \<and> p_status (procs s p) \<noteq> PS_SLOT_FREE"

lemma proc_table_iff:
  "proc_table s k \<longleftrightarrow>
     k \<le> 256 \<and> inj_on (\<lambda>p. p_pid (procs s p)) {1..k}
     \<and> (\<forall>p. 1 \<le> p \<longrightarrow> p \<le> k \<longrightarrow> p_pid (procs s p) < next_pid s \<and> p_next (procs s p) \<le> k)
     \<and> (\<forall>p. k < p \<longrightarrow> p \<le> 256 \<longrightarrow> p_status (procs s p) = PS_SLOT_FREE \<and> p_next (procs s p) = NULL \<and> p_wakeup (procs s p) = 0)
     \<and> plist_head s \<le> k \<and> plist_tail s \<le> k \<and> (cur_proc s \<le> k \<or> cur_proc s = idle_proc)"
  unfolding proc_table_def list_all_iff distinct_map by (auto simp: atLeastLessThanSuc_atLeastAtMost simp del: upt_Suc)

lemma proc_table_view: "pm_view s' = pm_view s \<Longrightarrow> proc_table s' k = proc_table s k"
  using pm_viewD [of s' s] by (simp add: proc_table_def del: upt_Suc)

lemma find_distinct:
  "distinct (map f xs) \<Longrightarrow> x \<in> set xs \<Longrightarrow> List.find (\<lambda>y. f y = f x) (xs @ ys) = Some x"
  by (induction xs) auto

lemma proc_table_finds:
  assumes t: "proc_table s k" and p: "1 \<le> p" "p \<le> k"
  shows "pm_get_proc s (p_pid (procs s p)) = p"
proof -
  from t have k: "k \<le> 256" by (simp add: proc_table_def)
  then have "[1..<256 + 1] = [1..<k + 1] @ [k + 1..<257]"
    using upt_add_eq_append [of 1 "k + 1" "256 - k"] by simp
  with find_distinct [of "\<lambda>p. p_pid (procs s p)" "[1..<k + 1]" p "[k + 1..<257]"] t p show ?thesis
    by (simp add: pm_get_proc_def proc_table_def del: upt_Suc)
qed

lemma live_used: "proc_table s k \<Longrightarrow> live s p \<Longrightarrow> 1 \<le> p \<and> p \<le> k"
  by (rule ccontr) (auto simp: proc_table_iff live_def)

text \<open>Updates of a used slot that keep its identifier.\<close>

lemma proc_table_put:
  assumes t: "proc_table s k" and p: "p \<noteq> NULL" "p \<le> k \<or> p = idle_proc"
    and f: "p_pid c = p_pid (procs s p)" "p \<le> k \<Longrightarrow> p_next c \<le> k"
  shows "proc_table (s\<lparr>procs := (procs s)(p := c)\<rparr>) k"
proof -
  have "inj_on (\<lambda>q. p_pid (if q = p then c else procs s q)) {1..k} = inj_on (\<lambda>q. p_pid (procs s q)) {1..k}"
    using f(1) by (intro inj_on_cong) simp
  then show ?thesis using assms by (auto simp: proc_table_iff)
qed

lemma proc_table_upd:
  assumes "upd_proc s p f = Inr s'" and "proc_table s k" and "p \<le> k \<or> p = idle_proc"
    and "p_pid (f (procs s p)) = p_pid (procs s p)" and "p \<le> k \<Longrightarrow> p_next (procs s p) \<le> k \<Longrightarrow> p_next (f (procs s p)) \<le> k"
  shows "proc_table s' k"
proof -
  from assms(1) have "p \<noteq> NULL" "s' = s\<lparr>procs := (procs s)(p := f (procs s p))\<rparr>"
    by (auto simp: upd_proc_def split: if_splits)
  moreover from assms(2) have "p_next (procs s p) \<le> k" if "p \<le> k" "p \<noteq> NULL" using that by (simp add: proc_table_iff)
  ultimately show ?thesis using assms proc_table_put [OF assms(2), of p "f (procs s p)"] by auto
qed

lemma proc_table_links:
  assumes "proc_table s k"
  shows "plist_head s \<le> k" "plist_tail s \<le> k" "p \<le> k \<Longrightarrow> p \<noteq> NULL \<Longrightarrow> p_next (procs s p) \<le> k"
    "cur_proc s \<le> k \<or> cur_proc s = idle_proc"
    "h \<le> k \<Longrightarrow> proc_table (s\<lparr>plist_head := h\<rparr>) k" "h \<le> k \<Longrightarrow> proc_table (s\<lparr>plist_tail := h\<rparr>) k"
    "h \<le> k \<or> h = idle_proc \<Longrightarrow> proc_table (s\<lparr>cur_proc := h\<rparr>) k"
  using assms by (auto simp: proc_table_iff)

lemma proc_table_activate:
  assumes t: "proc_table s k" and p: "p \<le> k" and r: "pm_activate s p = Inr s'"
  shows "proc_table s' k"
proof -
  have t1: "proc_table (if plist_head s = NULL then s\<lparr>plist_head := p\<rparr> else s) k"
    using t p by (simp add: proc_table_links)
  from r show ?thesis unfolding pm_activate_def Let_def
    using t1 p
    by (auto elim!: resE dest!: proc_table_upd [where k = k] intro: proc_table_links)
qed

lemma proc_table_schedule:
  assumes t: "proc_table s k" and r: "pm_schedule s = Inr s'"
  shows "proc_table s' k"
proof -
  from r obtain s1 s2 s3 where 1: "upd_proc s (cur_proc s) preempted = Inr s1"
    and 2: "upd_proc s1 (plist_tail s1) (p_next_update (\<lambda>_. plist_head s1)) = Inr s2"
    and h: "plist_head s2 \<noteq> NULL"
    and 3: "upd_proc (s2\<lparr>plist_tail := plist_head s2, plist_head := p_next (procs s2 (plist_head s2))\<rparr>)
        (plist_head s2) (p_next_update (\<lambda>_. NULL)) = Inr s3"
    and s': "s' = s3\<lparr>cur_proc := idle_proc\<rparr>
      \<or> plist_head s3 \<noteq> NULL \<and> upd_proc (s3\<lparr>cur_proc := plist_head s3\<rparr>) (plist_head s3) (p_status_update (\<lambda>_. PS_RUNNING)) = Inr s'"
    by (auto simp: pm_schedule_def preempted_def [abs_def] get_proc_def Let_def elim!: resE split: if_splits)
  have t1: "proc_table s1 k" using proc_table_links(4) [OF t] by (rule proc_table_upd [OF 1 t]) (simp_all add: preempted_def Let_def)
  have t2: "proc_table s2 k" using proc_table_links [OF t1] by (intro proc_table_upd [OF 2 t1]) simp_all
  have "proc_table (s2\<lparr>plist_tail := plist_head s2, plist_head := p_next (procs s2 (plist_head s2))\<rparr>) k"
    using t2 proc_table_links(1,3) [OF t2] h by (auto intro!: proc_table_links)
  then have t3: "proc_table s3 k" using proc_table_links [OF t2] by (intro proc_table_upd [OF 3]) simp_all
  from s' show ?thesis
  proof
    assume "s' = s3\<lparr>cur_proc := idle_proc\<rparr>" then show ?thesis using t3 by (simp add: proc_table_links)
  next
    assume "plist_head s3 \<noteq> NULL \<and> upd_proc (s3\<lparr>cur_proc := plist_head s3\<rparr>) (plist_head s3) (p_status_update (\<lambda>_. PS_RUNNING)) = Inr s'"
    then show ?thesis using proc_table_links [OF t3] by (auto intro!: proc_table_upd [where s' = s'] elim: proc_table_links(7))
  qed
qed

lemma find_prev_used:
  assumes t: "proc_table s k"
  shows "find_prev n s p prev cur = Inr (a, b) \<Longrightarrow> prev \<le> k \<Longrightarrow> cur \<le> k \<Longrightarrow> a \<le> k \<and> b \<le> k"
proof (induction n arbitrary: prev cur)
  case 0
  then show ?case by (auto simp: find_prev.simps split: if_splits)
next
  case (Suc n)
  then show ?case using proc_table_links(3) [OF t, of cur]
    by (subst (asm) (2) find_prev.simps) (auto split: if_splits)
qed

lemma proc_table_deactivate:
  assumes t: "proc_table s k" and r: "pm_deactivate s p = Inr s'"
  shows "proc_table s' k"
proof -
  from r obtain prev cur s1 where f: "find_prev 1024 s p NULL (plist_head s) = Inr (prev, cur)" and c: "cur \<noteq> NULL"
    and s1: "s1 = s\<lparr>plist_head := p_next (procs s cur)\<rparr> \<or> upd_proc s prev (p_next_update (\<lambda>_. p_next (procs s cur))) = Inr s1"
    and s': "s' = s1 \<or> pm_schedule s1 = Inr s'"
    by (auto simp: pm_deactivate_def get_proc_def elim!: resE split: if_splits)
  from find_prev_used [OF t f] proc_table_links(1) [OF t] have k: "prev \<le> k" "cur \<le> k" by simp_all
  with proc_table_links(3) [OF t, of cur] c have n: "p_next (procs s cur) \<le> k" by simp
  from s1 have "proc_table s1 k" using t k n proc_table_links(5) [OF t n] by (auto intro: proc_table_upd)
  with s' show ?thesis using proc_table_schedule by auto
qed

section \<open>Creation keeps the table\<close>

lemma u32_less_inc: "x \<noteq> - 1 \<Longrightarrow> (x :: u32) < x + 1"
proof -
  assume "x \<noteq> - 1"
  then have "unat x \<noteq> unat (- 1 :: u32)" by (metis u32_eq_iff_unat)
  then have "unat x \<noteq> 4294967295" by (simp add: unsigned_minus_1_eq_mask mask_eq_exp_minus_1)
  with unat_u32_lt [of x] have "unat x + 1 < 4294967296" by linarith
  then show ?thesis by (simp add: word_less_nat_alt unat_add_u32)
qed

text \<open>A new process takes a free slot and the next identifier.\<close>

lemma get_empty_proc_cases:
  assumes "get_empty_proc s = p" "p \<noteq> NULL"
  shows "1 \<le> p \<and> p \<le> 256 \<and> p_status (procs s p) = PS_SLOT_FREE \<and> (\<forall>q. 1 \<le> q \<longrightarrow> q < p \<longrightarrow> p_status (procs s q) \<noteq> PS_SLOT_FREE)"
proof -
  from assms have "List.find (\<lambda>p. p_status (procs s p) = PS_SLOT_FREE) [1..<257] = Some p"
    by (simp add: get_empty_proc_def split: option.splits)
  then obtain i where i: "i < 256" "p = 1 + i" "p_status (procs s p) = PS_SLOT_FREE"
    "\<forall>j<i. p_status (procs s (1 + j)) \<noteq> PS_SLOT_FREE"
    by (auto simp: find_Some_iff)
  moreover have "p_status (procs s q) \<noteq> PS_SLOT_FREE" if "1 \<le> q" "q < p" for q
    using i(4) [rule_format, of "q - 1"] that i(2) by simp
  ultimately show ?thesis by auto
qed

lemma proc_table_new:
  assumes t: "proc_table s k" and p: "get_empty_proc s = p" "p \<noteq> NULL" and n: "next_pid s \<noteq> - 1"
    and c: "p_pid c = next_pid s" "p_next c = p_next (procs s p)"
    and k: "k' = (if p \<le> k then k else k + 1)"
  shows "proc_table (s\<lparr>next_pid := next_pid s + 1, procs := (procs s)(p := c)\<rparr>) k' \<and> 1 \<le> p \<and> p \<le> k'"
proof -
  note e = get_empty_proc_cases [OF p]
  have p1: "p = k + 1" if "\<not> p \<le> k"
  proof (rule ccontr)
    assume "p \<noteq> k + 1"
    with that have "k + 1 < p" by simp
    with e have "p_status (procs s (k + 1)) \<noteq> PS_SLOT_FREE" "k + 1 \<le> 256" by auto
    with t show False by (simp add: proc_table_iff)
  qed
  note inc = u32_less_inc [OF n]
  have lt: "x < next_pid s + 1" if "x < next_pid s" for x using that inc by simp
  have "inj_on (\<lambda>q. p_pid (if q = p then c else procs s q)) {1..k'}"
  proof (rule inj_onI)
    fix x y assume xy: "x \<in> {1..k'}" "y \<in> {1..k'}" "p_pid (if x = p then c else procs s x) = p_pid (if y = p then c else procs s y)"
    from t have lt: "p_pid (procs s q) < next_pid s" if "q \<in> {1..k'}" "q \<noteq> p" for q
      using that p1 k by (auto simp: proc_table_iff split: if_splits)
    from t have inj: "inj_on (\<lambda>q. p_pid (procs s q)) {1..k}" by (simp add: proc_table_iff)
    from xy k p1 lt [of x] lt [of y] c(1) show "x = y"
      by (auto split: if_splits dest: inj_onD [OF inj])
  qed
  then show ?thesis using t e p1 k c lt inc by (auto simp: proc_table_iff)
qed

text \<open>What the table depends on.\<close>

definition pt_view :: "'a pm_state_scheme \<Rightarrow> (ptr \<Rightarrow> u32 \<times> ptr \<times> proc_status \<times> u32) \<times> ptr \<times> ptr \<times> ptr \<times> u32" where
  "pt_view s = (\<lambda>p. (p_pid (procs s p), p_next (procs s p), p_status (procs s p), p_wakeup (procs s p)),
     plist_head s, plist_tail s, cur_proc s, next_pid s)"

interpretation ptv: fs_frame "pt_view :: 'a vfs_state_scheme \<Rightarrow> _"
  by unfold_locales (simp_all add: pt_view_def)

lemma pt_viewD:
  assumes "pt_view s' = pt_view s"
  shows "p_pid (procs s' p) = p_pid (procs s p)" "p_next (procs s' p) = p_next (procs s p)" "p_status (procs s' p) = p_status (procs s p)"
    "plist_head s' = plist_head s" "plist_tail s' = plist_tail s" "cur_proc s' = cur_proc s" "next_pid s' = next_pid s"
    "p_wakeup (procs s' p) = p_wakeup (procs s p)"
  using assms by (auto simp: pt_view_def fun_eq_iff)

lemma proc_table_pt: "pt_view s' = pt_view s \<Longrightarrow> proc_table s' k = proc_table s k"
  using pt_viewD [of s' s] by (simp add: proc_table_def del: upt_Suc)

lemma pt_upd:
  "upd_proc s p f = Inr s' \<Longrightarrow> (\<And>c. p_pid (f c) = p_pid c \<and> p_next (f c) = p_next c \<and> p_status (f c) = p_status c \<and> p_wakeup (f c) = p_wakeup c) \<Longrightarrow>
     pt_view s' = pt_view s"
  by (auto simp: upd_proc_def pt_view_def split: if_splits)

lemma pt_kp [simp]:
  fixes s :: "'a kp_state_scheme"
  shows "pt_view (s\<lparr>p_tty := t\<rparr>) = pt_view s" "pt_view (s\<lparr>p_cleanup := c\<rparr>) = pt_view s" "pt_view (s\<lparr>p_ldata := l\<rparr>) = pt_view s"
    "pt_view (s\<lparr>segments := g\<rparr>) = pt_view s" "pt_view (s\<lparr>lists := h\<rparr>) = pt_view s"
  by (simp_all add: pt_view_def)

lemma pt_kstrdup: "kstrdup s str = Inr (p, s') \<Longrightarrow> pt_view s' = pt_view s"
  for s :: "'a vfs_state_scheme"
  unfolding kstrdup_def by (auto elim!: resE dest!: ptv.view_kmalloc ptv.view_frame)

lemma pt_init_proc_fs:
  assumes D: "drivers_keep pt_view D"
  shows "init_proc_fs D s p q = Inr s' \<Longrightarrow> pt_view s' = pt_view s"
  unfolding init_proc_fs_def Let_def by (auto elim!: resE dest!: ptv.view_new ptv.view_change_dir [OF D])

lemma pt_stacks: "init_proc_stacks s p e m = Inr s' \<Longrightarrow> pt_view s' = pt_view s"
  unfolding init_proc_stacks_def by (auto elim!: resE dest!: ptv.view_frame pt_upd)

lemma drivers_keep_pt: "drivers_keep pm_view D \<Longrightarrow> drivers_keep pt_view D"
  unfolding drivers_keep_def pm_view_def pt_view_def by (simp add: fun_eq_iff)

text \<open>Linking a process into the run queue.\<close>

lemma pm_activate_ids:
  "pm_activate s p = Inr s' \<Longrightarrow> p_pid (procs s' q) = p_pid (procs s q) \<and> p_status (procs s' q) = p_status (procs s q) \<and> next_pid s' = next_pid s"
  by (auto simp: pm_activate_def upd_proc_def Let_def elim!: resE split: if_splits)

lemma init_proc_start:
  assumes r: "init_proc D mem s p entry cmd mode parent status = Inr s'" and D: "drivers_keep pt_view D"
  obtains c s2 where "p_pid c = next_pid s" "p_next c = p_next (procs s p)" "p_status c = status"
    "pt_view s2 = pt_view (s\<lparr>next_pid := next_pid s + 1, procs := (procs s)(p := c)\<rparr>)"
    "s' = s2 \<or> pm_activate s2 p = Inr s'"
  using r unfolding init_proc_def newpid_def Let_def prod.case
proof (elim rbindE case_pairE, goal_cases)
  case (1 s1 cx cmdp sx s3 s4 s5 ax as sy s6 s7)
  have "pt_view sx = pt_view s1" using 1(3,4) by (auto dest: pt_kstrdup)
  moreover have "pt_view s3 = pt_view sx" using 1(5) by (rule pt_upd) simp
  moreover have "pt_view s4 = pt_view s3" using pt_init_proc_fs [OF D 1(6)] by simp
  moreover have "pt_view s5 = pt_view s4" using pt_upd [OF 1(7)] by simp
  moreover have "pt_view sy = pt_view s5" using 1(8,9) by (auto dest: ptv.view_create_addrspace)
  moreover have "pt_view s6 = pt_view sy" using 1(10) by (rule pt_upd) simp
  moreover have "pt_view s7 = pt_view s6" using 1(11) by (rule pt_stacks)
  ultimately have e: "pt_view s7 = pt_view s1" by simp
  let ?c = "(procs s p)\<lparr>p_pid := next_pid s, p_status := status,
      p_block := (if status \<noteq> PS_BLOCKED then BR_NOT_BLOCKED else BR_INIT), p_parent := parent,
      p_wait_proc := 0, p_wait_for := 0, p_exit_status := - 1, p_wakeup := 0, p_cmdline_mapped := False\<rparr>"
  from 1(2) have "s1 = s\<lparr>next_pid := next_pid s + 1, procs := (procs s)(p := ?c)\<rparr>"
    by (simp add: upd_proc_def split: if_split_asm)
  with e 1(12) show thesis by (intro 1(1) [of ?c s7]) (auto split: if_splits)
qed

text \<open>
  What a new process in slot \<open>p\<close> means for the table: the slots used so far and \<open>p\<close> are used, \<open>p\<close> has the next
  identifier, and the other slots keep their identifier and status.
\<close>

definition new_proc :: "'a pm_state_scheme \<Rightarrow> 'a pm_state_scheme \<Rightarrow> nat \<Rightarrow> nat \<Rightarrow> ptr \<Rightarrow> proc_status \<Rightarrow> bool" where
  "new_proc s s' k k' p status \<longleftrightarrow>
     proc_table s' k' \<and> k' = max k p \<and> 1 \<le> p \<and> p_status (procs s p) = PS_SLOT_FREE
     \<and> p_pid (procs s' p) = next_pid s \<and> p_status (procs s' p) = status
     \<and> (\<forall>q. q \<noteq> p \<longrightarrow> p_pid (procs s' q) = p_pid (procs s q) \<and> p_status (procs s' q) = p_status (procs s q))"

lemma new_procI:
  assumes t: "proc_table s k" and p: "get_empty_proc s = p" "p \<noteq> NULL" and n: "next_pid s \<noteq> - 1"
    and c: "p_pid c = next_pid s" "p_next c = p_next (procs s p)" "p_status c = status"
    and e: "pt_view s2 = pt_view (s\<lparr>next_pid := next_pid s + 1, procs := (procs s)(p := c)\<rparr>)"
    and a: "s' = s2 \<or> pm_activate s2 p = Inr s'"
  shows "new_proc s s' k (max k p) p status"
proof -
  let ?k = "if p \<le> k then k else k + 1"
  from proc_table_new [OF t p n c(1,2) refl] have new: "proc_table s2 ?k" "1 \<le> p" "p \<le> ?k"
    using proc_table_pt [OF e] by simp_all
  then have k: "?k = max k p" by (simp split: if_splits)
  have "proc_table s' ?k" using a new proc_table_activate [OF new(1,3)] by auto
  moreover have "p_pid (procs s' q) = p_pid (procs s2 q) \<and> p_status (procs s' q) = p_status (procs s2 q)" for q
    using a pm_activate_ids [of s2 p s'] by auto
  moreover note get_empty_proc_cases [OF p] pt_viewD(1,3) [OF e] k c(1,3)
  ultimately show ?thesis by (simp add: new_proc_def)
qed

lemma pm_create_new:
  assumes "proc_table s k" "next_pid s \<noteq> - 1" "drivers_keep pm_view D"
    "pm_create D mem s entry cmd mode parent status = Inr (p, s')"
  shows "new_proc s s' k (max k p) p status"
proof -
  from assms(4) have p: "get_empty_proc s = p" "p \<noteq> NULL" and r: "init_proc D mem s p entry cmd mode parent status = Inr s'"
    by (auto simp: pm_create_def Let_def elim!: resE)
  from r drivers_keep_pt [OF assms(3)] show ?thesis
    by (rule init_proc_start) (rule new_procI [OF assms(1) p assms(2)])
qed

section \<open>Fork and exit keep the table\<close>

lemma pt_sc_late_result: "sc_late_result s p r = Inr s' \<Longrightarrow> pt_view s' = pt_view s"
  for s :: "'a vfs_state_scheme"
  unfolding sc_late_result_def by (auto elim!: resE dest!: ptv.view_frame)

lemma pm_fork_start:
  assumes r: "pm_fork D mem s parent sp = Inr (p, s')" and p: "p \<noteq> NULL" and D: "drivers_keep pt_view D"
  obtains c where "get_empty_proc s = p" "p_pid c = next_pid s" "p_next c = p_next (procs s p)" "p_status c = PS_READY"
    "pt_view s' = pt_view (s\<lparr>next_pid := next_pid s + 1, procs := (procs s)(p := c)\<rparr>)"
proof -
  from r p have e: "get_empty_proc s = p" "parent \<noteq> NULL"
    by (auto simp: pm_fork_def newpid_def Let_def elim!: resE)
  show thesis
    using r p e unfolding pm_fork_def newpid_def Let_def prod.case
  proof (simp only: if_False, elim rbindE case_pairE, goal_cases)
    case (1 s1 x cx cmdp sx s2 ax as s3 s4 pd dx d s5 a ustack s6 s7 kx kstack s8 s9 s10)
    have "pt_view sx = pt_view s1" using 1(10,11) by (auto dest: pt_kstrdup)
    moreover have "pt_view s2 = pt_view sx" using 1(12) by (rule pt_upd) simp
    moreover have "pt_view s3 = pt_view s2" using 1(13,14) by (auto dest: ptv.view_clone_addrspace)
    moreover have "pt_view s4 = pt_view s3" using 1(15) by (rule pt_upd) simp
    moreover have "pt_view s5 = pt_view s4" using 1(17,18) by (auto dest: ptv.view_clone_procdata [OF D])
    moreover have "pt_view s6 = pt_view s5" using ptv.view_resolveD [OF 1(20)] by simp
    moreover have "pt_view s7 = pt_view s6" using 1(21) by (rule pt_upd) simp
    moreover have "pt_view s8 = pt_view s7" using 1(22,23) by (auto dest: ptv.view_alloc)
    moreover have "pt_view s9 = pt_view s8" using 1(24) by (rule ptv.view_kmem)
    moreover have "pt_view s10 = pt_view s9" using 1(25) by (rule pt_upd) simp
    ultimately have e: "pt_view s10 = pt_view s1" by simp
    let ?c = "(procs s p)\<lparr>p_pid := next_pid s, p_parent := p_pid (procs s parent), p_status := PS_READY,
      p_block := BR_NOT_BLOCKED, p_ticks_left := PROC_START_TICKS, p_wait_proc := 0, p_wait_for := 0,
      p_exit_status := - 1, p_wakeup := 0, p_cmdline_mapped := True\<rparr>"
    from 1(8) have "s1 = s\<lparr>next_pid := next_pid s + 1, procs := (procs s)(p := ?c)\<rparr>"
      by (simp add: upd_proc_def split: if_split_asm)
    with e 1(6,26) show thesis by (intro that [of ?c]) auto
  qed
qed

lemma pm_fork_new:
  assumes "proc_table s k" "next_pid s \<noteq> - 1" "drivers_keep pm_view D"
    "pm_fork D mem s parent sp = Inr (p, s')" "p \<noteq> NULL"
  shows "new_proc s s' k (max k p) p PS_READY"
proof (rule pm_fork_start [OF assms(4,5) drivers_keep_pt [OF assms(3)]])
  fix c
  assume "get_empty_proc s = p" "p_pid c = next_pid s" "p_next c = p_next (procs s p)" "p_status c = PS_READY"
    "pt_view s' = pt_view (s\<lparr>next_pid := next_pid s + 1, procs := (procs s)(p := c)\<rparr>)"
  then show ?thesis by (rule new_procI [OF assms(1) _ assms(5,2)]) simp
qed

lemma sys_fork_new:
  assumes "proc_table s k" "next_pid s \<noteq> - 1" "drivers_keep pm_view D" "sys_fork D mem s = Inr (pid, s')"
  shows "(\<exists>t. pm_fork D mem s (syscall_proc s) (p_esp (procs s (syscall_proc s))) = Inr (NULL, t) \<and> s' = t \<and> pid = - 1)
    \<or> (\<exists>p. new_proc s s' k (max k p) p PS_READY \<and> pid = next_pid s)"
proof -
  from assms(4) obtain p t where f: "pm_fork D mem s (syscall_proc s) (p_esp (procs s (syscall_proc s))) = Inr (p, t)"
    and r: "(if p = NULL then Inr (- 1, t) else rbind (sc_late_result t p 0) (\<lambda>s. rbind (pm_activate s p) (\<lambda>s.
            rbind (get_proc s p) (\<lambda>ch. Inr (p_pid ch, s))))) = Inr (pid, s')"
    by (auto simp: sys_fork_def get_proc_def elim!: resE split: if_split_asm)
  show ?thesis
  proof (cases "p = NULL")
    case True
    with f r show ?thesis by auto
  next
    case False
    with r obtain u where u: "sc_late_result t p 0 = Inr u" "pm_activate u p = Inr s'" "pid = p_pid (procs s' p)"
      by (auto simp: get_proc_def elim!: resE)
    from pm_fork_start [OF f False drivers_keep_pt [OF assms(3)]] obtain c where
      c: "get_empty_proc s = p" "p_pid c = next_pid s" "p_next c = p_next (procs s p)" "p_status c = PS_READY"
      "pt_view u = pt_view (s\<lparr>next_pid := next_pid s + 1, procs := (procs s)(p := c)\<rparr>)"
      using pt_sc_late_result [OF u(1)] by metis
    from new_procI [OF assms(1) c(1) False assms(2) c(2-5), of s'] u(2) have "new_proc s s' k (max k p) p PS_READY" by simp
    moreover from this u(3) have "pid = next_pid s" by (simp add: new_proc_def)
    ultimately show ?thesis by blast
  qed
qed

text \<open>What scheduling leaves alone in every process.\<close>

definition same_ids :: "'a pm_state_scheme \<Rightarrow> 'a pm_state_scheme \<Rightarrow> bool" where
  "same_ids s s' \<longleftrightarrow> next_pid s' = next_pid s \<and>
     (\<forall>q. p_pid (procs s' q) = p_pid (procs s q) \<and> p_wait_proc (procs s' q) = p_wait_proc (procs s q)
        \<and> p_wait_for (procs s' q) = p_wait_for (procs s q))"

lemma same_ids_refl: "same_ids s s"
  by (simp add: same_ids_def)

lemma same_ids_trans: "same_ids s t \<Longrightarrow> same_ids t u \<Longrightarrow> same_ids s u"
  by (simp add: same_ids_def)

lemma same_ids_upd:
  "upd_proc s p f = Inr s' \<Longrightarrow> (\<And>c. p_pid (f c) = p_pid c \<and> p_wait_proc (f c) = p_wait_proc c \<and> p_wait_for (f c) = p_wait_for c) \<Longrightarrow>
     same_ids s s'"
  by (auto simp: same_ids_def upd_proc_def split: if_splits)

lemma same_ids_links [simp]:
  "same_ids s (t\<lparr>plist_head := h\<rparr>) = same_ids s t" "same_ids s (t\<lparr>plist_tail := h\<rparr>) = same_ids s t"
  "same_ids s (t\<lparr>cur_proc := h\<rparr>) = same_ids s t" "same_ids (s\<lparr>plist_head := h\<rparr>) t = same_ids s t"
  "same_ids (s\<lparr>plist_tail := h\<rparr>) t = same_ids s t" "same_ids (s\<lparr>cur_proc := h\<rparr>) t = same_ids s t"
  by (simp_all add: same_ids_def)

lemma same_ids_schedule: "pm_schedule s = Inr s' \<Longrightarrow> same_ids s s'"
  unfolding pm_schedule_def Let_def
  by (auto elim!: resE dest!: same_ids_upd) (auto simp: same_ids_def)

lemma same_ids_deactivate: "pm_deactivate s p = Inr s' \<Longrightarrow> same_ids s s'"
  unfolding pm_deactivate_def
  by (auto elim!: resE dest!: same_ids_upd same_ids_schedule intro: same_ids_trans same_ids_refl)

lemma same_ids_get_proc: "same_ids s s' \<Longrightarrow> pm_get_proc s' = pm_get_proc s"
  by (simp add: same_ids_def pm_get_proc_def fun_eq_iff)

lemma proc_table_unblock: "proc_table s k \<Longrightarrow> p \<le> k \<Longrightarrow> pm_unblock s p = Inr s' \<Longrightarrow> proc_table s' k"
  unfolding pm_unblock_def by (erule rbindE) (auto intro: proc_table_activate dest: proc_table_upd [of s p _ _ k])

definition cleanup_keeps :: "(ptr \<Rightarrow> 'a kp_state_scheme \<Rightarrow> ptr \<Rightarrow> 'a kp_state_scheme res) \<Rightarrow> bool" where
  "cleanup_keeps C \<longleftrightarrow> (\<forall>f s p s'. C f s p = Inr s' \<longrightarrow> pm_view s' = pm_view s)"

text \<open>The loader's cleanup function keeps it.\<close>

lemma view_free_mem: "pm_view (elf32_free_mem s pdir base is) = pm_view s"
  for s :: "'a vfs_state_scheme"
  by (induction "is" arbitrary: s) (auto dest: pmv.view_resolveD split: prod.splits)

lemma view_free_segments: "free_segments s pdir es = Inr s' \<Longrightarrow> pm_view s' = pm_view s"
  by (induction es arbitrary: s) (auto simp: view_free_mem elim!: resE)

lemma cleanup_of_keeps: "cleanup_keeps cleanup_of"
  unfolding cleanup_keeps_def cleanup_of_def elf32_cleanup_def
  by (auto elim!: resE dest!: view_free_segments split: if_splits) (simp add: pm_view_def)

lemma pm_view_pt: "pm_view s' = pm_view s \<Longrightarrow> pt_view s' = pt_view s"
  by (simp add: pm_view_def pt_view_def)

lemma proc_table_destroy:
  assumes t: "proc_table s k" and p: "p \<le> k" and C: "cleanup_keeps C"
    and w: "p_wait_proc (procs s p) \<noteq> 0 \<Longrightarrow> pm_get_proc s (p_wait_proc (procs s p)) \<le> k"
    and r: "pm_destroy C s p = Inr s'"
  shows "proc_table s' k"
  using r unfolding pm_destroy_def Let_def
proof (elim rbindE, goal_cases)
  case (1 s1 s2 c s3 s4 s5)
  have i1: "same_ids s s1" by (rule same_ids_deactivate [OF 1(1)])
  have t1: "proc_table s1 k" by (rule proc_table_deactivate [OF t 1(1)])
  then have t2: "proc_table s2 k" using p by (intro proc_table_upd [OF 1(2)]) auto
  have i2: "same_ids s s2" using same_ids_upd [OF 1(2)] same_ids_trans [OF i1] by simp
  have c: "c = procs s2 p" using 1(3) by (simp add: get_proc_def split: if_splits)
  have t3: "proc_table s3 k"
  proof (cases "p_wait_proc c = 0")
    case True
    with 1(4) t2 show ?thesis by simp
  next
    case False
    with c i2 w have "pm_get_proc s2 (p_wait_proc c) \<le> k" by (simp add: same_ids_get_proc [OF i2]) (simp add: same_ids_def)
    with False 1(4) t2 show ?thesis
      by (auto elim!: rbindE dest!: pt_sc_late_result proc_table_pt [of _ s2 k] intro: proc_table_unblock)
  qed
  have "pt_view s4 = pt_view s3" using 1(5) by (auto elim!: resE dest!: pt_upd)
  moreover have "pt_view s5 = pt_view s4" using 1(6) C by (auto simp: cleanup_keeps_def split: if_splits intro: pm_view_pt)
  ultimately have "proc_table s5 k" using t3 proc_table_pt by metis
  then show ?case using ptv.view_destroy_addrspace [OF 1(7)] proc_table_pt [of s' s5] by simp
qed

section \<open>Every process is found\<close>

lemma proc_table_times [simp]:
  "proc_table (s\<lparr>timer_ticks := t\<rparr>) k = proc_table s k" "proc_table (s\<lparr>next_wakeup := w\<rparr>) k = proc_table s k"
  by (simp_all add: proc_table_def)

lemma proc_table_block:
  assumes t: "proc_table s k" and p: "p \<le> k" and r: "pm_block s p b = Inr (ok, s')"
  shows "proc_table s' k"
proof -
  from r obtain u where "s' = s \<or> upd_proc s p (\<lambda>c. c\<lparr>p_status := PS_BLOCKED, p_block := b\<rparr>) = Inr u \<and> pm_deactivate u p = Inr s'"
    by (auto simp: pm_block_def elim!: resE)
  moreover have "upd_proc s p (\<lambda>c. c\<lparr>p_status := PS_BLOCKED, p_block := b\<rparr>) = Inr u \<Longrightarrow> proc_table u k"
    using t p by (auto dest: proc_table_upd [of s p _ _ k])
  ultimately show ?thesis using t proc_table_deactivate by auto
qed

lemma proc_table_wake:
  "proc_table s k \<Longrightarrow> wake_procs s ps = Inr s' \<Longrightarrow> list_all (\<lambda>p. 1 \<le> p \<and> p \<le> 256) ps \<Longrightarrow> proc_table s' k"
proof (induction ps arbitrary: s)
  case (Cons p ps)
  show ?case
  proof (cases "p_wakeup (procs s p) = 0")
    case True
    with Cons show ?thesis by (simp add: Let_def)
  next
    case False
    from Cons.prems(3) have "1 \<le> p" "p \<le> 256" by simp_all
    with False Cons.prems(1) have p: "p \<le> k" unfolding proc_table_iff by (meson not_le)
    have "proc_table u k" if "upd_proc s p (\<lambda>c. c\<lparr>p_wakeup := 0\<rparr>) = Inr v" "pm_unblock v p = Inr u" for u v
      using proc_table_upd [OF that(1) Cons.prems(1)] p proc_table_unblock [OF _ p that(2)] by auto
    with Cons.prems False show ?thesis
      by (auto simp: Let_def elim!: resE intro: Cons.IH [rotated] split: if_splits)
  qed
qed simp

lemma proc_table_update:
  assumes t: "proc_table s k" and r: "pm_update s = Inr s'"
  shows "proc_table s' k"
proof -
  from r obtain u where "pm_schedule s = Inr s' \<or> s' = s
     \<or> upd_proc s (cur_proc s) (\<lambda>p. p\<lparr>p_ticks_left := p_ticks_left p - 1\<rparr>) = Inr u \<and> (s' = u \<or> pm_schedule u = Inr s')"
    by (auto simp: pm_update_def elim!: resE)
  moreover have "upd_proc s (cur_proc s) (\<lambda>p. p\<lparr>p_ticks_left := p_ticks_left p - 1\<rparr>) = Inr u \<Longrightarrow> proc_table u k"
    by (erule proc_table_upd [OF _ t proc_table_links(4) [OF t]]) simp_all
  ultimately show ?thesis using t proc_table_schedule by blast
qed

lemma proc_table_timer:
  assumes t: "proc_table s k" and r: "timer_irq s = Inr s'"
  shows "proc_table s' k"
  using r unfolding timer_irq_def Let_def
proof (elim rbindE, goal_cases)
  case (1 u)
  have "list_all (\<lambda>p. 1 \<le> p \<and> p \<le> 256) [1..<256 + 1]" by (simp add: list_all_iff del: upt_Suc upt_rec_numeral)
  with 1(1) t have "proc_table u k"
    by (auto dest: proc_table_wake [rotated] split: if_splits simp del: upt_Suc upt_rec_numeral)
  with 1(2) show ?case by (auto intro: proc_table_update)
qed

lemma proc_table_waitpid:
  assumes t: "proc_table s k" and me: "live s (syscall_proc s)" and r: "sys_waitpid s pid = Inr (x, s')"
  shows "proc_table s' k"
proof -
  let ?p = "pm_get_proc s pid" and ?me = "syscall_proc s"
  from r obtain u v ok where "s' = s \<or> upd_proc s ?p (\<lambda>c. c\<lparr>p_wait_proc := p_pid (procs s ?me)\<rparr>) = Inr u
      \<and> upd_proc u (syscall_proc u) (\<lambda>c. c\<lparr>p_wait_for := pid\<rparr>) = Inr v \<and> pm_block v (syscall_proc v) BR_WAIT_PROC = Inr (ok, s')"
    by (auto simp: sys_waitpid_def get_proc_def Let_def elim!: resE split: if_split_asm)
  then show ?thesis
  proof
    assume h: "upd_proc s ?p (\<lambda>c. c\<lparr>p_wait_proc := p_pid (procs s ?me)\<rparr>) = Inr u
      \<and> upd_proc u (syscall_proc u) (\<lambda>c. c\<lparr>p_wait_for := pid\<rparr>) = Inr v \<and> pm_block v (syscall_proc v) BR_WAIT_PROC = Inr (ok, s')"
    then have "pt_view u = pt_view s" "pt_view v = pt_view u" by (auto dest!: pt_upd)
    moreover from h have me': "syscall_proc v = ?me" by (auto simp: upd_proc_def split: if_splits)
    ultimately have e: "pt_view v = pt_view s" by simp
    with t have "proc_table v k" using proc_table_pt by metis
    moreover have "?me \<le> k" using live_used [OF t me] by simp
    ultimately show ?thesis using h me' proc_table_block by metis
  qed (simp add: t)
qed

text \<open>A process may be destroyed when the process that waits for it, if there is one, still exists.\<close>

definition may_end :: "'a pm_state_scheme \<Rightarrow> ptr \<Rightarrow> bool" where
  "may_end s p \<longleftrightarrow> live s p \<and> (p_wait_proc (procs s p) \<noteq> 0 \<longrightarrow> live s (pm_get_proc s (p_wait_proc (procs s p))))"

lemma proc_table_may_end:
  "proc_table s k \<Longrightarrow> may_end s p \<Longrightarrow> cleanup_keeps C \<Longrightarrow> pm_destroy C s p = Inr s' \<Longrightarrow> proc_table s' k"
  by (rule proc_table_destroy) (auto simp: may_end_def dest: live_used)

lemma proc_table_exit:
  assumes t: "proc_table s k" and m: "may_end s (syscall_proc s)" and C: "cleanup_keeps C" and r: "sys_exit C s st = Inr (x, s')"
  shows "proc_table s' k"
proof -
  from r obtain u v where u: "upd_proc s (cur_proc s) (\<lambda>c. c\<lparr>p_exit_status := st\<rparr>) = Inr u"
    "pm_destroy C u (syscall_proc u) = Inr v" "pm_schedule v = Inr s'"
    by (auto simp: sys_exit_def elim!: resE)
  have "proc_table u k" using u(1) by (rule proc_table_upd [OF _ t proc_table_links(4) [OF t]]) simp_all
  moreover have "pt_view u = pt_view s" using pt_upd [OF u(1)] by simp
  moreover have "syscall_proc u = syscall_proc s" "\<And>p. p_wait_proc (procs u p) = p_wait_proc (procs s p)"
    "\<And>p. p_pid (procs u p) = p_pid (procs s p)"
    using u(1) by (auto simp: upd_proc_def split: if_splits)
  ultimately have "proc_table u k" "may_end u (syscall_proc u)"
    using m pt_viewD(3) [of u s] by (simp_all add: may_end_def live_def pm_get_proc_def)
  from proc_table_may_end [OF this C u(2)] u(3) show ?thesis by (rule proc_table_schedule)
qed

text \<open>
  The operations on the process table, in any order. Identifiers are 32-bit numbers; the steps that hand
  one out need that there is one left.
\<close>

inductive table_reaches ::
    "'a kp_state_scheme drivers \<Rightarrow> (ptr \<Rightarrow> 'a kp_state_scheme \<Rightarrow> ptr \<Rightarrow> 'a kp_state_scheme res) \<Rightarrow> 'a kp_state_scheme \<Rightarrow> 'a kp_state_scheme \<Rightarrow> bool"
  for D C s0 where
  start: "table_reaches D C s0 s0"
| create: "table_reaches D C s0 s \<Longrightarrow> next_pid s \<noteq> - 1 \<Longrightarrow> pm_create D mem s entry cmd mode parent st = Inr (p, t) \<Longrightarrow>
     table_reaches D C s0 t"
| fork: "table_reaches D C s0 s \<Longrightarrow> next_pid s \<noteq> - 1 \<Longrightarrow> sys_fork D mem s = Inr (pid, t) \<Longrightarrow> table_reaches D C s0 t"
| exit: "table_reaches D C s0 s \<Longrightarrow> may_end s (syscall_proc s) \<Longrightarrow> sys_exit C s st = Inr (r, t) \<Longrightarrow> table_reaches D C s0 t"
| destroy: "table_reaches D C s0 s \<Longrightarrow> may_end s p \<Longrightarrow> pm_destroy C s p = Inr t \<Longrightarrow> table_reaches D C s0 t"
| waitpid: "table_reaches D C s0 s \<Longrightarrow> live s (syscall_proc s) \<Longrightarrow> sys_waitpid s pid = Inr (r, t) \<Longrightarrow> table_reaches D C s0 t"
| block: "table_reaches D C s0 s \<Longrightarrow> live s p \<Longrightarrow> pm_block s p b = Inr (ok, t) \<Longrightarrow> table_reaches D C s0 t"
| unblock: "table_reaches D C s0 s \<Longrightarrow> live s p \<Longrightarrow> pm_unblock s p = Inr t \<Longrightarrow> table_reaches D C s0 t"
| tick: "table_reaches D C s0 s \<Longrightarrow> timer_irq s = Inr t \<Longrightarrow> table_reaches D C s0 t"
| yield: "table_reaches D C s0 s \<Longrightarrow> sys_yield s = Inr (r, t) \<Longrightarrow> table_reaches D C s0 t"
| enter: "table_reaches D C s0 s \<Longrightarrow> table_reaches D C s0 (s\<lparr>syscall_proc := p\<rparr>)"

lemma pm_fork_null: "pm_fork D mem s p sp = Inr (NULL, t) \<Longrightarrow> t = s"
  by (auto simp: pm_fork_def Let_def elim!: resE)

lemma table_reaches_inv:
  assumes "table_reaches D C s0 s" and "proc_table s0 k0" and D: "drivers_keep pm_view D" and C: "cleanup_keeps C"
  shows "\<exists>k. proc_table s k"
  using assms(1,2)
proof (induction rule: table_reaches.induct)
  case (create s mem entry cmd mode parent st p t)
  then obtain k where k: "proc_table s k" by blast
  from pm_create_new [OF k create.hyps(2) D create.hyps(3)] show ?case by (auto simp: new_proc_def)
next
  case (fork s mem pid t)
  then obtain k where k: "proc_table s k" by blast
  from sys_fork_new [OF k fork.hyps(2) D fork.hyps(3)] k show ?case by (auto simp: new_proc_def dest: pm_fork_null)
next
  case (enter s p)
  then show ?case by (simp add: proc_table_def)
qed (auto intro: proc_table_exit [OF _ _ C] proc_table_may_end [OF _ _ C] proc_table_waitpid proc_table_timer
    dest: live_used simp: sys_yield_def elim!: resE
    intro: proc_table_schedule proc_table_block proc_table_unblock)

section \<open>Results\<close>


text \<open>A table for the examples: processes 0 (slot 1) and 5 (slot 2) are ready, slot 3 was used by process 3.\<close>

definition demo_table :: kp_state where
  "demo_table = idev_state.extend (demo_fs\<lparr>procs := (\<lambda>_. demo_proc PS_SLOT_FREE 0 NULL)(
       1 := demo_proc PS_RUNNING 0 2, 2 := (demo_proc PS_READY 0 NULL)\<lparr>p_pid := 5\<rparr>,
       3 := (demo_proc PS_SLOT_FREE 0 NULL)\<lparr>p_pid := 3\<rparr>, 4 := (demo_proc PS_BLOCKED 0 NULL)\<lparr>p_pid := 4\<rparr>),
       plist_head := 1, plist_tail := 2, cur_proc := 1, next_pid := 6\<rparr>)
     (kp_state.fields (\<lambda>_. None) (\<lambda>_. NULL) (\<lambda>_. NULL) (\<lambda>_. None))"

lemma demo_table_simps:
  "procs demo_table = (\<lambda>_. demo_proc PS_SLOT_FREE 0 NULL)(
       1 := demo_proc PS_RUNNING 0 2, 2 := (demo_proc PS_READY 0 NULL)\<lparr>p_pid := 5\<rparr>,
       3 := (demo_proc PS_SLOT_FREE 0 NULL)\<lparr>p_pid := 3\<rparr>, 4 := (demo_proc PS_BLOCKED 0 NULL)\<lparr>p_pid := 4\<rparr>)"
  "plist_head demo_table = 1" "plist_tail demo_table = 2" "cur_proc demo_table = 1" "next_pid demo_table = 6"
  by (simp_all add: demo_table_def idev_fields kp_state.defs)

lemma demo_table_ok: "proc_table demo_table 4"
proof -
  have l: "p_status (procs demo_table p) = PS_SLOT_FREE \<and> p_next (procs demo_table p) = NULL \<and> p_wakeup (procs demo_table p) = 0"
    if "4 < p" for p using that by (simp add: demo_table_simps demo_proc_def)
  have u: "[1..<4 + 1] = [1, 2, 3, 4]" by (simp add: upt_rec)
  have "list_all (\<lambda>p. p_pid (procs demo_table p) < next_pid demo_table \<and> p_next (procs demo_table p) \<le> 4) [1, 2, 3, 4]"
    "distinct (map (\<lambda>p. p_pid (procs demo_table p)) [1, 2, 3, 4])"
    by (simp_all add: demo_table_simps demo_proc_def)
  then show ?thesis using l unfolding proc_table_def u by (simp add: list_all_iff demo_table_simps demo_proc_def)
qed

definition no_drivers :: "'s drivers" where
  "no_drivers = \<lparr>iops_of = (\<lambda>_. \<lparr>iop_create = None, iop_open = None, iop_unlink = None, iop_readdir = None, iop_finddir = None\<rparr>),
     fops_of = (\<lambda>_. \<lparr>fop_close = None, fop_dup = None, fop_read = None, fop_write = None, fop_read_async = None, fop_write_async = None\<rparr>),
     remount_of = (\<lambda>_. None), mount_of = (\<lambda>_ s _ _ _. Inr (- ENOSYS, s)), callback_of = (\<lambda>_ s _ _ _ _. Inr s)\<rparr>"

lemma no_drivers_keep: "drivers_keep view no_drivers"
  by (simp add: drivers_keep_def no_drivers_def)


section \<open>Destroying a process that does not run\<close>

lemma find_prev_absent:
  "pseg (procs s) cur xs NULL \<Longrightarrow> p \<notin> set xs \<Longrightarrow> length xs \<le> n \<Longrightarrow>
     find_prev n s p prev cur = Inr (if xs = [] then prev else last xs, NULL)"
proof (induction xs arbitrary: n prev cur)
  case (Cons x xs)
  then obtain m where "n = Suc m" by (cases n) auto
  with Cons show ?case by (subst find_prev.simps) auto
qed (simp add: find_prev.simps)

lemma pm_deactivate_absent:
  assumes "run_queue s ps" and "p \<notin> set ps"
  shows "pm_deactivate s p = Inl Null_deref"
proof -
  have "length ps \<le> 1024" using run_queue_length [OF assms(1)] by simp
  with find_prev_absent [of s "plist_head s" ps p 1024 NULL] assms show ?thesis
    by (simp add: run_queue_def pm_deactivate_def get_proc_def)
qed

text \<open>
  C38. Destroying a process that is not in the run queue, a blocked one or one that was never started, is a
  null pointer access: \<^verbatim>\<open>pm_deactivate\<close> walks to the end of the queue and follows the link of the process it
  did not find. The loader does this whenever it cannot map a segment of the new process.
\<close>

theorem pm_destroy_blocked_faults:
  assumes "run_queue s ps" and "p \<notin> set ps"
  shows "pm_destroy C s p = Inl Null_deref"
  using pm_deactivate_absent [OF assms] by (simp add: pm_destroy_def)

theorem pm_destroy_blocked_faults_witness: "pm_destroy cleanup_of demo_table 4 = Inl Null_deref"
proof -
  have "run_queue demo_table [1, 2]"
    by (simp add: run_queue_def is_proc_def demo_table_simps demo_proc_def)
  then show ?thesis by (rule pm_destroy_blocked_faults) simp
qed

lemma pm_deactivate_current:
  assumes "sched_inv s (p # q # ps)"
  shows "returns (pm_deactivate s p) (\<lambda>t. sched_inv t (ps @ [q]))"
proof -
  from assms have rq: "run_queue s ([] @ p # q # ps)" and c: "cur_proc s = p" "cur_proc s \<noteq> NULL"
    by (auto simp: sched_inv_def dest: run_queue_nonnull)
  define u where "u = s\<lparr>plist_head := p_next (procs s p)\<rparr>"
  from pm_deactivate_unlinks [OF rq, of u] have d: "pm_deactivate s p = pm_schedule u" "pseg (procs u) (plist_head u) (q # ps) NULL"
    using c by (simp_all add: u_def)
  from run_queue_unlinked [OF rq _ _, of u] d(2) have "run_queue u (q # ps)" by (simp add: u_def)
  from returns_mono [OF pm_schedule_rotates [OF this]] show ?thesis using d(1) c(2) by (simp add: u_def)
qed

text \<open>
  C39. The end of a process that once waited for another: \<^verbatim>\<open>wait_for\<close> is not reset when the wait is over, and
  \<^verbatim>\<open>pm_destroy\<close> does not test the result of \<^verbatim>\<open>pm_get_proc\<close>. When the slot of the process it waited for has been
  given to another one since, the end of the waiter is a null pointer access in the kernel.
\<close>

theorem pm_destroy_stale_wait_faults:
  assumes "sched_inv s (p # q # ps)" and "p_wait_proc (procs s p) = 0" and "p_wait_for (procs s p) \<noteq> 0"
    and "list_all (\<lambda>x. p_pid (procs s x) \<noteq> p_wait_for (procs s p)) [1..<MAX_PROCS + 1]"
  shows "pm_destroy C s p = Inl Null_deref"
proof -
  from pm_deactivate_current [OF assms(1)] obtain t where t: "pm_deactivate s p = Inr t" by (auto elim: returnsE)
  note i = same_ids_deactivate [OF t]
  have p: "p \<noteq> NULL" using assms(1) run_queue_nonnull [of s "p # q # ps"] by (simp add: sched_inv_def)
  have "pm_get_proc s (p_wait_for (procs s p)) = NULL"
    using assms(4) by (auto simp: pm_get_proc_def list_all_iff find_None_iff split: option.splits dest!: find_SomeD simp del: upt_Suc upt_rec_numeral)
  then have g: "pm_get_proc t (p_wait_for (procs s p)) = NULL" by (simp add: same_ids_get_proc [OF i])
  define u where "u = t\<lparr>procs := (procs t)(p := (procs t p)\<lparr>p_status := PS_SLOT_FREE\<rparr>)\<rparr>"
  have "upd_proc t p (\<lambda>c. c\<lparr>p_status := PS_SLOT_FREE\<rparr>) = Inr u" using p by (simp add: upd_proc_def u_def)
  moreover have "pm_get_proc u = pm_get_proc t" by (rule same_ids_get_proc) (simp add: same_ids_def u_def)
  moreover have "p_wait_proc (procs u p) = 0" "p_wait_for (procs u p) = p_wait_for (procs s p)"
    using i assms(2) by (simp_all add: same_ids_def u_def)
  ultimately show ?thesis using t p g assms(3) by (simp add: pm_destroy_def get_proc_def)
qed

text \<open>The process in slot 1 waited for process 2, whose slot another process has now.\<close>

theorem pm_destroy_stale_wait_faults_witness:
  "pm_destroy cleanup_of (demo_table\<lparr>procs := (procs demo_table)(1 := (procs demo_table 1)\<lparr>p_wait_for := 2\<rparr>)\<rparr>) 1
     = Inl Null_deref"
proof (rule pm_destroy_stale_wait_faults [where q = 2 and ps = "[]"], goal_cases)
  case 1
  show ?case by (simp add: sched_inv_def run_queue_def is_proc_def demo_table_simps demo_proc_def)
next
  case 4
  show ?case by (simp add: list_all_iff demo_table_simps demo_proc_def del: upt_Suc upt_rec_numeral)
qed (simp_all add: demo_table_simps demo_proc_def)

end
