(* ===== verification/Kos_Ipc.thy ===== *)
theory Kos_Ipc
  imports Kos_Table Kos_Image
begin

text \<open>
  Message passing (\<^verbatim>\<open>kernel/ipc.c\<close>): sending and receiving over the message buffer of a process, the wakeup
  of a receiver that waits, and the two system calls. The mailbox of a process is the content of its ring
  buffer; the queue contract of \<^verbatim>\<open>Kos_Fifo\<close> is interpreted on sending to it and receiving from it.
\<close>

section \<open>ipc.c\<close>

text \<open>
  A message is 20 bytes in kernel memory: the sender's process identifier and four words. The message
  buffer of a process is a ring buffer of messages; \<^verbatim>\<open>rbuf_write\<close> copies from the message and
  \<^verbatim>\<open>rbuf_read\<close> to it.
\<close>

definition send :: "'a pm_state_scheme \<Rightarrow> ptr \<Rightarrow> u32 \<Rightarrow> (int \<times> 'a pm_state_scheme) res" where
  "send s proc msg =
     rbind (get_proc s proc) (\<lambda>c.
       if p_status c = PS_SLOT_FREE then Inr (EINVAL, s)
       else if msg = 0 then Inr (EINVAL, s)
       else if rbuf_freesize (p_msgbuffer c) = 0 then Inr (EAGAIN, s)
       else rbind (kread_bytes s msg 20) (\<lambda>bs.
            rbind (rbuf_write (p_msgbuffer c) bs 1) (\<lambda>(n, rb).
            rbind (upd_proc s proc (\<lambda>c. c\<lparr>p_msgbuffer := rb\<rparr>)) (\<lambda>s. Inr (0, s)))))"

definition receive :: "'a pm_state_scheme \<Rightarrow> ptr \<Rightarrow> u32 \<Rightarrow> (int \<times> 'a pm_state_scheme) res" where
  "receive s proc msg =
     rbind (get_proc s proc) (\<lambda>c.
       if p_status c = PS_SLOT_FREE then Inr (EINVAL, s)
       else if msg = 0 then Inr (EINVAL, s)
       else if rbuf_empty (p_msgbuffer c) then Inr (EAGAIN, s)
       else rbind (rbuf_read (p_msgbuffer c) (replicate 20 0) 1) (\<lambda>(n, bs, rb).
            rbind (kwrite_bytes s msg bs) (\<lambda>s.
            rbind (upd_proc s proc (\<lambda>c. c\<lparr>p_msgbuffer := rb\<rparr>)) (\<lambda>s. Inr (0, s)))))"

definition ipc_send :: "'a pm_state_scheme \<Rightarrow> ptr \<Rightarrow> ptr \<Rightarrow> u32 \<Rightarrow> (int \<times> 'a pm_state_scheme) res" where
  "ipc_send s from to msg =
     rbind (get_proc s from) (\<lambda>f.
     rbind (kwrite_u32 s msg (p_pid f)) (\<lambda>s.
     rbind (send s to msg) (\<lambda>(err, s).
     rbind (pm_is_blocked_for s to BR_RECEIVING) (\<lambda>blocked.
       if blocked
       then rbind (get_proc s to) (\<lambda>c.
            rbind (receive s to (p_msg_waitbuf c)) (\<lambda>(_, s).
            rbind (km_free_addr s (p_msg_waitbuf c) 20) (\<lambda>s.
            rbind (upd_proc s to (\<lambda>c. c\<lparr>p_msg_waitbuf := 0\<rparr>)) (\<lambda>s.
            rbind (pm_unblock s to) (\<lambda>s. Inr (err, s))))))
       else Inr (err, s)))))"

definition ipc_receive :: "'a pm_state_scheme \<Rightarrow> ptr \<Rightarrow> u32 \<Rightarrow> u8 \<Rightarrow> (int \<times> 'a pm_state_scheme) res" where
  "ipc_receive s proc msg block =
     rbind (receive s proc msg) (\<lambda>(err, s).
       if err = EAGAIN \<and> block \<noteq> 0
       then rbind (upd_proc s proc (\<lambda>c. c\<lparr>p_msg_waitbuf := msg\<rparr>)) (\<lambda>s.
            rbind (pm_block s proc BR_RECEIVING) (\<lambda>(_, s). Inr (0, s)))
       else if err = 0 then rbind (km_free_addr s msg 20) (\<lambda>s. Inr (err, s))
       else Inr (err, s))"

definition sys_send :: "'a vfs_state_scheme \<Rightarrow> u32 \<Rightarrow> u32 \<Rightarrow> (int \<times> 'a vfs_state_scheme) res" where
  "sys_send s target msgptr =
     (let proc = pm_get_proc s target
      in rbind (sc_pdir s) (\<lambda>pdir.
         rbind (vm_user_to_kernel s pdir msgptr 20) (\<lambda>(msg, s).
         rbind (ipc_send s (syscall_proc s) proc msg) (\<lambda>(result, s).
         rbind (km_free_addr s msg 20) (\<lambda>s. Inr (result, s))))))"

text \<open>The flag is passed on as a byte.\<close>

definition sys_receive :: "'a vfs_state_scheme \<Rightarrow> u32 \<Rightarrow> u32 \<Rightarrow> (int \<times> 'a vfs_state_scheme) res" where
  "sys_receive s msgptr block =
     rbind (sc_pdir s) (\<lambda>pdir.
     rbind (vm_user_to_kernel s pdir msgptr 20) (\<lambda>(msg, s).
       ipc_receive s (syscall_proc s) msg (ucast block)))"

section \<open>Mailboxes\<close>

text \<open>The messages a process has not received yet, oldest first.\<close>

definition mailbox :: "'a pm_state_scheme \<Rightarrow> ptr \<Rightarrow> u8 list list" where
  "mailbox s p = rb_items (p_msgbuffer (procs s p))"

definition mailbox_ok :: "'a pm_state_scheme \<Rightarrow> ptr \<Rightarrow> bool" where
  "mailbox_ok s p \<longleftrightarrow> rb_queue_inv 20 (p_msgbuffer (procs s p)) \<and> rb_maxcnt (p_msgbuffer (procs s p)) = 24"

lemma rb_items_length: "x \<in> set (rb_items rb) \<Longrightarrow> rb_inv rb \<Longrightarrow> length x = unat (rb_esize rb)"
proof -
  assume x: "x \<in> set (rb_items rb)" and i: "rb_inv rb"
  let ?M = "unat (rb_maxcnt rb)" and ?E = "unat (rb_esize rb)"
  from i have M: "0 < ?M" "length (rb_data rb) = ?M * ?E" by (simp_all add: rb_inv_def rb_at_def Let_def)
  from x obtain k where "x = chunk ?E (rb_data rb) ((rb_first rb + k) mod ?M)" by (auto simp: rb_items_def items_at_def)
  then show ?thesis using chunk_length slot_le [of "(rb_first rb + k) mod ?M" ?M ?E] M by simp
qed

lemma mailbox_okD:
  assumes "mailbox_ok s p"
  shows "rb_inv (p_msgbuffer (procs s p))" "unat (rb_esize (p_msgbuffer (procs s p))) = 20"
    "length (mailbox s p) \<le> 24" "rbuf_freesize (p_msgbuffer (procs s p)) = 0 \<longleftrightarrow> length (mailbox s p) = 24"
    "rbuf_empty (p_msgbuffer (procs s p)) \<longleftrightarrow> mailbox s p = []"
proof -
  let ?rb = "p_msgbuffer (procs s p)"
  show i: "rb_inv ?rb" "unat (rb_esize ?rb) = 20" using assms by (simp_all add: mailbox_ok_def rb_queue_inv_def)
  have m: "unat (rb_maxcnt ?rb) = 24" using assms by (simp add: mailbox_ok_def)
  note c = rb_inv_count [OF i(1)] rb_inv_freesize [OF i(1)] m
  show "length (mailbox s p) \<le> 24" using c by (simp add: mailbox_def)
  show "rbuf_freesize ?rb = 0 \<longleftrightarrow> length (mailbox s p) = 24" using c by (auto simp: mailbox_def u32_eq_iff_unat)
  show "rbuf_empty ?rb \<longleftrightarrow> mailbox s p = []" using c by (auto simp: mailbox_def rbuf_empty_def u32_eq_iff_unat simp flip: length_0_conv)
qed

text \<open>Writing to mapped kernel memory.\<close>

lemma kwrite_bytes_mapped:
  assumes "kmapped s v (length bs) f" and "inj_on f {..<length bs}"
  shows "\<exists>m. kwrite_bytes s v bs = Inr (s\<lparr>pmem := m\<rparr>) \<and> (\<forall>i < length bs. m (f i) = bs ! i)
     \<and> (\<forall>a. a \<notin> f ` {..<length bs} \<longrightarrow> m a = pmem s a)"
  using assms
proof (induction bs arbitrary: s v f)
  case Nil
  then show ?case by (intro exI [of _ "pmem s"]) simp
next
  case (Cons b bs)
  let ?s = "s\<lparr>pmem := (pmem s)(f 0 := b)\<rparr>"
  have "\<exists>m. kwrite_bytes ?s (v + 1) bs = Inr (?s\<lparr>pmem := m\<rparr>) \<and> (\<forall>i < length bs. m (f (Suc i)) = bs ! i)
     \<and> (\<forall>a. a \<notin> (\<lambda>i. f (Suc i)) ` {..<length bs} \<longrightarrow> m a = pmem ?s a)"
    using Cons.prems by (intro Cons.IH) (auto simp: kmapped_Suc inj_on_def)
  then obtain m where m: "kwrite_bytes ?s (v + 1) bs = Inr (s\<lparr>pmem := m\<rparr>)" "\<forall>i < length bs. m (f (Suc i)) = bs ! i"
    "\<forall>a. a \<notin> (\<lambda>i. f (Suc i)) ` {..<length bs} \<longrightarrow> m a = pmem ?s a" by auto
  have "f 0 \<notin> (\<lambda>i. f (Suc i)) ` {..<length bs}" using Cons.prems(2) by (auto dest: inj_onD [of f _ 0])
  with m(3) have m0: "m (f 0) = b" by simp
  show ?case
  proof (intro exI [of _ m] conjI allI impI)
    show "kwrite_bytes s v (b # bs) = Inr (s\<lparr>pmem := m\<rparr>)" using Cons.prems(1) m(1) by (simp add: kmapped_Suc kwrite_def)
    show "m (f i) = (b # bs) ! i" if "i < length (b # bs)" for i using that m(2) m0 by (cases i) auto
    show "m a = pmem s a" if "a \<notin> f ` {..<length (b # bs)}" for a
      using that m(3) by (auto simp: lessThan_Suc_eq_insert_0 image_image)
  qed
qed

lemma rbind_Inr_right [simp]: "rbind m Inr = m"
  by (cases m) auto

lemma kwrite_u32_bytes: "kwrite_u32 s v x = kwrite_bytes s v (bytes_of_u32 x)"
  by (simp add: kwrite_u32_def bytes_of_u32_def add.commute [of v])

lemma kread_bytes_length: "kread_bytes s v n = Inr bs \<Longrightarrow> length bs = n"
  by (induction n arbitrary: v bs) (auto simp: res_simps)

text \<open>Stamping the sender replaces the first four bytes of the message.\<close>

lemma stamp_sender:
  assumes f: "kmapped s msg 20 f" "inj_on f {..<20}" and r: "kread_bytes s msg 20 = Inr bs"
  shows "\<exists>m. kwrite_u32 s msg x = Inr (s\<lparr>pmem := m\<rparr>)
    \<and> kread_bytes (s\<lparr>pmem := m\<rparr>) msg 20 = Inr (bytes_of_u32 x @ drop 4 bs)
    \<and> (\<forall>a. a \<notin> f ` {..<4} \<longrightarrow> m a = pmem s a)"
proof -
  have "kmapped s msg (length (bytes_of_u32 x)) f" "inj_on f {..<length (bytes_of_u32 x)}"
    using f by (auto simp: kmapped_def inj_on_def)
  from kwrite_bytes_mapped [OF this] obtain m where m: "kwrite_u32 s msg x = Inr (s\<lparr>pmem := m\<rparr>)"
    "\<forall>i < 4. m (f i) = bytes_of_u32 x ! i" "\<forall>a. a \<notin> f ` {..<4} \<longrightarrow> m a = pmem s a"
    by (auto simp: kwrite_u32_bytes)
  have bs: "bs = map (\<lambda>i. pmem s (f i)) [0..<20]" using r kread_bytes_mapped [OF f(1)] by simp
  have "map (\<lambda>i. m (f i)) [0..<20] = bytes_of_u32 x @ drop 4 bs"
  proof (rule nth_equalityI)
    fix i assume "i < length (map (\<lambda>i. m (f i)) [0..<20])"
    then have i: "i < 20" by simp
    have "m (f i) = pmem s (f i)" if "\<not> i < 4"
      using that i inj_on_image_mem_iff [OF f(2), of i "{..<4}"] m(3) by (simp add: subset_eq)
    with i m(2) show "map (\<lambda>i. m (f i)) [0..<20] ! i = (bytes_of_u32 x @ drop 4 bs) ! i"
      by (auto simp: bs nth_append)
  qed (simp add: bs)
  with m show ?thesis using kread_bytes_mapped [of "s\<lparr>pmem := m\<rparr>" msg 20 f] f(1) by auto
qed

text \<open>Sending to a mailbox and receiving from it.\<close>

lemma send_mailbox:
  assumes b: "mailbox_ok s p" and p: "p \<noteq> NULL" "p_status (procs s p) \<noteq> PS_SLOT_FREE" and m: "msg \<noteq> 0" "kread_bytes s msg 20 = Inr bs"
  shows "\<exists>rb. send s p msg = Inr (if length (mailbox s p) < 24
      then (0, s\<lparr>procs := (procs s)(p := (procs s p)\<lparr>p_msgbuffer := rb\<rparr>)\<rparr>) else (EAGAIN, s))
    \<and> rb_queue_inv 20 rb \<and> rb_maxcnt rb = 24
    \<and> (length (mailbox s p) < 24 \<longrightarrow> rb_items rb = mailbox s p @ [bs])"
proof -
  let ?rb = "p_msgbuffer (procs s p)"
  note d = mailbox_okD [OF b]
  have l: "length bs = 20" using m(2) by (rule kread_bytes_length)
  show ?thesis
  proof (cases "length (mailbox s p) < 24")
    case True
    from rbuf_write_inv [OF d(1), of 1 bs] l d(2) obtain n rb where w: "rbuf_write ?rb bs 1 = Inr (n, rb)"
      "unat n = min 1 (unat (rb_maxcnt ?rb) - length (rb_items ?rb))" "rb_inv rb"
      "rb_items rb = rb_items ?rb @ chunks 20 bs (unat n)" "rb_esize rb = rb_esize ?rb" "rb_maxcnt rb = rb_maxcnt ?rb"
      by (auto elim!: returnsE)
    have "rb_maxcnt ?rb = 24" using b by (simp add: mailbox_ok_def)
    with w True have "unat n = 1" by (simp add: mailbox_def)
    with w(4) l have "rb_items rb = mailbox s p @ [bs]" by (simp add: mailbox_def chunks_def chunk_def)
    with True w p m d b show ?thesis
      by (intro exI [of _ rb]) (simp add: send_def get_proc_def upd_proc_def rb_queue_inv_def mailbox_ok_def)
  next
    case False
    with d(3) have "length (mailbox s p) = 24" by simp
    with p m d(4) b show ?thesis
      by (intro exI [of _ ?rb]) (simp add: send_def get_proc_def mailbox_ok_def)
  qed
qed

lemma receive_mailbox:
  assumes b: "mailbox_ok s p" and p: "p \<noteq> NULL" "p_status (procs s p) \<noteq> PS_SLOT_FREE" and m: "msg \<noteq> 0"
    and f: "kmapped s msg 20 f" "inj_on f {..<20}"
  shows "mailbox s p = [] \<Longrightarrow> receive s p msg = Inr (EAGAIN, s)"
    and "mailbox s p = x # xs \<Longrightarrow> \<exists>mem rb. receive s p msg =
        Inr (0, s\<lparr>pmem := mem, procs := (procs s)(p := (procs s p)\<lparr>p_msgbuffer := rb\<rparr>)\<rparr>)
      \<and> rb_queue_inv 20 rb \<and> rb_maxcnt rb = 24 \<and> rb_items rb = xs
      \<and> (\<forall>i < 20. mem (f i) = x ! i) \<and> (\<forall>a. a \<notin> f ` {..<20} \<longrightarrow> mem a = pmem s a)"
proof -
  let ?rb = "p_msgbuffer (procs s p)"
  note d = mailbox_okD [OF b]
  show "receive s p msg = Inr (EAGAIN, s)" if "mailbox s p = []"
    using that p m d(5) by (simp add: receive_def get_proc_def)
  assume x: "mailbox s p = x # xs"
  from rbuf_read_inv [OF d(1), of 1 "replicate 20 0"] d(2) x obtain n bs rb where
    r: "rbuf_read ?rb (replicate 20 0) 1 = Inr (n, bs, rb)" "rb_inv rb" "bs = x" "rb_items rb = xs"
    "rb_esize rb = rb_esize ?rb" "rb_maxcnt rb = rb_maxcnt ?rb"
    by (auto elim!: returnsE simp: mailbox_def)
  have l: "length x = 20" using x d(1,2) rb_items_length [of x ?rb] by (simp add: mailbox_def)
  from kwrite_bytes_mapped [of s msg x f] f l obtain mem where
    mem: "kwrite_bytes s msg x = Inr (s\<lparr>pmem := mem\<rparr>)" "\<forall>i < 20. mem (f i) = x ! i"
    "\<forall>a. a \<notin> f ` {..<20} \<longrightarrow> mem a = pmem s a" by auto
  have "\<not> rbuf_empty ?rb" using x d(5) by simp
  with r mem p m b d show "\<exists>mem rb. receive s p msg =
        Inr (0, s\<lparr>pmem := mem, procs := (procs s)(p := (procs s p)\<lparr>p_msgbuffer := rb\<rparr>)\<rparr>)
      \<and> rb_queue_inv 20 rb \<and> rb_maxcnt rb = 24 \<and> rb_items rb = xs
      \<and> (\<forall>i < 20. mem (f i) = x ! i) \<and> (\<forall>a. a \<notin> f ` {..<20} \<longrightarrow> mem a = pmem s a)"
    by (intro exI [of _ mem] exI [of _ rb])
      (simp add: receive_def get_proc_def upd_proc_def rb_queue_inv_def mailbox_ok_def)
qed

text \<open>Giving up a temporary mapping that lies in one page.\<close>

lemma NUM_PAGES_one: "0 < unat sz \<Longrightarrow> unat (PAGE_OFFSET v) + unat sz \<le> 4096 \<Longrightarrow> unat (NUM_PAGES (align_size v sz)) = 1"
proof -
  assume a: "0 < unat sz" "unat (PAGE_OFFSET v) + unat sz \<le> 4096"
  then have "unat (align_size v sz) = unat sz + unat (PAGE_OFFSET v)" by (simp add: align_size_def unat_add_u32)
  then show ?thesis using a unfolding unat_NUM_PAGES by (intro div_nat_eqI) auto
qed

lemma km_free_addr_one_page:
  assumes n: "0 < unat sz" "unat (PAGE_OFFSET v) + unat sz \<le> 4096"
    and e: "bisset (pde_of s (kernel_pdir s) v) PE_PRESENT" and r: "kpdir_rev s \<noteq> 0xFFFFFFFF"
  shows "\<exists>w T r. km_free_addr s v sz = Inr (s\<lparr>wt_entry := w, ptabs := T, kpdir_rev := r\<rparr>)"
proof -
  let ?a = "align_addr v"
  have al: "IS_PAGE_ALIGNED ?a" by (simp add: IS_PAGE_ALIGNED_iff unat_align_addr minus_mod_eq_mult_div)
  have pg: "page_no ?a = page_no v" by (simp add: page_no_def unat_align_addr minus_mod_eq_mult_div)
  then have "pdir_index ?a = pdir_index v" using same_page by blast
  then have e': "bisset (pde_of s (kernel_pdir s) ?a) PE_PRESENT" using e by (simp add: pde_of_def)
  obtain w where w: "map_working_table s (getaddr (pde_of s (kernel_pdir s) ?a)) = (getaddr (pde_of s (kernel_pdir s) ?a), s\<lparr>wt_entry := w\<rparr>)"
    using map_working_table_addr [OF getaddr_aligned] by blast
  have e1: "(- 1 :: u32) = 0xFFFFFFFF" by simp
  have "kpdir_rev s \<noteq> - 1" using r unfolding e1 .
  then have rev: "\<not> kpdir_rev s + 1 < kpdir_rev s" using u32_less_inc [of "kpdir_rev s"] by auto
  have "do_map s (kernel_pdir s) 0 ?a 0 False = Inr ((put_pte (s\<lparr>wt_entry := w\<rparr>) (getaddr (pde_of s (kernel_pdir s) ?a)) (ptab_index ?a) 0)
      \<lparr>kpdir_rev := kpdir_rev s + 1\<rparr>)"
    using al e' w rev by (simp add: do_map_def table_for_def bnotset_not Let_def IS_PAGE_ALIGNED_def [of 0] bisset_def [of 0] put_pte_def)
  then have "km_free_addr s v sz = Inr ((put_pte (s\<lparr>wt_entry := w\<rparr>) (getaddr (pde_of s (kernel_pdir s) ?a)) (ptab_index ?a) 0)
      \<lparr>kpdir_rev := kpdir_rev s + 1\<rparr>)"
    using NUM_PAGES_one [OF n] al by (simp add: km_free_addr_def vm_free_addr_def vm_unmap_range_def vm_map_range_def vm_map_page_def
      IS_PAGE_ALIGNED_def [of 0])
  then show ?thesis by (simp add: put_pte_def) blast
qed

lemma pm_unblock_msgs:
  "pm_unblock s p = Inr t \<Longrightarrow> p_msgbuffer (procs t q) = p_msgbuffer (procs s q) \<and> p_msg_waitbuf (procs t q) = p_msg_waitbuf (procs s q)
     \<and> p_pid (procs t q) = p_pid (procs s q)"
  by (auto simp: pm_unblock_def pm_activate_def upd_proc_def Let_def elim!: resE split: if_splits)

section \<open>What sending does\<close>

lemma ipc_send_not_waiting:
  assumes b: "mailbox_ok s to" and ft: "from \<noteq> NULL" "to \<noteq> NULL" "p_status (procs s to) \<noteq> PS_SLOT_FREE"
    and nb: "\<not> (p_status (procs s to) = PS_BLOCKED \<and> p_block (procs s to) = BR_RECEIVING)"
    and m: "msg \<noteq> 0" "kmapped s msg 20 f" "inj_on f {..<20}" "kread_bytes s msg 20 = Inr bs"
  shows "\<exists>mem rb. ipc_send s from to msg = Inr (if length (mailbox s to) < 24
      then (0, s\<lparr>pmem := mem, procs := (procs s)(to := (procs s to)\<lparr>p_msgbuffer := rb\<rparr>)\<rparr>) else (EAGAIN, s\<lparr>pmem := mem\<rparr>))
    \<and> rb_queue_inv 20 rb \<and> rb_maxcnt rb = 24
    \<and> (length (mailbox s to) < 24 \<longrightarrow> rb_items rb = mailbox s to @ [bytes_of_u32 (p_pid (procs s from)) @ drop 4 bs])"
proof -
  let ?x = "p_pid (procs s from)"
  from stamp_sender [OF m(2-4), of ?x] obtain mem where w: "kwrite_u32 s msg ?x = Inr (s\<lparr>pmem := mem\<rparr>)"
    "kread_bytes (s\<lparr>pmem := mem\<rparr>) msg 20 = Inr (bytes_of_u32 ?x @ drop 4 bs)" by blast
  define s1 where "s1 = s\<lparr>pmem := mem\<rparr>"
  have s1: "procs s1 = procs s" "mailbox s1 to = mailbox s to" "mailbox_ok s1 to"
    using b by (simp_all add: s1_def mailbox_def mailbox_ok_def)
  from send_mailbox [of s1 to msg, OF s1(3) ft(2) _ m(1) w(2) [folded s1_def]] ft(3)
  obtain rb where sd: "send s1 to msg = Inr (if length (mailbox s to) < 24
      then (0, s1\<lparr>procs := (procs s)(to := (procs s to)\<lparr>p_msgbuffer := rb\<rparr>)\<rparr>) else (EAGAIN, s1))"
    "rb_queue_inv 20 rb" "rb_maxcnt rb = 24" "length (mailbox s to) < 24 \<longrightarrow> rb_items rb = mailbox s to @ [bytes_of_u32 ?x @ drop 4 bs]"
    unfolding s1 by blast
  have "ipc_send s from to msg = send s1 to msg"
  proof (cases "length (mailbox s to) < 24")
    case True
    with w(1) sd(1) ft nb show ?thesis
      by (auto simp: ipc_send_def get_proc_def pm_is_blocked_for_def s1_def)
  next
    case False
    with w(1) sd(1) ft nb show ?thesis
      by (auto simp: ipc_send_def get_proc_def pm_is_blocked_for_def s1_def)
  qed
  with sd show ?thesis by (intro exI [of _ mem] exI [of _ rb]) (simp add: s1_def)
qed

text \<open>
  C9. \<^verbatim>\<open>ipc_send\<close> to a process that is not waiting: the message is put behind the messages the process has not
  received yet, with the identifier of the sender in its first word whatever the sender wrote there; when 24
  messages are waiting the result is \<^verbatim>\<open>EAGAIN\<close> and the mailbox stays as it was. No other process changes.
\<close>

theorem ipc_send_spec:
  assumes "mailbox_ok s to" and "from \<noteq> NULL" and "to \<noteq> NULL" and "p_status (procs s to) \<noteq> PS_SLOT_FREE"
    and "\<not> (p_status (procs s to) = PS_BLOCKED \<and> p_block (procs s to) = BR_RECEIVING)"
    and "msg \<noteq> 0" and "kmapped s msg 20 f" and "inj_on f {..<20}" and "kread_bytes s msg 20 = Inr bs"
  shows "returns (ipc_send s from to msg) (\<lambda>(err, t). err = (if length (mailbox s to) < 24 then 0 else EAGAIN)
    \<and> mailbox_ok t to
    \<and> mailbox t to = mailbox s to @ (if length (mailbox s to) < 24 then [bytes_of_u32 (p_pid (procs s from)) @ drop 4 bs] else [])
    \<and> (\<forall>q. q \<noteq> to \<longrightarrow> procs t q = procs s q))"
  using ipc_send_not_waiting [OF assms] assms(1) by (auto simp: mailbox_def mailbox_ok_def)

text \<open>
  C8. \<^verbatim>\<open>ipc_send\<close> to a process that is blocked in \<^verbatim>\<open>ipc_receive\<close>: the message goes straight to the buffer the
  receiver waits with, with the sender's identifier in its first word; the receiver is ready again, at the end
  of the run queue, and its mailbox is empty.
\<close>

theorem ipc_send_wakes_receiver:
  assumes "sched_inv s ps" and "to \<notin> set ps" and "is_proc to" and "from \<noteq> NULL"
    and "p_status (procs s to) = PS_BLOCKED" and "p_block (procs s to) = BR_RECEIVING"
    and "mailbox_ok s to" and "mailbox s to = []"
    and "msg \<noteq> 0" and "kmapped s msg 20 f" and "inj_on f {..<20}" and "kread_bytes s msg 20 = Inr bs"
    and "p_msg_waitbuf (procs s to) = w" and "w \<noteq> 0" and "kmapped s w 20 g" and "inj_on g {..<20}"
    and "unat (PAGE_OFFSET w) + 20 \<le> 4096" and "bisset (pde_of s (kernel_pdir s) w) PE_PRESENT" and "kpdir_rev s \<noteq> 0xFFFFFFFF"
  shows "returns (ipc_send s from to msg) (\<lambda>(err, t). err = 0 \<and> mailbox t to = [] \<and> sched_inv t (ps @ [to])
    \<and> p_status (procs t to) = PS_READY \<and> p_msg_waitbuf (procs t to) = 0
    \<and> map (\<lambda>i. pmem t (g i)) [0..<20] = bytes_of_u32 (p_pid (procs s from)) @ drop 4 bs)"
proof -
  let ?x = "p_pid (procs s from)" and ?m = "bytes_of_u32 (p_pid (procs s from)) @ drop 4 bs"
  have to: "to \<noteq> NULL" using assms(3) by auto
  have len: "length ?m = 20" using kread_bytes_length [OF assms(12)] by simp
  from stamp_sender [OF assms(10-12), of ?x] obtain m where m: "kwrite_u32 s msg ?x = Inr (s\<lparr>pmem := m\<rparr>)"
    "kread_bytes (s\<lparr>pmem := m\<rparr>) msg 20 = Inr ?m" by blast
  have s1: "mailbox (s\<lparr>pmem := m\<rparr>) to = []" "mailbox_ok (s\<lparr>pmem := m\<rparr>) to" "p_status (procs (s\<lparr>pmem := m\<rparr>) to) \<noteq> PS_SLOT_FREE"
    using assms(5,7,8) by (simp_all add: mailbox_def mailbox_ok_def)
  from send_mailbox [OF s1(2) to s1(3) assms(9) m(2)] s1(1)
  obtain rb where sd: "send (s\<lparr>pmem := m\<rparr>) to msg = Inr (0, s\<lparr>pmem := m, procs := (procs s)(to := (procs s to)\<lparr>p_msgbuffer := rb\<rparr>)\<rparr>)"
    "rb_queue_inv 20 rb" "rb_maxcnt rb = 24" "rb_items rb = [?m]" by auto
  define u where "u = s\<lparr>pmem := m, procs := (procs s)(to := (procs s to)\<lparr>p_msgbuffer := rb\<rparr>)\<rparr>"
  have km: "kmapped u w 20 g" using assms(15) by (simp add: u_def kmapped_def kaddr_def)
  from receive_mailbox(2) [of u to w g ?m "[]"] sd(2-4) to assms(5,14,16) km
  obtain mem rb' where rc: "receive u to w = Inr (0, u\<lparr>pmem := mem, procs := (procs u)(to := (procs u to)\<lparr>p_msgbuffer := rb'\<rparr>)\<rparr>)"
    "rb_items rb' = []" "\<forall>i < 20. mem (g i) = ?m ! i"
    by (auto simp: u_def mailbox_ok_def mailbox_def)
  define v where "v = u\<lparr>pmem := mem, procs := (procs u)(to := (procs u to)\<lparr>p_msgbuffer := rb'\<rparr>)\<rparr>"
  from km_free_addr_one_page [of 20 w v] assms(17-19)
  obtain e T r where fr: "km_free_addr v w 20 = Inr (v\<lparr>wt_entry := e, ptabs := T, kpdir_rev := r\<rparr>)"
    by (auto simp: v_def u_def pde_of_def)
  define x where "x = v\<lparr>wt_entry := e, ptabs := T, kpdir_rev := r, procs := (procs v)(to := (procs v to)\<lparr>p_msg_waitbuf := 0\<rparr>)\<rparr>"
  have "sched_inv x ps"
    using assms(1) run_queue_cong [of x s ps] by (simp add: sched_inv_def x_def v_def u_def)
  from pm_unblock_appends [OF this assms(2,3)] obtain t where t: "pm_unblock x to = Inr t" "sched_inv t (ps @ [to])"
    "p_status (procs t to) = PS_READY" "t = x\<lparr>procs := procs t, plist_head := plist_head t, plist_tail := plist_tail t\<rparr>"
    by (auto elim: returnsE)
  have pm: "pmem t = mem" by (subst t(4)) (simp add: x_def v_def)
  have ms: "p_msgbuffer (procs t to) = rb'" "p_msg_waitbuf (procs t to) = 0"
    using pm_unblock_msgs [OF t(1)] by (simp_all add: x_def v_def)
  have "ipc_send s from to msg = Inr (0, t)"
    using m(1) sd(1) rc(1) fr t(1) to assms(4-6,13)
    by (simp add: ipc_send_def get_proc_def pm_is_blocked_for_def upd_proc_def flip: u_def v_def) (simp add: u_def v_def x_def)
  moreover have "map (\<lambda>i. pmem t (g i)) [0..<20] = ?m"
    using rc(3) pm len by (intro nth_equalityI) simp_all
  ultimately show ?thesis using t ms rc(2) by (simp add: mailbox_def)
qed

section \<open>Messages in order\<close>

text \<open>
  A sender with the buffer \<open>buf\<close> and a receiver that reads into the same buffer, as the queue contract sees
  them. A message that carries the sender's identifier already is not changed by sending it.
\<close>

definition put_msg :: "ptr \<Rightarrow> ptr \<Rightarrow> u32 \<Rightarrow> 'a pm_state_scheme \<Rightarrow> u8 list \<Rightarrow> 'a pm_state_scheme res" where
  "put_msg from to buf s m = rbind (kwrite_bytes s buf m) (\<lambda>s. rbind (ipc_send s from to buf) (\<lambda>(err, s). Inr s))"

definition get_msg :: "ptr \<Rightarrow> u32 \<Rightarrow> 'a pm_state_scheme \<Rightarrow> (u8 list \<times> 'a pm_state_scheme) res" where
  "get_msg to buf s = rbind (receive s to buf) (\<lambda>(err, s). rbind (kread_bytes s buf 20) (\<lambda>m. Inr (m, s)))"

definition msg_from :: "u32 \<Rightarrow> u8 list \<Rightarrow> bool" where
  "msg_from pid m \<longleftrightarrow> length m = 20 \<and> take 4 m = bytes_of_u32 pid"

definition channel :: "ptr \<Rightarrow> ptr \<Rightarrow> u32 \<Rightarrow> (nat \<Rightarrow> u32) \<Rightarrow> u32 \<Rightarrow> 'a pm_state_scheme \<Rightarrow> bool" where
  "channel from to buf f pid s \<longleftrightarrow>
     from \<noteq> NULL \<and> to \<noteq> NULL \<and> from \<noteq> to \<and> p_pid (procs s from) = pid \<and> mailbox_ok s to
     \<and> p_status (procs s to) \<noteq> PS_SLOT_FREE \<and> \<not> (p_status (procs s to) = PS_BLOCKED \<and> p_block (procs s to) = BR_RECEIVING)
     \<and> buf \<noteq> 0 \<and> kmapped s buf 20 f \<and> inj_on f {..<20}"

lemma put_msg_ok:
  assumes c: "channel from to buf f pid s" and l: "length (mailbox s to) + Suc n \<le> 24" and m: "msg_from pid x"
  shows "\<exists>s'. put_msg from to buf s x = Inr s' \<and> channel from to buf f pid s' \<and> mailbox s' to = mailbox s to @ [x]
    \<and> length (mailbox s' to) + n \<le> 24"
proof -
  have len: "length x = 20" and hd: "bytes_of_u32 pid @ drop 4 x = x"
    using m append_take_drop_id [of 4 x] by (simp_all add: msg_from_def)
  from kwrite_bytes_mapped [of s buf x f] c len obtain mem where w: "kwrite_bytes s buf x = Inr (s\<lparr>pmem := mem\<rparr>)"
    "\<forall>i < 20. mem (f i) = x ! i" by (auto simp: channel_def)
  define s1 where "s1 = s\<lparr>pmem := mem\<rparr>"
  have c1: "channel from to buf f pid s1" "mailbox s1 to = mailbox s to"
    using c by (simp_all add: s1_def channel_def mailbox_def mailbox_ok_def)
  have rd: "kread_bytes s1 buf 20 = Inr x"
  proof -
    have "map (\<lambda>i. mem (f i)) [0..<20] = x" using w(2) len by (intro nth_equalityI) simp_all
    then show ?thesis using kread_bytes_mapped [of s1 buf 20 f] c1(1) by (simp add: s1_def channel_def)
  qed
  from c1(1) have pid: "p_pid (procs s1 from) = pid" by (simp add: channel_def)
  from ipc_send_not_waiting [of s1 to "from" buf f x] c1 rd l obtain mem' rb where
    sd: "ipc_send s1 from to buf = Inr (0, s1\<lparr>pmem := mem', procs := (procs s1)(to := (procs s1 to)\<lparr>p_msgbuffer := rb\<rparr>)\<rparr>)"
    "rb_queue_inv 20 rb" "rb_maxcnt rb = 24" "rb_items rb = mailbox s to @ [x]"
    by (auto simp: channel_def pid hd)
  then show ?thesis using w(1) l c1(1)
    by (simp add: put_msg_def flip: s1_def) (auto simp: channel_def mailbox_def mailbox_ok_def kmapped_def kaddr_def)
qed

lemma get_msg_ok:
  assumes c: "channel from to buf f pid s" and m: "mailbox s to = x # xs"
  shows "\<exists>s'. get_msg to buf s = Inr (x, s') \<and> channel from to buf f pid s' \<and> mailbox s' to = xs"
proof -
  from receive_mailbox(2) [OF _ _ _ _ _ _ m, of buf f] c obtain mem rb where
    r: "receive s to buf = Inr (0, s\<lparr>pmem := mem, procs := (procs s)(to := (procs s to)\<lparr>p_msgbuffer := rb\<rparr>)\<rparr>)"
    "rb_queue_inv 20 rb" "rb_maxcnt rb = 24" "rb_items rb = xs" "\<forall>i < 20. mem (f i) = x ! i"
    by (auto simp: channel_def)
  define t where "t = s\<lparr>pmem := mem, procs := (procs s)(to := (procs s to)\<lparr>p_msgbuffer := rb\<rparr>)\<rparr>"
  have t: "channel from to buf f pid t" "mailbox t to = xs"
    using c r(2-4) by (auto simp: t_def channel_def mailbox_ok_def mailbox_def kmapped_def kaddr_def)
  have "length x = 20" using m mailbox_okD(1,2) [of s to] c rb_items_length [of x "p_msgbuffer (procs s to)"]
    by (simp add: mailbox_def channel_def)
  with r(5) have "map (\<lambda>i. pmem t (f i)) [0..<20] = x" by (intro nth_equalityI) (simp_all add: t_def)
  then have "kread_bytes t buf 20 = Inr x" using kread_bytes_mapped [of t buf 20 f] t(1) by (simp add: channel_def)
  with r(1) t show ?thesis by (simp add: get_msg_def flip: t_def)
qed

interpretation ipc: fifo "channel from to buf f pid" "\<lambda>s. mailbox s to" "\<lambda>s n. length (mailbox s to) + n \<le> 24"
    "msg_from pid" "put_msg from to buf" "get_msg to buf"
  for "from" to buf f pid
  by unfold_locales (blast intro: put_msg_ok get_msg_ok)+


text \<open>Process 0 sends to process 5 of the example table; kernel memory is mapped to itself.\<close>

lemma demo_table_kaddr: "unat v < 4194304 \<Longrightarrow> kaddr demo_table v = Inr v"
  using demo_ramdisk_kaddr [of v]
  by (simp add: kaddr_def demo_table_def demo_ramdisk_def demo_fs_def demo_objects_def idev_fields kp_state.defs)

lemma demo_table_kmapped: "kmapped demo_table 0x20000 20 (\<lambda>i. 0x20000 + of_nat i)"
proof -
  have "unat (0x20000 + of_nat i :: u32) < 4194304" if "i < 20" for i using that by (simp add: unat_add_u32_small)
  then show ?thesis by (simp add: kmapped_def demo_table_kaddr)
qed

lemma demo_table_inj: "inj_on (\<lambda>i. 0x20000 + of_nat i :: u32) {..<20}"
proof (rule inj_onI)
  fix i j assume "i \<in> {..<20}" "j \<in> {..<20}" "0x20000 + of_nat i = (0x20000 + of_nat j :: u32)"
  then have "unat (of_nat i :: u32) = unat (of_nat j :: u32)" "i < 20" "j < 20" by simp_all
  then show "i = j" by simp
qed

lemma demo_mailbox: "2 \<le> p \<Longrightarrow> p \<le> 4 \<Longrightarrow> mailbox_ok demo_table p \<and> mailbox demo_table p = []"
proof -
  assume "2 \<le> p" "p \<le> 4"
  then have "p_msgbuffer (procs demo_table p) = rbuf_create (\<lambda>_. 0) 20 24 False"
    by (simp add: demo_table_simps demo_proc_def)
  then show ?thesis using rbuf_create_inv [of 20 24 "\<lambda>_. 0"]
    by (simp add: mailbox_ok_def rb_queue_inv_def mailbox_def) (simp add: rbuf_create_def)
qed

lemma demo_channel: "channel 1 2 0x20000 (\<lambda>i. 0x20000 + of_nat i) 0 demo_table"
  using demo_table_kmapped demo_table_inj demo_mailbox [of 2]
  by (simp add: channel_def) (simp add: demo_table_simps demo_proc_def)


lemma demo_table_read: "kread_bytes demo_table 0x20000 20 = Inr (map (\<lambda>i. pmem demo_table (0x20000 + of_nat i)) [0..<20])"
  using kread_bytes_mapped [OF demo_table_kmapped] .

theorem ipc_send_spec_witness:
  "returns (ipc_send demo_table 1 2 0x20000) (\<lambda>(err, t). err = 0 \<and> length (mailbox t 2) = 1)"
proof -
  have "returns (ipc_send demo_table 1 2 0x20000) (\<lambda>(err, t). err = (if length (mailbox demo_table 2) < 24 then 0 else EAGAIN)
    \<and> mailbox_ok t 2
    \<and> mailbox t 2 = mailbox demo_table 2 @ (if length (mailbox demo_table 2) < 24
        then [bytes_of_u32 (p_pid (procs demo_table 1)) @ drop 4 (map (\<lambda>i. pmem demo_table (0x20000 + of_nat i)) [0..<20])] else [])
    \<and> (\<forall>q. q \<noteq> 2 \<longrightarrow> procs t q = procs demo_table q))"
    using demo_channel demo_table_read by (intro ipc_send_spec) (auto simp: channel_def)
  then show ?thesis using demo_mailbox [of 2] by (auto elim!: returns_mono)
qed

text \<open>The process in slot 4 waits for a message with the buffer at \<open>0x21000\<close>.\<close>

definition demo_waiting :: kp_state where
  "demo_waiting = demo_table\<lparr>procs := (procs demo_table)(4 := (procs demo_table 4)\<lparr>p_block := BR_RECEIVING, p_msg_waitbuf := 0x21000\<rparr>)\<rparr>"

lemma demo_waiting_kmapped:
  "kmapped demo_waiting 0x20000 20 (\<lambda>i. 0x20000 + of_nat i)" "kmapped demo_waiting 0x21000 20 (\<lambda>i. 0x21000 + of_nat i)"
proof -
  have "unat (0x21000 + of_nat i :: u32) < 4194304" if "i < 20" for i using that by (simp add: unat_add_u32_small)
  then have "kmapped demo_table 0x21000 20 (\<lambda>i. 0x21000 + of_nat i)" by (simp add: kmapped_def demo_table_kaddr)
  then show "kmapped demo_waiting 0x21000 20 (\<lambda>i. 0x21000 + of_nat i)" "kmapped demo_waiting 0x20000 20 (\<lambda>i. 0x20000 + of_nat i)"
    using demo_table_kmapped by (simp_all add: kmapped_def kaddr_def demo_waiting_def)
qed

lemma demo_waiting_sched: "sched_inv demo_waiting [1, 2]"
  by (simp add: sched_inv_def run_queue_def is_proc_def demo_waiting_def demo_table_simps demo_proc_def)

lemma demo_waiting_vm: "pde_of demo_waiting (kernel_pdir demo_waiting) 0x21000 = 0x6003" "kpdir_rev demo_waiting = 0"
  by (simp_all add: demo_waiting_def demo_table_def demo_ramdisk_def demo_fs_def demo_objects_def idev_fields kp_state.defs pde_of_def demo_sched_def)

lemma demo_waiting_mailbox: "mailbox_ok demo_waiting 4" "mailbox demo_waiting 4 = []"
  using demo_mailbox [of 4] by (simp_all add: demo_waiting_def mailbox_ok_def mailbox_def)

theorem ipc_send_wakes_receiver_witness:
  "returns (ipc_send demo_waiting 1 4 0x20000) (\<lambda>(err, t). err = 0 \<and> sched_inv t [1, 2, 4])"
proof -
  have inj: "inj_on (\<lambda>i. 0x21000 + of_nat i :: u32) {..<20}"
    using demo_table_inj by (auto simp: inj_on_def)
  have "returns (ipc_send demo_waiting 1 4 0x20000) (\<lambda>(err, t). err = 0 \<and> mailbox t 4 = [] \<and> sched_inv t ([1, 2] @ [4])
    \<and> p_status (procs t 4) = PS_READY \<and> p_msg_waitbuf (procs t 4) = 0
    \<and> map (\<lambda>i. pmem t (0x21000 + of_nat i)) [0..<20]
      = bytes_of_u32 (p_pid (procs demo_waiting 1)) @ drop 4 (map (\<lambda>i. pmem demo_waiting (0x20000 + of_nat i)) [0..<20]))"
  proof (rule ipc_send_wakes_receiver [where w = "0x21000" and f = "\<lambda>i. 0x20000 + of_nat i"], goal_cases)
    case 12
    show ?case by (rule kread_bytes_mapped [OF demo_waiting_kmapped(1)])
  next
    case 1
    show ?case by (rule demo_waiting_sched)
  next
    case 18
    show ?case by (simp add: demo_waiting_vm bisset_def)
  qed (simp_all add: demo_waiting_mailbox demo_waiting_kmapped demo_table_inj inj demo_waiting_vm is_proc_def,
    simp_all add: demo_waiting_def demo_table_simps demo_proc_def PAGE_OFFSET_def)
  then show ?thesis by (auto elim!: returns_mono)
qed

end
