(* ===== verification/Kos_Syscall.thy ===== *)
theory Kos_Syscall
  imports Kos_Ipc
begin

text \<open>
  The system call gate (\<^verbatim>\<open>kernel/syscall.c\<close>): the table of functions, registration, the dispatch from the saved
  registers to every system call of the other theories, the registrations the components make at boot
  (\<^verbatim>\<open>pm.c\<close>, \<^verbatim>\<open>ipc.c\<close>, \<^verbatim>\<open>loader.c\<close>, \<^verbatim>\<open>fs/fs.c\<close>, \<^verbatim>\<open>kmain.c\<close>), and the two system calls of \<^verbatim>\<open>kmain.c\<close>. The locale
  \<^verbatim>\<open>kernel_frame\<close> says what no system call changes; with the table as the view it gives the type safety of the
  dispatch.
\<close>

section \<open>The table of system calls\<close>

text \<open>
  The functions that are registered as system calls; a null pointer is \<open>None\<close> in the table.
\<close>

datatype syscall_func =
    Sys_test | Sys_exit | Sys_yield | Sys_getpid | Sys_waitpid | Sys_getcmdline | Sys_fork | Sys_sbrk
  | Sys_send | Sys_receive | Sys_answer | Sys_uname | Sys_open | Sys_close | Sys_readwrite | Sys_isatty
  | Sys_stat | Sys_getcwd | Sys_readdir | Sys_open_std | Sys_execute

record syscall_data =
  sd_func :: "syscall_func option"
  sd_args :: u32

record sc_state = kp_state +
  syscalls :: "u32 \<Rightarrow> syscall_data"

record syscall_info =
  info_regs :: u32
  info_proc :: ptr

abbreviation (input) NUM_SYSCALLS :: u32 where "NUM_SYSCALLS \<equiv> 35"
abbreviation (input) SC_MAX_ARGS :: u32 where "SC_MAX_ARGS \<equiv> 3"
abbreviation (input) SC_EXIT :: u32 where "SC_EXIT \<equiv> 1"
abbreviation (input) SC_FORK :: u32 where "SC_FORK \<equiv> 4"
abbreviation (input) SC_GETPID :: u32 where "SC_GETPID \<equiv> 6"
abbreviation (input) SC_OPEN :: u32 where "SC_OPEN \<equiv> 7"
abbreviation (input) SC_CLOSE :: u32 where "SC_CLOSE \<equiv> 8"
abbreviation (input) SC_WRITE :: u32 where "SC_WRITE \<equiv> 10"
abbreviation (input) SC_STAT :: u32 where "SC_STAT \<equiv> 17"
abbreviation (input) SC_ISATTY :: u32 where "SC_ISATTY \<equiv> 18"
abbreviation (input) SC_SBRK :: u32 where "SC_SBRK \<equiv> 22"
abbreviation (input) SC_ANSWER :: u32 where "SC_ANSWER \<equiv> 23"
abbreviation (input) SC_OPEN_STD :: u32 where "SC_OPEN_STD \<equiv> 24"
abbreviation (input) SC_YIELD :: u32 where "SC_YIELD \<equiv> 25"
abbreviation (input) SC_SEND :: u32 where "SC_SEND \<equiv> 27"
abbreviation (input) SC_RECV :: u32 where "SC_RECV \<equiv> 28"
abbreviation (input) SC_WAITPID :: u32 where "SC_WAITPID \<equiv> 29"
abbreviation (input) SC_EXECUTE :: u32 where "SC_EXECUTE \<equiv> 30"
abbreviation (input) SC_GETCMDLINE :: u32 where "SC_GETCMDLINE \<equiv> 31"
abbreviation (input) SC_GETCWD :: u32 where "SC_GETCWD \<equiv> 32"
abbreviation (input) SC_READDIR :: u32 where "SC_READDIR \<equiv> 33"
abbreviation (input) SC_UNAME :: u32 where "SC_UNAME \<equiv> 34"

text \<open>The table the kernel image starts with: \<^verbatim>\<open>sys_test\<close> is entry 0, the others are empty.\<close>

definition initial_syscalls :: "u32 \<Rightarrow> syscall_data" where
  "initial_syscalls = (\<lambda>_. \<lparr>sd_func = None, sd_args = 0\<rparr>)(0 := \<lparr>sd_func = Some Sys_test, sd_args = 0\<rparr>)"

definition syscall_register :: "'a sc_state_scheme \<Rightarrow> u32 \<Rightarrow> syscall_func \<Rightarrow> u32 \<Rightarrow> 'a sc_state_scheme res" where
  "syscall_register s num func nargs =
     rbind (kassert (num < NUM_SYSCALLS)) (\<lambda>_.
     rbind (kassert (sd_func (syscalls s num) = None)) (\<lambda>_.
     rbind (kassert (nargs \<le> SC_MAX_ARGS)) (\<lambda>_.
       Inr (s\<lparr>syscalls := (syscalls s)(num := \<lparr>sd_func = Some func, sd_args = nargs\<rparr>)\<rparr>))))"

text \<open>Registering several functions, one after the other.\<close>

fun register_all :: "'a sc_state_scheme \<Rightarrow> (u32 \<times> syscall_func \<times> u32) list \<Rightarrow> 'a sc_state_scheme res" where
  "register_all s [] = Inr s"
| "register_all s ((num, func, nargs) # rs) = rbind (syscall_register s num func nargs) (\<lambda>s. register_all s rs)"

section \<open>kmain.c: two system calls\<close>

definition sys_answer :: "'a sc_state_scheme \<Rightarrow> u32 \<times> 'a sc_state_scheme" where
  "sys_answer s = (42, s)"

text \<open>\<^verbatim>\<open>struct utsname\<close> has five fields of 64 bytes. The names of the build come from a generated header.\<close>

abbreviation (input) SIZEOF_UTSNAME :: u32 where "SIZEOF_UTSNAME \<equiv> 320"

definition safe_strncpy :: "'a um_state_scheme \<Rightarrow> u32 \<Rightarrow> string \<Rightarrow> u32 \<Rightarrow> 'a um_state_scheme res" where
  "safe_strncpy s d str l = rbind (kstrncpy s d str (unat l)) (\<lambda>s. kwrite s (d + (l - 1)) 0)"

definition sys_uname :: "string \<Rightarrow> string \<Rightarrow> 'a sc_state_scheme \<Rightarrow> u32 \<Rightarrow> u32 \<Rightarrow> (int \<times> 'a sc_state_scheme) res" where
  "sys_uname kos_version kos_buildname s buf flen =
     (if buf = 0 \<or> flen = 0 then Inr (- EINVAL, s)
      else rbind (sc_pdir s) (\<lambda>pdir.
           rbind (vm_user_to_kernel s pdir buf SIZEOF_UTSNAME) (\<lambda>(kbuf, s).
             if kbuf = 0 then Inr (- ENOMEM, s)
             else rbind (safe_strncpy s kbuf ''kOS'' flen) (\<lambda>s.
                  rbind (safe_strncpy s (kbuf + 64) ''localhost'' flen) (\<lambda>s.
                  rbind (safe_strncpy s (kbuf + 128) kos_buildname flen) (\<lambda>s.
                  rbind (safe_strncpy s (kbuf + 192) kos_version flen) (\<lambda>s.
                  rbind (safe_strncpy s (kbuf + 256) ''i386'' flen) (\<lambda>s.
                  rbind (km_free_addr s kbuf SIZEOF_UTSNAME) (\<lambda>s. Inr (0, s))))))))))"

section \<open>Calling through the table\<close>

text \<open>The number of arguments each function takes in its C definition.\<close>

definition func_arity :: "syscall_func \<Rightarrow> nat" where
  "func_arity f =
     (case f of
        Sys_test \<Rightarrow> 0 | Sys_exit \<Rightarrow> 1 | Sys_yield \<Rightarrow> 0 | Sys_getpid \<Rightarrow> 0 | Sys_waitpid \<Rightarrow> 3 | Sys_getcmdline \<Rightarrow> 0
      | Sys_fork \<Rightarrow> 0 | Sys_sbrk \<Rightarrow> 1 | Sys_send \<Rightarrow> 2 | Sys_receive \<Rightarrow> 2 | Sys_answer \<Rightarrow> 0 | Sys_uname \<Rightarrow> 2
      | Sys_open \<Rightarrow> 2 | Sys_close \<Rightarrow> 1 | Sys_readwrite \<Rightarrow> 3 | Sys_isatty \<Rightarrow> 1 | Sys_stat \<Rightarrow> 2 | Sys_getcwd \<Rightarrow> 2
      | Sys_readdir \<Rightarrow> 3 | Sys_open_std \<Rightarrow> 0 | Sys_execute \<Rightarrow> 2)"

text \<open>\<^verbatim>\<open>sys_sbrk\<close> works on the heap limits of the calling process.\<close>

definition proc_sbrk :: "'a pm_state_scheme \<Rightarrow> u32 \<Rightarrow> (u32 \<times> 'a pm_state_scheme) res" where
  "proc_sbrk s incr =
     rbind (get_proc s (syscall_proc s)) (\<lambda>c.
     rbind (get_as s (p_as c)) (\<lambda>a.
     rbind (sys_sbrk s \<lparr>hp_pdir = as_pdir a, brk_page = p_brk_page c, mem_brk = p_mem_brk c\<rparr> incr) (\<lambda>(r, h, s).
     rbind (upd_proc s (syscall_proc s) (\<lambda>c. c\<lparr>p_mem_brk := mem_brk h, p_brk_page := brk_page h\<rparr>)) (\<lambda>s.
       Inr (r, s)))))"


text \<open>
  The build's names, the driver tables, what new heap memory holds: what the functions need beside the state.
\<close>

record 's kernel_env =
  env_drivers :: "'s drivers"
  env_heap :: "nat \<Rightarrow> u8"
  env_version :: string
  env_buildname :: string

definition int_result :: "(int \<times> 's) res \<Rightarrow> (u32 \<times> 's) res" where
  "int_result r = rbind r (\<lambda>(x, s). Inr (word_of_int x, s))"

text \<open>
  The call of a registered function with the arguments of the system call. A function that takes more
  arguments than it is called with reads what happens to be on the stack.
\<close>

definition call_func ::
    "'a sc_state_scheme kernel_env \<Rightarrow> 'a sc_state_scheme \<Rightarrow> syscall_func \<Rightarrow> u32 list \<Rightarrow> (u32 \<times> 'a sc_state_scheme) res" where
  "call_func E s f args =
     (if length args < func_arity f then Inl Bad_access
      else case f of
        Sys_test \<Rightarrow> Inr (0, s)
      | Sys_exit \<Rightarrow> sys_exit cleanup_of s (args ! 0)
      | Sys_yield \<Rightarrow> sys_yield s
      | Sys_getpid \<Rightarrow> rbind (sys_getpid s) (\<lambda>pid. Inr (pid, s))
      | Sys_waitpid \<Rightarrow> sys_waitpid s (args ! 0)
      | Sys_getcmdline \<Rightarrow> sys_getcmdline s
      | Sys_fork \<Rightarrow> sys_fork (env_drivers E) (env_heap E) s
      | Sys_sbrk \<Rightarrow> proc_sbrk s (args ! 0)
      | Sys_send \<Rightarrow> int_result (sys_send s (args ! 0) (args ! 1))
      | Sys_receive \<Rightarrow> int_result (sys_receive s (args ! 0) (args ! 1))
      | Sys_answer \<Rightarrow> Inr (sys_answer s)
      | Sys_uname \<Rightarrow> int_result (sys_uname (env_version E) (env_buildname E) s (args ! 0) (args ! 1))
      | Sys_open \<Rightarrow> int_result (sys_open (env_drivers E) s (args ! 0) (args ! 1))
      | Sys_close \<Rightarrow> int_result (sys_close (env_drivers E) s (args ! 0))
      | Sys_readwrite \<Rightarrow> int_result (sys_readwrite (env_drivers E) s (args ! 0) (args ! 1) (args ! 2))
      | Sys_isatty \<Rightarrow> int_result (rbind (sys_isatty s (args ! 0)) (\<lambda>r. Inr (r, s)))
      | Sys_stat \<Rightarrow> int_result (Inr (sys_stat s (args ! 0) (args ! 1), s))
      | Sys_getcwd \<Rightarrow> sys_getcwd s (args ! 0) (args ! 1)
      | Sys_readdir \<Rightarrow> int_result (sys_readdir (env_drivers E) s (args ! 0) (args ! 1) (args ! 2))
      | Sys_open_std \<Rightarrow> int_result (sys_open_std (env_drivers E) s (p_tty s (syscall_proc s)))
      | Sys_execute \<Rightarrow> sys_execute (env_drivers E) (env_heap E) s (args ! 0) (args ! 1))"

abbreviation (input) REG_EBX :: u32 where "REG_EBX \<equiv> 16"
abbreviation (input) REG_EDX :: u32 where "REG_EDX \<equiv> 20"
abbreviation (input) REG_ECX :: u32 where "REG_ECX \<equiv> 24"

definition syscall_execute ::
    "'a sc_state_scheme kernel_env \<Rightarrow> 'a sc_state_scheme \<Rightarrow> syscall_info \<Rightarrow> 'a sc_state_scheme res" where
  "syscall_execute E s info =
     rbind (kread_u32 s (info_regs info + REG_EAX)) (\<lambda>eax.
     rbind (kread_u32 s (info_regs info + REG_EBX)) (\<lambda>arg1.
     rbind (kread_u32 s (info_regs info + REG_ECX)) (\<lambda>arg2.
     rbind (kread_u32 s (info_regs info + REG_EDX)) (\<lambda>arg3.
       if eax \<ge> NUM_SYSCALLS then pm_destroy cleanup_of s (info_proc info)
       else let s = s\<lparr>syscall_proc := info_proc info\<rparr>
       in rbind (upd_proc s (syscall_proc s) (\<lambda>c. c\<lparr>p_sc_regs := info_regs info\<rparr>)) (\<lambda>s.
          case sd_func (syscalls s eax) of
            None \<Rightarrow> pm_destroy cleanup_of s (syscall_proc s)
          | Some func \<Rightarrow>
              let args = sd_args (syscalls s eax)
              in rbind (if args = 0 then call_func E s func []
                        else if args = 1 then call_func E s func [arg1]
                        else if args = 2 then call_func E s func [arg1, arg2]
                        else if args = 3 then call_func E s func [arg1, arg2, arg3]
                        else Inl Panic) (\<lambda>(result, s).
                   kwrite_u32 s (info_regs info + REG_EAX) result))))))"

text \<open>The interrupt gives the address of the saved registers; the information block is freed afterwards.\<close>

definition handle_syscall ::
    "'a sc_state_scheme kernel_env \<Rightarrow> 'a sc_state_scheme \<Rightarrow> u32 \<Rightarrow> 'a sc_state_scheme res" where
  "handle_syscall E s regs =
     rbind (kmalloc s 8) (\<lambda>(p, s).
     rbind (syscall_execute E s \<lparr>info_regs = regs, info_proc = cur_proc s\<rparr>) (\<lambda>s. Inr (kfree s p)))"

section \<open>Registration at boot\<close>

definition init_pm :: "'a sc_state_scheme kernel_env \<Rightarrow> u32 \<Rightarrow> 'a sc_state_scheme \<Rightarrow> 'a sc_state_scheme res" where
  "init_pm E idle s =
     (let s = s\<lparr>procs := (\<lambda>p. if 1 \<le> p \<and> p \<le> MAX_PROCS
                             then (procs s p)\<lparr>p_pid := of_nat (p - 1), p_status := PS_SLOT_FREE\<rparr> else procs s p),
                plist_head := NULL, plist_tail := NULL\<rparr>
      in rbind (register_all s [(SC_EXIT, Sys_exit, 1), (SC_YIELD, Sys_yield, 0), (SC_GETPID, Sys_getpid, 0),
                  (SC_WAITPID, Sys_waitpid, 3), (SC_GETCMDLINE, Sys_getcmdline, 0), (SC_FORK, Sys_fork, 0)]) (\<lambda>s.
         rbind (pm_create (env_drivers E) (env_heap E) s idle ''idle'' PM_KERNEL 0 PS_BLOCKED) (\<lambda>(idle_proc, s).
         rbind (pm_activate s idle_proc) (\<lambda>s.
           Inr (s\<lparr>cur_proc := idle_proc\<rparr>)))))"

definition init_timer :: "'a pm_state_scheme \<Rightarrow> 'a pm_state_scheme" where
  "init_timer s = s\<lparr>timer_ticks := 0, next_wakeup := 0xFFFFFFFFFFFFFFFF\<rparr>"

definition init_ipc :: "'a sc_state_scheme \<Rightarrow> 'a sc_state_scheme res" where
  "init_ipc s = register_all s [(SC_SEND, Sys_send, 2), (SC_RECV, Sys_receive, 2)]"

definition init_loader :: "'a sc_state_scheme \<Rightarrow> 'a sc_state_scheme res" where
  "init_loader s = syscall_register s SC_EXECUTE Sys_execute 2"

definition init_fs :: "'a sc_state_scheme \<Rightarrow> 'a sc_state_scheme res" where
  "init_fs s =
     register_all s [(SC_OPEN, Sys_open, 2), (SC_CLOSE, Sys_close, 1), (SC_READ, Sys_readwrite, 3),
       (SC_WRITE, Sys_readwrite, 3), (SC_ISATTY, Sys_isatty, 1), (SC_STAT, Sys_stat, 2), (SC_GETCWD, Sys_getcwd, 2),
       (SC_READDIR, Sys_readdir, 3), (SC_OPEN_STD, Sys_open_std, 0)]"

text \<open>
  The order in which \<^verbatim>\<open>kmain\<close> and, in the first process, \<^verbatim>\<open>kinit\<close> set up the components that register
  system calls; \<^verbatim>\<open>init_paging\<close> ends with the registration of \<^verbatim>\<open>sys_sbrk\<close>.
\<close>

definition boot_syscalls ::
    "'a sc_state_scheme kernel_env \<Rightarrow> u32 \<Rightarrow> 'a sc_state_scheme \<Rightarrow> 'a sc_state_scheme res" where
  "boot_syscalls E idle s =
     rbind (syscall_register s SC_SBRK Sys_sbrk 1) (\<lambda>s.
     rbind (init_pm E idle s) (\<lambda>s.
     rbind (init_ipc (init_timer s)) (\<lambda>s.
     rbind (init_loader s) (\<lambda>s.
     rbind (register_all s [(SC_ANSWER, Sys_answer, 0), (SC_UNAME, Sys_uname, 2)]) init_fs))))"

section \<open>What no system call changes\<close>

text \<open>
  A view of the state that looks at none of the members the kernel's components write. The drivers' functions
  keep it, too.
\<close>

definition drivers_keep_all :: "('s \<Rightarrow> 'v) \<Rightarrow> 's drivers \<Rightarrow> bool" where
  "drivers_keep_all view D \<longleftrightarrow> drivers_keep view D
   \<and> (\<forall>t f s file r s'. fop_close (fops_of D t) = Some f \<longrightarrow> f s file = Inr (r, s') \<longrightarrow> view s' = view s)
   \<and> (\<forall>t f s a buf n off r s'. fop_write (fops_of D t) = Some f \<longrightarrow> f s a buf n off = Inr (r, s') \<longrightarrow> view s' = view s)
   \<and> (\<forall>t f s ino i r s'. iop_readdir (iops_of D t) = Some f \<longrightarrow> f s ino i = Inr (r, s') \<longrightarrow> view s' = view s)"

locale kernel_frame = fs_frame view for view :: "'a kp_state_scheme \<Rightarrow> 'v" +
  assumes view_procs [simp]: "view (s\<lparr>procs := pr\<rparr>) = view s"
    and view_plist_head [simp]: "view (s\<lparr>plist_head := p\<rparr>) = view s"
    and view_plist_tail [simp]: "view (s\<lparr>plist_tail := p\<rparr>) = view s"
    and view_cur_proc [simp]: "view (s\<lparr>cur_proc := p\<rparr>) = view s"
    and view_next_pid [simp]: "view (s\<lparr>next_pid := n\<rparr>) = view s"
    and view_syscall_proc [simp]: "view (s\<lparr>syscall_proc := p\<rparr>) = view s"
    and view_timer_ticks [simp]: "view (s\<lparr>timer_ticks := k\<rparr>) = view s"
    and view_next_wakeup [simp]: "view (s\<lparr>next_wakeup := k\<rparr>) = view s"
    and view_lists [simp]: "view (s\<lparr>lists := l\<rparr>) = view s"
    and view_p_tty [simp]: "view (s\<lparr>p_tty := y\<rparr>) = view s"
    and view_p_cleanup [simp]: "view (s\<lparr>p_cleanup := c\<rparr>) = view s"
    and view_p_ldata [simp]: "view (s\<lparr>p_ldata := c\<rparr>) = view s"
    and view_segments [simp]: "view (s\<lparr>segments := g\<rparr>) = view s"
begin

lemma view_upd_proc: "upd_proc s p f = Inr s' \<Longrightarrow> view s' = view s"
  by (auto simp: upd_proc_def split: if_splits)

lemma view_newpid: "newpid s = (a, s') \<Longrightarrow> view s' = view s"
  by (auto simp: newpid_def)

lemma view_activate: "pm_activate s p = Inr s' \<Longrightarrow> view s' = view s"
  unfolding pm_activate_def Let_def by (auto elim!: resE dest!: view_upd_proc split: if_splits)

lemma view_schedule: "pm_schedule s = Inr s' \<Longrightarrow> view s' = view s"
  unfolding pm_schedule_def Let_def by (auto elim!: resE dest!: view_upd_proc)

lemma view_deactivate: "pm_deactivate s p = Inr s' \<Longrightarrow> view s' = view s"
  unfolding pm_deactivate_def Let_def by (auto elim!: resE dest!: view_upd_proc view_schedule)

lemma view_block: "pm_block s p b = Inr (r, s') \<Longrightarrow> view s' = view s"
  unfolding pm_block_def Let_def by (auto elim!: resE dest!: view_upd_proc view_deactivate)

lemma view_unblock: "pm_unblock s p = Inr s' \<Longrightarrow> view s' = view s"
  unfolding pm_unblock_def Let_def by (auto elim!: resE dest!: view_upd_proc view_activate)

lemma view_late_result: "sc_late_result s p r = Inr s' \<Longrightarrow> view s' = view s"
  unfolding sc_late_result_def by (auto elim!: resE dest!: view_frame)

lemmas view_pm = view_upd_proc view_newpid view_activate view_schedule view_deactivate view_block view_unblock view_late_result
  view_new view_kmalloc view_destroy_addrspace view_create_addrspace view_clone_addrspace view_frame

lemma view_wake_procs: "wake_procs s ps = Inr s' \<Longrightarrow> view s' = view s"
  by (induction ps arbitrary: s) (auto simp: Let_def elim!: resE dest!: view_pm split: if_splits)

lemma view_timer_irq: "timer_irq s = Inr s' \<Longrightarrow> view s' = view s"
  unfolding timer_irq_def pm_update_def Let_def by (auto elim!: resE dest!: view_pm view_wake_procs split: if_splits)

lemma view_kstrdup: "kstrdup s str = Inr (p, s') \<Longrightarrow> view s' = view s"
  unfolding kstrdup_def by (auto elim!: resE dest!: view_pm)

lemma view_init_proc_fs:
  assumes D: "drivers_keep view D"
  shows "init_proc_fs D s p q = Inr s' \<Longrightarrow> view s' = view s"
  unfolding init_proc_fs_def Let_def by (auto elim!: resE dest!: view_pm view_change_dir [OF D] split: prod.splits)

lemma view_init_proc_stacks: "init_proc_stacks s p e m = Inr s' \<Longrightarrow> view s' = view s"
  unfolding init_proc_stacks_def by (auto elim!: resE dest!: view_pm split: prod.splits)

lemma view_init_proc:
  assumes D: "drivers_keep view D"
  shows "init_proc D mem s p e c m q st = Inr s' \<Longrightarrow> view s' = view s"
  unfolding init_proc_def Let_def
  by (auto elim!: resE dest!: view_kstrdup view_init_proc_fs [OF D] view_init_proc_stacks view_pm split: prod.splits)

lemma view_pm_create: "drivers_keep view D \<Longrightarrow> pm_create D mem s e c m q st = Inr (p, s') \<Longrightarrow> view s' = view s"
  unfolding pm_create_def Let_def by (auto elim!: resE dest!: view_init_proc)

lemma view_pm_fork:
  assumes D: "drivers_keep view D"
  shows "pm_fork D mem s p sp = Inr (c, s') \<Longrightarrow> view s' = view s"
  unfolding pm_fork_def Let_def
  by (auto elim!: resE dest!: view_kstrdup view_clone_procdata [OF D] view_pm split: prod.splits)

lemma view_elf_mem:
  "elf32_alloc_mem s d b is = Inr (ok, s') \<Longrightarrow> view s' = view s" "view (elf32_free_mem s d b is) = view s"
proof -
  show "elf32_alloc_mem s d b is = Inr (ok, s') \<Longrightarrow> view s' = view s"
    by (induction "is" arbitrary: s) (auto elim!: resE dest!: view_pm split: prod.splits)
  show "view (elf32_free_mem s d b is) = view s"
    by (induction "is" arbitrary: s) (auto dest!: view_resolveD split: prod.splits)
qed

lemma view_elf_pages:
  "elf32_copy_pages s d b src is = Inr s' \<Longrightarrow> view s' = view s" "elf32_zero_pages s d b is = Inr s' \<Longrightarrow> view s' = view s"
proof -
  show "elf32_copy_pages s d b src is = Inr s' \<Longrightarrow> view s' = view s"
    by (induction "is" arbitrary: s src) (auto elim!: resE dest!: view_pm split: prod.splits)
  show "elf32_zero_pages s d b is = Inr s' \<Longrightarrow> view s' = view s"
    by (induction "is" arbitrary: s) (auto elim!: resE dest!: view_pm split: prod.splits)
qed

lemma view_fill_segment: "elf32_fill_segment s d ph m = Inr s' \<Longrightarrow> view s' = view s"
  unfolding elf32_fill_segment_def Let_def
  by (auto elim!: resE dest!: view_elf_pages view_pm split: prod.splits)

lemma view_map_segment: "elf32_map_segment s d ph m l = Inr (ok, s') \<Longrightarrow> view s' = view s"
  unfolding elf32_map_segment_def Let_def
  by (auto elim!: resE dest!: view_elf_mem(1) view_fill_segment view_pm)

lemma view_load_segments: "elf32_load_segments n s p m ph i = Inr (ok, s') \<Longrightarrow> view s' = view s"
proof (induction n arbitrary: s ph i)
  case 0
  then show ?case by (auto simp: elf32_load_segments.simps [of 0] elim!: resE)
next
  case (Suc n)
  from Suc.prems show ?case
    unfolding elf32_load_segments.simps [of "Suc n"] nat.case
    by (auto elim!: resE dest!: view_map_segment view_upd_proc Suc.IH split: prod.splits)
qed

lemma view_segments_freed: "free_segments s d es = Inr s' \<Longrightarrow> view s' = view s"
  by (induction es arbitrary: s) (auto simp: view_elf_mem elim!: resE)

lemma view_cleanup: "cleanup_of f s p = Inr s' \<Longrightarrow> view s' = view s"
  unfolding cleanup_of_def elf32_cleanup_def by (auto elim!: resE dest!: view_segments_freed split: if_splits)

lemma view_pm_destroy: "pm_destroy cleanup_of s p = Inr s' \<Longrightarrow> view s' = view s"
  unfolding pm_destroy_def Let_def by (auto elim!: resE dest!: view_cleanup view_pm)

lemma view_elf32_exec:
  assumes D: "drivers_keep view D"
  shows "elf32_exec D heap s mem args q = Inr (pid, s') \<Longrightarrow> view s' = view s"
  unfolding elf32_exec_def Let_def
  by (auto elim!: resE dest!: view_pm_create [OF D] view_load_segments view_pm_destroy view_pm split: prod.splits)

lemma view_exec_mem:
  assumes D: "drivers_keep view D"
  shows "exec_mem D heap s mem args q = Inr (pid, s') \<Longrightarrow> view s' = view s"
  unfolding exec_mem_def by (auto elim!: resE dest!: view_elf32_exec [OF D] split: exec_type.splits)

lemma view_load_file:
  assumes D: "drivers_keep view D"
  shows "load_file_to_mem D s f = Inr (n, m, s') \<Longrightarrow> view s' = view s"
  unfolding load_file_to_mem_def
  by (auto elim!: resE dest!: view_lookup [OF D] view_open [OF D] view_read [OF D] view_pm)

lemma view_exec_file:
  assumes D: "drivers_keep view D"
  shows "exec_file D heap s f a q = Inr (pid, s') \<Longrightarrow> view s' = view s"
  unfolding exec_file_def by (auto elim!: resE dest!: view_exec_mem [OF D] view_load_file [OF D])

text \<open>The system calls.\<close>

lemma view_vfs_close: "drivers_keep_all view D \<Longrightarrow> vfs_close D s f = Inr (r, s') \<Longrightarrow> view s' = view s"
  unfolding vfs_close_def file_op_def drivers_keep_all_def
  by (auto elim!: resE dest!: view_upd split: option.splits if_splits)

lemma view_vfs_write: "drivers_keep_all view D \<Longrightarrow> vfs_write D s f b n off = Inr (r, s') \<Longrightarrow> view s' = view s"
  unfolding vfs_write_def file_op_def drivers_keep_all_def
  by (auto elim!: resE dest!: view_upd split: option.splits if_splits)

lemma view_vfs_readdir: "drivers_keep_all view D \<Longrightarrow> vfs_readdir D s ino i = Inr (r, s') \<Longrightarrow> view s' = view s"
  unfolding vfs_readdir_def inode_op_def drivers_keep_all_def
  by (auto elim!: resE dest!: view_upd split: option.splits if_splits)

lemma view_newfd: "newfd s p = Inr (fd, s') \<Longrightarrow> view s' = view s"
  unfolding newfd_def by (auto elim!: resE split: option.splits)

lemma view_map_str: "map_string s v = Inr (a, l, c, s') \<Longrightarrow> view s' = view s"
  unfolding map_string_def by (auto elim!: resE dest!: view_frame)

lemma view_kstrncpy: "kstrncpy s d str n = Inr s' \<Longrightarrow> view s' = view s" "safe_strncpy s d str l = Inr s' \<Longrightarrow> view s' = view s"
  unfolding kstrncpy_def safe_strncpy_def by (auto elim!: resE dest!: view_frame view_kwrite)

lemma view_open_slot:
  assumes D: "drivers_keep view D"
  shows "open_slot D s i ino fl = Inr (n, s') \<Longrightarrow> view s' = view s"
  unfolding open_slot_def by (auto elim!: resE dest!: view_open [OF D])

lemma view_ipc:
  "send s p m = Inr (e, s') \<Longrightarrow> view s' = view s" "receive s p m = Inr (e, s') \<Longrightarrow> view s' = view s"
  unfolding send_def receive_def by (auto elim!: resE dest!: view_pm)

lemma view_ipc_send: "ipc_send s p q m = Inr (e, s') \<Longrightarrow> view s' = view s"
  unfolding ipc_send_def by (auto elim!: resE dest!: view_ipc view_pm)

lemma view_ipc_receive: "ipc_receive s p m b = Inr (e, s') \<Longrightarrow> view s' = view s"
  unfolding ipc_receive_def by (auto elim!: resE dest!: view_ipc view_pm split: if_splits)

lemma view_increase_heap: "increase_heap_loop n s p = Inr (b, p', s') \<Longrightarrow> view s' = view s"
  by (induction n arbitrary: s p) (auto elim!: resE dest!: view_pm split: prod.splits)

lemma view_sbrk: "proc_sbrk s i = Inr (r, s') \<Longrightarrow> view s' = view s"
  unfolding proc_sbrk_def sys_sbrk_def increase_heap_def Let_def
  by (auto elim!: resE dest!: view_pm view_increase_heap split: if_splits prod.splits)

lemma view_pm_calls:
  "sys_exit cleanup_of s st = Inr (r, s') \<Longrightarrow> view s' = view s" "sys_yield s = Inr (r, s') \<Longrightarrow> view s' = view s"
  "sys_waitpid s pid = Inr (r, s') \<Longrightarrow> view s' = view s" "sys_getcmdline s = Inr (r, s') \<Longrightarrow> view s' = view s"
  unfolding sys_exit_def sys_yield_def sys_waitpid_def sys_getcmdline_def Let_def
  by (auto elim!: resE dest!: view_pm_destroy view_pm split: prod.splits option.splits if_splits)

lemma view_fork:
  assumes D: "drivers_keep view D"
  shows "sys_fork D heap s = Inr (r, s') \<Longrightarrow> view s' = view s"
  unfolding sys_fork_def by (auto elim!: resE dest!: view_pm_fork [OF D] view_pm)

lemma view_fs_calls:
  assumes A: "drivers_keep_all view D"
  shows "sys_open D s a b = Inr (r, s') \<Longrightarrow> view s' = view s" "sys_close D s a = Inr (r, s') \<Longrightarrow> view s' = view s"
    "sys_readwrite D s a b c = Inr (r, s') \<Longrightarrow> view s' = view s" "sys_readdir D s a b c = Inr (r, s') \<Longrightarrow> view s' = view s"
    "sys_open_std D s tty = Inr (r, s') \<Longrightarrow> view s' = view s" "sys_execute D heap s a b = Inr (q, s') \<Longrightarrow> view s' = view s"
proof -
  have D: "drivers_keep view D" using A by (simp add: drivers_keep_all_def)
  note d = view_lookup [OF D] view_open [OF D] view_read [OF D] view_vfs_close [OF A] view_vfs_write [OF A]
    view_vfs_readdir [OF A] view_newfd view_map_str view_kstrncpy view_open_slot [OF D] view_exec_file [OF D] view_pm
  show "sys_open D s a b = Inr (r, s') \<Longrightarrow> view s' = view s" unfolding sys_open_def by (auto elim!: resE dest!: d)
  show "sys_close D s a = Inr (r, s') \<Longrightarrow> view s' = view s" unfolding sys_close_def by (auto elim!: resE dest!: d)
  show "sys_readwrite D s a b c = Inr (r, s') \<Longrightarrow> view s' = view s"
    unfolding sys_readwrite_def by (auto elim!: resE dest!: d split: if_splits)
  show "sys_readdir D s a b c = Inr (r, s') \<Longrightarrow> view s' = view s"
    unfolding sys_readdir_def by (auto elim!: resE dest!: d split: if_splits)
  show "sys_open_std D s tty = Inr (r, s') \<Longrightarrow> view s' = view s"
    unfolding sys_open_std_def by (auto elim!: resE dest!: d split: option.splits)
  show "sys_execute D heap s a b = Inr (q, s') \<Longrightarrow> view s' = view s" unfolding sys_execute_def by (auto elim!: resE dest!: d)
qed

lemma view_memory_calls:
  "sys_send s a b = Inr (r, s') \<Longrightarrow> view s' = view s" "sys_receive s a b = Inr (r, s') \<Longrightarrow> view s' = view s"
  "sys_getcwd s a b = Inr (q, s') \<Longrightarrow> view s' = view s"
  unfolding sys_send_def sys_receive_def sys_getcwd_def Let_def
  by (auto elim!: resE dest!: view_ipc_send view_ipc_receive view_kstrncpy view_kwrite view_pm)

end

section \<open>The table is fixed after boot\<close>

interpretation scv: kernel_frame "syscalls :: 'a sc_state_scheme \<Rightarrow> _"
  by unfold_locales simp_all

lemma call_func_table:
  assumes A: "drivers_keep_all syscalls (env_drivers E)"
  shows "call_func E s f args = Inr (r, s') \<Longrightarrow> syscalls s' = syscalls s"
proof -
  have D: "drivers_keep syscalls (env_drivers E)" using A by (simp add: drivers_keep_all_def)
  have u: "sys_uname v b s a c = Inr (x, s') \<Longrightarrow> syscalls s' = syscalls s" for v b a c x
    unfolding sys_uname_def by (auto elim!: resE dest!: scv.view_kstrncpy scv.view_pm)
  note d = scv.view_pm_calls scv.view_fork [OF D] scv.view_fs_calls [OF A] scv.view_memory_calls scv.view_sbrk u
  assume "call_func E s f args = Inr (r, s')"
  then show ?thesis unfolding call_func_def int_result_def
    by (cases f) (auto simp: sys_answer_def elim!: resE dest!: d split: if_splits)
qed

lemma syscall_execute_table:
  assumes A: "drivers_keep_all syscalls (env_drivers E)"
  shows "syscall_execute E s info = Inr s' \<Longrightarrow> syscalls s' = syscalls s"
  unfolding syscall_execute_def Let_def
  by (auto elim!: resE dest!: call_func_table [OF A] scv.view_pm_destroy scv.view_pm split: option.splits if_splits)

lemma handle_syscall_table:
  assumes A: "drivers_keep_all syscalls (env_drivers E)"
  shows "handle_syscall E s regs = Inr s' \<Longrightarrow> syscalls s' = syscalls s"
  unfolding handle_syscall_def
  by (auto elim!: resE dest!: syscall_execute_table [OF A] scv.view_pm)

text \<open>Every function is registered with the number of arguments it takes.\<close>

definition sc_typed :: "(u32 \<Rightarrow> syscall_data) \<Rightarrow> bool" where
  "sc_typed t \<longleftrightarrow>
     list_all (\<lambda>n. case sd_func (t (of_nat n)) of None \<Rightarrow> True | Some f \<Rightarrow> unat (sd_args (t (of_nat n))) = func_arity f) [0..<35]"

definition full_table :: "u32 \<Rightarrow> syscall_data" where
  "full_table n =
     (if n = 0 then \<lparr>sd_func = Some Sys_test, sd_args = 0\<rparr>
      else if n = SC_EXIT then \<lparr>sd_func = Some Sys_exit, sd_args = 1\<rparr>
      else if n = SC_FORK then \<lparr>sd_func = Some Sys_fork, sd_args = 0\<rparr>
      else if n = SC_GETPID then \<lparr>sd_func = Some Sys_getpid, sd_args = 0\<rparr>
      else if n = SC_OPEN then \<lparr>sd_func = Some Sys_open, sd_args = 2\<rparr>
      else if n = SC_CLOSE then \<lparr>sd_func = Some Sys_close, sd_args = 1\<rparr>
      else if n = SC_READ \<or> n = SC_WRITE then \<lparr>sd_func = Some Sys_readwrite, sd_args = 3\<rparr>
      else if n = SC_STAT then \<lparr>sd_func = Some Sys_stat, sd_args = 2\<rparr>
      else if n = SC_ISATTY then \<lparr>sd_func = Some Sys_isatty, sd_args = 1\<rparr>
      else if n = SC_SBRK then \<lparr>sd_func = Some Sys_sbrk, sd_args = 1\<rparr>
      else if n = SC_ANSWER then \<lparr>sd_func = Some Sys_answer, sd_args = 0\<rparr>
      else if n = SC_OPEN_STD then \<lparr>sd_func = Some Sys_open_std, sd_args = 0\<rparr>
      else if n = SC_YIELD then \<lparr>sd_func = Some Sys_yield, sd_args = 0\<rparr>
      else if n = SC_SEND then \<lparr>sd_func = Some Sys_send, sd_args = 2\<rparr>
      else if n = SC_RECV then \<lparr>sd_func = Some Sys_receive, sd_args = 2\<rparr>
      else if n = SC_WAITPID then \<lparr>sd_func = Some Sys_waitpid, sd_args = 3\<rparr>
      else if n = SC_EXECUTE then \<lparr>sd_func = Some Sys_execute, sd_args = 2\<rparr>
      else if n = SC_GETCMDLINE then \<lparr>sd_func = Some Sys_getcmdline, sd_args = 0\<rparr>
      else if n = SC_GETCWD then \<lparr>sd_func = Some Sys_getcwd, sd_args = 2\<rparr>
      else if n = SC_READDIR then \<lparr>sd_func = Some Sys_readdir, sd_args = 3\<rparr>
      else if n = SC_UNAME then \<lparr>sd_func = Some Sys_uname, sd_args = 2\<rparr>
      else \<lparr>sd_func = None, sd_args = 0\<rparr>)"

lemma full_table_typed: "sc_typed full_table"
proof -
  have "[0..<35] = [0, 1, 2, 3, 4, 5, 6, 7, 8, 9, 10, 11, 12, 13, 14, 15, 16, 17, 18, 19, 20, 21, 22, 23, 24, 25, 26, 27,
    28, 29, 30, 31, 32, 33, 34]" by (simp add: upt_rec)
  then show ?thesis unfolding sc_typed_def by (simp add: full_table_def func_arity_def)
qed

lemma init_pm_table:
  assumes D: "drivers_keep syscalls (env_drivers E)" and r: "init_pm E idle s = Inr t"
  shows "syscalls t = (syscalls s)(SC_EXIT := \<lparr>sd_func = Some Sys_exit, sd_args = 1\<rparr>, SC_YIELD := \<lparr>sd_func = Some Sys_yield, sd_args = 0\<rparr>,
    SC_GETPID := \<lparr>sd_func = Some Sys_getpid, sd_args = 0\<rparr>, SC_WAITPID := \<lparr>sd_func = Some Sys_waitpid, sd_args = 3\<rparr>,
    SC_GETCMDLINE := \<lparr>sd_func = Some Sys_getcmdline, sd_args = 0\<rparr>, SC_FORK := \<lparr>sd_func = Some Sys_fork, sd_args = 0\<rparr>)"
  using r unfolding init_pm_def Let_def
  by (auto simp: syscall_register_def kassert_def elim!: resE dest!: scv.view_pm_create [OF D] scv.view_pm split: if_splits)

section \<open>Results\<close>


text \<open>System calls and timer ticks in any order.\<close>

inductive sc_reaches :: "'a sc_state_scheme kernel_env \<Rightarrow> 'a sc_state_scheme \<Rightarrow> 'a sc_state_scheme \<Rightarrow> bool"
  for E s0 where
  start: "sc_reaches E s0 s0"
| syscall: "sc_reaches E s0 s \<Longrightarrow> handle_syscall E s regs = Inr t \<Longrightarrow> sc_reaches E s0 t"
| tick: "sc_reaches E s0 s \<Longrightarrow> timer_irq s = Inr t \<Longrightarrow> sc_reaches E s0 t"

lemma sc_reaches_table:
  assumes "sc_reaches E s0 s" and A: "drivers_keep_all syscalls (env_drivers E)"
  shows "syscalls s = syscalls s0"
  using assms(1) by (induction rule: sc_reaches.induct) (auto dest: handle_syscall_table [OF A] scv.view_timer_irq)

lemma sc_typedD:
  assumes "sc_typed t" and "num < 35" and "sd_func (t num) = Some f"
  shows "unat (sd_args (t num)) = func_arity f"
proof -
  have "unat num < 35" using assms(2) by (simp add: word_less_nat_alt)
  with assms(1) have "case sd_func (t (of_nat (unat num))) of None \<Rightarrow> True | Some f \<Rightarrow> unat (sd_args (t (of_nat (unat num)))) = func_arity f"
    unfolding sc_typed_def list_all_iff by (metis atLeastLessThan_iff le0 set_upt)
  with assms(3) show ?thesis by simp
qed

lemma func_arity_le: "func_arity f \<le> 3"
  by (cases f) (simp_all add: func_arity_def)


section \<open>The end of the current process\<close>

text \<open>Rescheduling changes the links, states and ticks of processes only.\<close>

definition only_sched :: "'a pm_state_scheme \<Rightarrow> 'a pm_state_scheme \<Rightarrow> bool" where
  "only_sched s t \<longleftrightarrow>
     (\<exists>pr h l c. t = s\<lparr>procs := pr, plist_head := h, plist_tail := l, cur_proc := c\<rparr> \<and> (\<forall>q. p_as (pr q) = p_as (procs s q)))"

lemma only_sched_trans: "only_sched s t \<Longrightarrow> only_sched t u \<Longrightarrow> only_sched s u"
  unfolding only_sched_def by force

lemma only_sched_put:
  "only_sched s (s\<lparr>plist_head := h\<rparr>)" "only_sched s (s\<lparr>plist_tail := l\<rparr>)" "only_sched s (s\<lparr>cur_proc := c\<rparr>)"
  "(\<And>q. p_as (pr q) = p_as (procs s q)) \<Longrightarrow> only_sched s (s\<lparr>procs := pr\<rparr>)"
proof -
  show "only_sched s (s\<lparr>plist_head := h\<rparr>)" unfolding only_sched_def
    by (intro exI [of _ "procs s"] exI [of _ h] exI [of _ "plist_tail s"] exI [of _ "cur_proc s"]) simp
  show "only_sched s (s\<lparr>plist_tail := l\<rparr>)" unfolding only_sched_def
    by (intro exI [of _ "procs s"] exI [of _ "plist_head s"] exI [of _ l] exI [of _ "cur_proc s"]) simp
  show "only_sched s (s\<lparr>cur_proc := c\<rparr>)" unfolding only_sched_def
    by (intro exI [of _ "procs s"] exI [of _ "plist_head s"] exI [of _ "plist_tail s"] exI [of _ c]) simp
  show "(\<And>q. p_as (pr q) = p_as (procs s q)) \<Longrightarrow> only_sched s (s\<lparr>procs := pr\<rparr>)" unfolding only_sched_def
    by (intro exI [of _ pr] exI [of _ "plist_head s"] exI [of _ "plist_tail s"] exI [of _ "cur_proc s"]) simp
qed

lemma only_sched_upd: "upd_proc s p f = Inr t \<Longrightarrow> (\<And>c. p_as (f c) = p_as c) \<Longrightarrow> only_sched s t"
  by (auto simp: upd_proc_def split: if_splits intro!: only_sched_put(4))

lemma only_sched_schedule: "pm_schedule s = Inr t \<Longrightarrow> only_sched s t"
  unfolding pm_schedule_def Let_def
  by (auto elim!: resE dest!: only_sched_upd) (metis only_sched_trans only_sched_put(1-3))+

lemma only_sched_deactivate: "pm_deactivate s p = Inr t \<Longrightarrow> only_sched s t"
  unfolding pm_deactivate_def Let_def
  by (auto elim!: resE dest!: only_sched_upd only_sched_schedule intro: only_sched_trans only_sched_put)

lemma destroy_addrspace_ok:
  assumes "as \<noteq> 0" and "IS_PAGE_ALIGNED (as_pdir (addrspaces s as))" and "bisset (pde_of s (kernel_pdir s) (as_pdir (addrspaces s as))) PE_PRESENT"
    and "kpdir_rev s \<noteq> 0xFFFFFFFF"
  shows "\<exists>t. vm_destroy_addrspace s as = Inr t"
proof -
  have "unat (PAGE_OFFSET (as_pdir (addrspaces s as))) + unat (PAGE_SIZE) \<le> 4096"
    using assms(2) by (simp add: IS_PAGE_ALIGNED_iff unat_PAGE_OFFSET)
  from km_free_addr_one_page [OF _ this assms(3,4)] assms(1) show ?thesis
    by (auto simp: vm_destroy_addrspace_def get_as_def)
qed

lemma pm_destroy_current:
  fixes s :: "'a kp_state_scheme"
  assumes q: "sched_inv s (p # q # ps)" and w: "p_wait_proc (procs s p) = 0" "p_wait_for (procs s p) = 0" and c: "p_cleanup s p = NULL"
    and a: "p_as (procs s p) = as" "as \<noteq> 0" "IS_PAGE_ALIGNED (as_pdir (addrspaces s as))"
      "bisset (pde_of s (kernel_pdir s) (as_pdir (addrspaces s as))) PE_PRESENT" "kpdir_rev s \<noteq> 0xFFFFFFFF"
  shows "returns (pm_destroy C s p) (\<lambda>t. sched_inv t (ps @ [q]) \<and> p_status (procs t p) = PS_SLOT_FREE)"
proof -
  from pm_deactivate_current [OF q] obtain t where t: "pm_deactivate s p = Inr t" "sched_inv t (ps @ [q])" by (auto elim: returnsE)
  have p: "p \<noteq> NULL" using q run_queue_nonnull [of s "p # q # ps"] by (simp add: sched_inv_def)
  define u where "u = t\<lparr>procs := (procs t)(p := (procs t p)\<lparr>p_status := PS_SLOT_FREE\<rparr>)\<rparr>"
  define v where "v = mm_free_page (kfree u (p_cmdline (procs u p))) (p_ustack_addr (procs u p))"
  have up: "upd_proc t p (\<lambda>c. c\<lparr>p_status := PS_SLOT_FREE\<rparr>) = Inr u" using p by (simp add: upd_proc_def u_def)
  from only_sched_deactivate [OF t(1)] have o: "addrspaces t = addrspaces s" "pde_of t = pde_of s" "kernel_pdir t = kernel_pdir s"
    "kpdir_rev t = kpdir_rev s" "p_cleanup t = p_cleanup s" "p_as (procs t p) = as"
    using a(1) by (auto simp: only_sched_def pde_of_def fun_eq_iff)
  have ids: "p_wait_proc (procs u p) = 0" "p_wait_for (procs u p) = 0"
    using same_ids_deactivate [OF t(1)] w by (simp_all add: same_ids_def u_def)
  have v: "pm_view v = pm_view u" unfolding v_def by simp
  have "addrspaces v = addrspaces u" "pde_of v = pde_of u" "kernel_pdir v = kernel_pdir u" "kpdir_rev v = kpdir_rev u"
    by (auto simp: v_def kfree_def mm_free_page_def mark_free_def seterr_def pde_of_def fun_eq_iff split: option.splits)
  moreover have "addrspaces u = addrspaces t" "pde_of u = pde_of t" "kernel_pdir u = kernel_pdir t" "kpdir_rev u = kpdir_rev t"
    by (simp_all add: u_def pde_of_def fun_eq_iff)
  ultimately obtain x where x: "vm_destroy_addrspace v as = Inr x"
    using o a destroy_addrspace_ok [of as v] by auto
  have "pm_destroy C s p = Inr x" using t(1) up p ids c o x
    by (simp add: pm_destroy_def get_proc_def flip: v_def) (simp add: u_def v_def)
  moreover have "pm_view x = pm_view u" using pmv.view_destroy_addrspace [OF x] v by simp
  moreover have "sched_inv u (ps @ [q])" using t(2) run_queue_cong [of u t] by (simp add: sched_inv_def u_def)
  ultimately show ?thesis using pm_viewD [of x u] run_queue_cong [of x u] by (simp add: sched_inv_def) (simp add: u_def)
qed


section \<open>Examples\<close>

text \<open>The example table with the system calls of a booted kernel and saved registers at \<open>0x20000\<close>.\<close>

definition demo_env :: "sc_state kernel_env" where
  "demo_env = \<lparr>env_drivers = no_drivers, env_heap = (\<lambda>_. 0), env_version = ''v'', env_buildname = ''b''\<rparr>"

definition demo_calls :: "u8 \<Rightarrow> sc_state" where
  "demo_calls num = kp_state.extend (demo_table\<lparr>pmem := (\<lambda>_. 0)(0x2001C := num)\<rparr>) (sc_state.fields full_table)"

lemma sc_fields:
  "syscalls (kp_state.extend s (sc_state.fields t)) = t" "pmem (kp_state.extend s (sc_state.fields t)) = pmem s"
  "procs (kp_state.extend s (sc_state.fields t)) = procs s" "plist_head (kp_state.extend s (sc_state.fields t)) = plist_head s"
  "plist_tail (kp_state.extend s (sc_state.fields t)) = plist_tail s" "cur_proc (kp_state.extend s (sc_state.fields t)) = cur_proc s"
  "pdirs (kp_state.extend s (sc_state.fields t)) = pdirs s" "ptabs (kp_state.extend s (sc_state.fields t)) = ptabs s"
  "kernel_pdir (kp_state.extend s (sc_state.fields t)) = kernel_pdir s" "kpdir_rev (kp_state.extend s (sc_state.fields t)) = kpdir_rev s"
  "p_cleanup (kp_state.extend s (sc_state.fields t)) = p_cleanup s" "addrspaces (kp_state.extend s (sc_state.fields t)) = addrspaces s"
  by (simp_all add: kp_state.defs sc_state.defs)

lemma demo_calls_kaddr: "unat v < 4194304 \<Longrightarrow> kaddr (demo_calls n) v = Inr v"
  using demo_table_kaddr [of v] by (simp add: kaddr_def demo_calls_def sc_fields)

lemma demo_calls_word:
  assumes "unat v + 4 \<le> 4194304"
  shows "kread_u32 (demo_calls n) v = Inr (u32_of_bytes (map (\<lambda>i. ((\<lambda>_. 0)(0x2001C := n)) (v + of_nat i)) [0, 1, 2, 3]))"
proof -
  have "unat (v + of_nat i) < 4194304" if "i < 4" for i using that assms by (simp add: unat_add_u32_small)
  then have "kmapped (demo_calls n) v 4 (\<lambda>i. v + of_nat i)" by (simp add: kmapped_def demo_calls_kaddr)
  from kread_bytes_mapped [OF this] have "kread_bytes (demo_calls n) v 4 = Inr (map (\<lambda>i. pmem (demo_calls n) (v + of_nat i)) [0..<4])" .
  moreover have "[0..<4] = [0, 1, 2, 3]" by (simp add: upt_rec)
  ultimately show ?thesis by (simp add: kread_u32_def) (simp add: demo_calls_def sc_fields)
qed

lemma demo_calls_regs:
  "kread_u32 (demo_calls n) 0x2001C = Inr (ucast n)" "kread_u32 (demo_calls n) 0x20010 = Inr 0"
  "kread_u32 (demo_calls n) 0x20018 = Inr 0" "kread_u32 (demo_calls n) 0x20014 = Inr 0"
  by (simp_all add: demo_calls_word)

lemma no_drivers_keep_all: "drivers_keep_all view no_drivers"
  using no_drivers_keep by (simp add: drivers_keep_all_def no_drivers_def)




text \<open>
  \<^verbatim>\<open>init_pm\<close> establishes the invariant of the process table: the idle process is in the first slot, it is the
  current process and the only one in the run queue.
\<close>

lemma init_pm_table_ok:
  assumes D: "drivers_keep pm_view (env_drivers E)" and r: "init_pm E idle s = Inr t" and n: "next_pid s \<noteq> - 1"
    and z: "\<forall>p. 1 \<le> p \<longrightarrow> p \<le> MAX_PROCS \<longrightarrow> p_next (procs s p) = NULL \<and> p_wakeup (procs s p) = 0" and c: "cur_proc s = NULL"
  shows "proc_table t 1 \<and> cur_proc t = 1 \<and> live t 1"
proof -
  define u where "u = s\<lparr>procs := (\<lambda>p. if 1 \<le> p \<and> p \<le> MAX_PROCS
      then (procs s p)\<lparr>p_pid := of_nat (p - 1), p_status := PS_SLOT_FREE\<rparr> else procs s p), plist_head := NULL, plist_tail := NULL\<rparr>"
  have u: "proc_table u 0" "next_pid u \<noteq> - 1" using z c n by (simp_all add: proc_table_iff u_def)
  from r obtain v p w x where v: "register_all u [(1, Sys_exit, 1), (25, Sys_yield, 0), (6, Sys_getpid, 0), (29, Sys_waitpid, 3),
      (31, Sys_getcmdline, 0), (4, Sys_fork, 0)] = Inr v"
    and w: "pm_create (env_drivers E) (env_heap E) v idle ''idle'' PM_KERNEL 0 PS_BLOCKED = Inr (p, w)"
    and x: "pm_activate w p = Inr x" "t = x\<lparr>cur_proc := p\<rparr>"
    unfolding init_pm_def Let_def u_def [symmetric] by (elim rbindE case_pairE) auto
  have "pm_view v = pm_view u" using v by (auto simp: syscall_register_def kassert_def pm_view_def elim!: resE split: if_splits)
  then have pv: "proc_table v 0" "next_pid v \<noteq> - 1" "p_status (procs v 1) = PS_SLOT_FREE"
    using u proc_table_view [of v u 0] pm_viewD [of v u] by (simp_all add: u_def)
  have "[1..<MAX_PROCS + 1] = 1 # [2..<257]" by (simp add: upt_conv_Cons)
  then have "get_empty_proc v = 1" using pv(3) by (simp add: get_empty_proc_def del: upt_Suc upt_rec_numeral)
  then have p: "p = 1" using w by (auto simp: pm_create_def elim!: resE)
  from pm_create_new [OF pv(1,2) D w] p have n: "proc_table w 1" "p_status (procs w 1) = PS_BLOCKED" by (simp_all add: new_proc_def)
  from proc_table_activate [OF n(1) _ x(1)] p have "proc_table x 1" by simp
  moreover have "p_status (procs x 1) = PS_BLOCKED" using pm_activate_ids [OF x(1), of 1] n(2) by simp
  ultimately show ?thesis using x(2) p proc_table_links(7) [of x 1 1] by (simp add: live_def)
qed

end
