(* ===== verification/Kos_Tty.thy ===== *)
theory Kos_Tty
  imports Kos_Syscall
begin

text \<open>
  The terminals (\<^verbatim>\<open>kernel/tty.c\<close>) and the translation of scan codes (\<^verbatim>\<open>kernel/kbc.c\<close>): the output buffers and the
  screen, line input and read requests, the keyboard interrupt, and kernel output. The terminal driver is a
  pair of operation tables of the file system. The results about it are in \<^verbatim>\<open>Kos_Screen\<close>.
\<close>

section \<open>State\<close>

text \<open>
  A terminal. The eight terminals are numbered from 0; number 8 is the kernel's own output, \<^verbatim>\<open>kout_tty\<close>. The
  inode embedded in \<^verbatim>\<open>tty_t\<close> is an object of the file system at the address \<open>t_inode\<close>. The arrays \<^verbatim>\<open>inbuf\<close>
  and \<^verbatim>\<open>outbuf\<close> are functions; an access beyond their size is a fault.
\<close>

type_synonym tty_id = nat

record tty_t =
  t_id :: nat
  t_inode :: ptr
  t_inbuf :: "nat \<Rightarrow> u8"
  t_incount :: u32
  t_eotcount :: u32
  t_outbuf :: "nat \<Rightarrow> u16"
  t_outstart :: u8
  t_x :: u8
  t_y :: u8
  t_screenY :: u8
  t_status :: u8
  t_flags :: u8
  t_requests :: ptr

record modifiers =
  m_shift :: bool
  m_ctrl :: bool
  m_alt :: bool
  m_altgr :: bool
  m_capslock :: bool

record keymap_entry =
  km_normal :: u8
  km_shift :: u8
  km_altgr :: u8
  km_ctrl :: u8

type_synonym keymap = "keymap_entry list"

text \<open>
  \<open>cga\<close> holds the values last written to the registers of the graphics controller; \<open>key_e0\<close>, \<open>key_e1\<close> and
  \<open>key_e1_data\<close> are the static variables of \<^verbatim>\<open>get_keycode\<close>, and \<open>keymaps_ptr\<close> is the heap block of the
  registered keymaps.
\<close>

record tty_state = sc_state +
  ttys :: "tty_id \<Rightarrow> tty_t"
  cur_tty :: tty_id
  vmem :: "nat \<Rightarrow> u16"
  cga :: "nat \<Rightarrow> u8"
  modifs :: modifiers
  keymaps :: "(string \<times> keymap) list"
  keymaps_ptr :: u32
  cur_map :: "keymap option"
  key_e0 :: u8
  key_e1 :: u8
  key_e1_data :: u16

abbreviation (input) NUM_TTYS :: nat where "NUM_TTYS \<equiv> 8"
abbreviation (input) kout_tty :: tty_id where "kout_tty \<equiv> 8"
abbreviation (input) kout_id :: nat where "kout_id \<equiv> 7"
abbreviation (input) CON_MEM_CHARS :: nat where "CON_MEM_CHARS \<equiv> 16384"
abbreviation (input) CON_MAX_START_LINE :: u8 where "CON_MAX_START_LINE \<equiv> 175"
abbreviation (input) TTY_INBUF_SIZE :: u32 where "TTY_INBUF_SIZE \<equiv> 256"
abbreviation (input) TTY_SCREEN_X :: u8 where "TTY_SCREEN_X \<equiv> 80"
abbreviation (input) TTY_SCREEN_Y :: u8 where "TTY_SCREEN_Y \<equiv> 25"
abbreviation (input) TTY_ECHO :: u8 where "TTY_ECHO \<equiv> 0x01"
abbreviation (input) TTY_RAW :: u8 where "TTY_RAW \<equiv> 0x02"
abbreviation (input) CGA_START_HI :: nat where "CGA_START_HI \<equiv> 12"
abbreviation (input) CGA_START_LO :: nat where "CGA_START_LO \<equiv> 13"
abbreviation (input) CGA_CURSOR_HI :: nat where "CGA_CURSOR_HI \<equiv> 14"
abbreviation (input) CGA_CURSOR_LO :: nat where "CGA_CURSOR_LO \<equiv> 15"

definition upd_tty :: "'a tty_state_scheme \<Rightarrow> tty_id \<Rightarrow> (tty_t \<Rightarrow> tty_t) \<Rightarrow> 'a tty_state_scheme" where
  "upd_tty s t f = s\<lparr>ttys := (ttys s)(t := f (ttys s t))\<rparr>"

section \<open>tty.c: the screen\<close>

definition CPOS :: "tty_t \<Rightarrow> nat" where
  "CPOS c = unat (t_x c) + unat (t_y c) * 80"

definition cga_write :: "'a tty_state_scheme \<Rightarrow> nat \<Rightarrow> u8 \<Rightarrow> 'a tty_state_scheme" where
  "cga_write s reg v = s\<lparr>cga := (cga s)(reg := v)\<rparr>"

definition set_start_line :: "'a tty_state_scheme \<Rightarrow> u8 \<Rightarrow> 'a tty_state_scheme" where
  "set_start_line s line =
     (let addr = ucast line * 80 :: u16
      in cga_write (cga_write s CGA_START_LO (ucast addr)) CGA_START_HI (ucast (drop_bit 8 addr)))"

text \<open>A character with its attribute; \<^verbatim>\<open>char\<close> is signed, so a character above 127 sets all bits of the attribute.\<close>

definition cell :: "u8 \<Rightarrow> u8 \<Rightarrow> u16" where
  "cell c status = scast c OR push_bit 8 (ucast status)"

abbreviation (input) blank :: "u8 \<Rightarrow> u16" where "blank status \<equiv> cell 0x20 status"

text \<open>\<^verbatim>\<open>memmove\<close> by one line of 80 characters and \<^verbatim>\<open>memsetw\<close> of the last one.\<close>

definition scroll_buf :: "(nat \<Rightarrow> u16) \<Rightarrow> u8 \<Rightarrow> nat \<Rightarrow> u16" where
  "scroll_buf buf status j =
     (if j < 16304 then buf (j + 80) else if j < CON_MEM_CHARS then blank status else buf j)"

definition scroll :: "'a tty_state_scheme \<Rightarrow> tty_id \<Rightarrow> 'a tty_state_scheme" where
  "scroll s t =
     (let s = upd_tty s t (\<lambda>c. c\<lparr>t_outstart := t_outstart c + 1\<rparr>);
          s = (if t_outstart (ttys s t) > CON_MAX_START_LINE
               then let s = upd_tty s t (\<lambda>c. c\<lparr>t_outbuf := scroll_buf (t_outbuf c) (t_status c)\<rparr>);
                        s = (if t = cur_tty s then s\<lparr>vmem := scroll_buf (vmem s) (t_status (ttys s t))\<rparr> else s)
                    in upd_tty s t (\<lambda>c. c\<lparr>t_outstart := t_outstart c - 1, t_y := t_y c - 1\<rparr>)
               else s);
          s = (if t = cur_tty s then set_start_line s (t_outstart (ttys s t)) else s)
      in upd_tty s t (\<lambda>c. c\<lparr>t_screenY := t_screenY c - 1\<rparr>))"

definition scroll_line_up :: "'a tty_state_scheme \<Rightarrow> 'a tty_state_scheme" where
  "scroll_line_up s =
     (if t_outstart (ttys s (cur_tty s)) \<noteq> 0
      then let s = upd_tty s (cur_tty s) (\<lambda>c. c\<lparr>t_outstart := t_outstart c - 1\<rparr>)
           in set_start_line s (t_outstart (ttys s (cur_tty s)))
      else s)"

definition scroll_line_down :: "'a tty_state_scheme \<Rightarrow> 'a tty_state_scheme" where
  "scroll_line_down s =
     (if t_outstart (ttys s (cur_tty s)) < CON_MAX_START_LINE
      then let s = upd_tty s (cur_tty s) (\<lambda>c. c\<lparr>t_outstart := t_outstart c + 1\<rparr>)
           in set_start_line s (t_outstart (ttys s (cur_tty s)))
      else s)"

definition scroll_to_top :: "'a tty_state_scheme \<Rightarrow> 'a tty_state_scheme" where
  "scroll_to_top s =
     (let s = upd_tty s (cur_tty s) (\<lambda>c. c\<lparr>t_outstart := 0\<rparr>)
      in set_start_line s (t_outstart (ttys s (cur_tty s))))"

definition scroll_to_bottom :: "'a tty_state_scheme \<Rightarrow> tty_id \<Rightarrow> 'a tty_state_scheme" where
  "scroll_to_bottom s t =
     (let end = (if t_y (ttys s t) > 24 then t_y (ttys s t) - 24 else 0);
          s = upd_tty s t (\<lambda>c. c\<lparr>t_outstart := end\<rparr>)
      in if t = cur_tty s then set_start_line s (t_outstart (ttys s t)) else s)"

definition flush_tty :: "'a tty_state_scheme \<Rightarrow> tty_id \<Rightarrow> 'a tty_state_scheme" where
  "flush_tty s t =
     (if t = cur_tty s
      then set_start_line (s\<lparr>vmem := (\<lambda>j. if j < CON_MEM_CHARS then t_outbuf (ttys s t) j else vmem s j)\<rparr>) (t_outstart (ttys s t))
      else s)"

definition clear_tty :: "'a tty_state_scheme \<Rightarrow> tty_id \<Rightarrow> 'a tty_state_scheme" where
  "clear_tty s t =
     upd_tty s t (\<lambda>c. c\<lparr>t_outbuf := (\<lambda>j. if j < CON_MEM_CHARS then blank (t_status c) else t_outbuf c j), t_outstart := 0\<rparr>)"

text \<open>The cursor is on the screen only while somebody reads from the terminal.\<close>

definition update_cursor :: "'a tty_state_scheme \<Rightarrow> tty_id \<Rightarrow> 'a tty_state_scheme res" where
  "update_cursor s t =
     (if t = cur_tty s
      then rbind (list_size (lists s) (t_requests (ttys s t))) (\<lambda>n.
             let pos = (if n > 0 then of_nat (CPOS (ttys s t)) else 2001) :: u16
             in Inr (cga_write (cga_write s CGA_CURSOR_LO (ucast pos)) CGA_CURSOR_HI (ucast (drop_bit 8 pos))))
      else Inr s)"

text \<open>A character at the cursor, in the buffer and, for the current terminal, on the screen.\<close>

definition put_cell :: "'a tty_state_scheme \<Rightarrow> tty_id \<Rightarrow> u8 \<Rightarrow> 'a tty_state_scheme res" where
  "put_cell s t c =
     (let pos = CPOS (ttys s t); w = cell c (t_status (ttys s t))
      in if pos \<ge> CON_MEM_CHARS then Inl Bad_access
         else let s = upd_tty s t (\<lambda>c. c\<lparr>t_outbuf := (t_outbuf c)(pos := w)\<rparr>)
              in Inr (if t = cur_tty s then s\<lparr>vmem := (vmem s)(pos := w)\<rparr> else s))"

text \<open>The loop that scrolls; each round makes \<^verbatim>\<open>screenY\<close> smaller.\<close>

function scroll_while :: "'a tty_state_scheme \<Rightarrow> tty_id \<Rightarrow> 'a tty_state_scheme" where
  "scroll_while s t = (if t_screenY (ttys s t) \<ge> TTY_SCREEN_Y then scroll_while (scroll s t) t else s)"
  by pat_completeness auto

lemma upd_tty_simps [simp]:
  "ttys (upd_tty s t f) u = (if u = t then f (ttys s t) else ttys s u)" "cur_tty (upd_tty s t f) = cur_tty s"
  "vmem (upd_tty s t f) = vmem s" "lists (upd_tty s t f) = lists s"
  by (simp_all add: upd_tty_def)

lemma set_start_line_simps [simp]:
  "ttys (set_start_line s l) = ttys s" "cur_tty (set_start_line s l) = cur_tty s" "vmem (set_start_line s l) = vmem s"
  "lists (set_start_line s l) = lists s"
  by (simp_all add: set_start_line_def cga_write_def Let_def)

lemma scroll_screenY: "t_screenY (ttys (scroll s t) t) = t_screenY (ttys s t) - 1"
  by (simp add: scroll_def Let_def)

termination scroll_while
proof (relation "measure (\<lambda>(s, t). unat (t_screenY (ttys s t)))")
  fix s :: "'a tty_state_scheme" and t
  assume "25 \<le> t_screenY (ttys s t)"
  then show "((scroll s t, t), (s, t)) \<in> measure (\<lambda>(s, t). unat (t_screenY (ttys s t)))"
    by (simp add: scroll_screenY unat_sub_if_size word_le_nat_alt word_size)
qed simp

declare scroll_while.simps [simp del]

text \<open>The part of \<^verbatim>\<open>putc\<close> after the \<^verbatim>\<open>switch\<close>.\<close>

definition put_end :: "'a tty_state_scheme \<Rightarrow> tty_id \<Rightarrow> 'a tty_state_scheme res" where
  "put_end s t =
     (let s = (if t_x (ttys s t) \<ge> TTY_SCREEN_X then upd_tty s t (\<lambda>c. c\<lparr>t_y := t_y c + 1, t_x := 0\<rparr>) else s)
      in update_cursor (scroll_while s t) t)"

text \<open>\<^verbatim>\<open>putc\<close> of everything but a tab, and the loop of the tab; it ends at the latest after 80 columns.\<close>

definition put_plain :: "'a tty_state_scheme \<Rightarrow> tty_id \<Rightarrow> u8 \<Rightarrow> 'a tty_state_scheme res" where
  "put_plain s t c =
     (if c = 10 then put_end (upd_tty s t (\<lambda>c. c\<lparr>t_x := 0, t_y := t_y c + 1, t_screenY := t_screenY c + 1\<rparr>)) t
      else if c = 13 then put_end (upd_tty s t (\<lambda>c. c\<lparr>t_x := 0\<rparr>)) t
      else if c = 8
      then if t_x (ttys s t) \<ge> 1
           then rbind (put_cell (upd_tty s t (\<lambda>c. c\<lparr>t_x := t_x c - 1\<rparr>)) t 0x20) (\<lambda>s. put_end s t)
           else put_end s t
      else rbind (put_cell s t c) (\<lambda>s. put_end (upd_tty s t (\<lambda>c. c\<lparr>t_x := t_x c + 1\<rparr>)) t))"

fun tab_loop :: "nat \<Rightarrow> 'a tty_state_scheme \<Rightarrow> tty_id \<Rightarrow> 'a tty_state_scheme res" where
  "tab_loop n s t =
     rbind (put_plain s t 0x20) (\<lambda>s.
       if t_x (ttys s t) mod 7 \<noteq> 0 then (case n of 0 \<Rightarrow> Inl Diverges | Suc n \<Rightarrow> tab_loop n s t) else Inr s)"

declare tab_loop.simps [simp del]

definition tty_putc :: "'a tty_state_scheme \<Rightarrow> tty_id \<Rightarrow> u8 \<Rightarrow> 'a tty_state_scheme res" where
  "tty_putc s t c = (if c = 9 then rbind (tab_loop 80 s t) (\<lambda>s. put_end s t) else put_plain s t c)"

fun puts :: "'a tty_state_scheme \<Rightarrow> tty_id \<Rightarrow> u8 list \<Rightarrow> 'a tty_state_scheme res" where
  "puts s t [] = Inr s"
| "puts s t (c # cs) = rbind (tty_putc s t c) (\<lambda>s. puts s t cs)"

section \<open>tty.c: reading and requests\<close>

definition enough_data :: "tty_t \<Rightarrow> u32 \<Rightarrow> bool" where
  "enough_data c wanted = (if t_flags c AND TTY_RAW \<noteq> 0 then t_incount c \<ge> wanted else t_eotcount c > 0)"

definition can_answer_rq :: "'a tty_state_scheme \<Rightarrow> tty_id \<Rightarrow> bool res" where
  "can_answer_rq s t =
     rbind (list_size (lists s) (t_requests (ttys s t))) (\<lambda>n.
       if n \<le> 0 then Inr False
       else rbind (list_front (lists s) (t_requests (ttys s t))) (\<lambda>rq.
            rbind (deref (requests s) rq) (\<lambda>r. Inr (enough_data (ttys s t) (rq_buflen r)))))"

text \<open>The bytes of the input buffer up to the first null byte, which has to be inside the buffer.\<close>

definition inbuf_string :: "tty_t \<Rightarrow> u8 list res" where
  "inbuf_string c =
     (case List.find (\<lambda>i. t_inbuf c i = 0) [0..<256] of None \<Rightarrow> Inl Bad_access | Some n \<Rightarrow> Inr (map (t_inbuf c) [0..<n]))"

definition copy_data :: "'a tty_state_scheme \<Rightarrow> tty_id \<Rightarrow> u32 \<Rightarrow> u32 \<Rightarrow> (u32 \<times> 'a tty_state_scheme) res" where
  "copy_data s t buffer sz =
     (if t_flags (ttys s t) AND TTY_RAW \<noteq> 0
      then if unat sz > 256 then Inl Bad_access
           else rbind (kwrite_bytes s buffer (map (t_inbuf (ttys s t)) [0..<unat sz])) (\<lambda>s. Inr (sz, s))
      else rbind (inbuf_string (ttys s t)) (\<lambda>str.
           rbind (kwrite_bytes s buffer (str @ [0])) (\<lambda>s. Inr (of_nat (length str), s))))"

definition remove_data :: "'a tty_state_scheme \<Rightarrow> tty_id \<Rightarrow> u32 \<Rightarrow> 'a tty_state_scheme res" where
  "remove_data s t count =
     (let raw = t_flags (ttys s t) AND TTY_RAW \<noteq> 0;
          count = (if raw then count else count + 1)
      in if unat count > 256 then Inl Bad_access
         else Inr (upd_tty s t (\<lambda>c. c\<lparr>
                t_inbuf := (\<lambda>j. if j < 256 - unat count then t_inbuf c (j + unat count) else t_inbuf c j),
                t_incount := t_incount c - count, t_eotcount := (if raw then t_eotcount c else t_eotcount c - 1)\<rparr>)))"

definition answer_rq :: "'a tty_state_scheme drivers \<Rightarrow> 'a tty_state_scheme \<Rightarrow> tty_id \<Rightarrow> 'a tty_state_scheme res" where
  "answer_rq D s t =
     rbind (list_del_front (lists s) (t_requests (ttys s t))) (\<lambda>(rq, h).
     let s = s\<lparr>lists := h\<rparr>
     in rbind (deref (requests s) rq) (\<lambda>r.
        rbind (copy_data s t (rq_buffer r) (rq_buflen r)) (\<lambda>(count, s).
        rbind (remove_data s t count) (\<lambda>s.
        rbind (deref (requests s) rq) (\<lambda>r.
        let s = s\<lparr>requests := (requests s)(rq \<mapsto> r\<lparr>rq_result := sint count\<rparr>)\<rparr>
        in rbind (rq_finish D s rq) (\<lambda>s. update_cursor s t))))))"

text \<open>\<^verbatim>\<open>CHECK_TTY\<close> and \<^verbatim>\<open>GET_TTY\<close>.\<close>

definition file_tty :: "'a tty_state_scheme \<Rightarrow> ptr \<Rightarrow> tty_id option res" where
  "file_tty s file =
     rbind (deref (files s) file) (\<lambda>f. rbind (deref (inodes s) (f_inode f)) (\<lambda>i.
       let n = sint (of_nat (i_impl i) :: u32) in Inr (if 0 \<le> n \<and> n < 8 then Some (nat n) else None)))"

abbreviation (input) TTY_FOPS :: ptr where "TTY_FOPS \<equiv> 2"
abbreviation (input) TTY_IOPS :: ptr where "TTY_IOPS \<equiv> 3"

definition tty_open :: "'a tty_state_scheme \<Rightarrow> ptr \<Rightarrow> ptr \<Rightarrow> u32 \<Rightarrow> (int \<times> 'a tty_state_scheme) res" where
  "tty_open s ino file flags = rbind (upd_file s file (\<lambda>f. f\<lparr>f_pos := 0, f_fops := TTY_FOPS\<rparr>)) (\<lambda>s. Inr (0, s))"

definition tty_close :: "'a tty_state_scheme \<Rightarrow> ptr \<Rightarrow> (int \<times> 'a tty_state_scheme) res" where
  "tty_close s file = rbind (file_tty s file) (\<lambda>t. Inr (if t = None then - 1 else 0, s))"

text \<open>The member \<^verbatim>\<open>free_buffer\<close> of the request is set and never read.\<close>

definition tty_read ::
    "'a tty_state_scheme \<Rightarrow> ptr \<Rightarrow> u32 \<Rightarrow> u32 \<Rightarrow> u32 \<Rightarrow> (int \<times> 'a tty_state_scheme) res" where
  "tty_read s file buffer count offset =
     rbind (file_tty s file) (\<lambda>tt. case tt of
         None \<Rightarrow> Inr (- 1, s)
       | Some t \<Rightarrow>
           if enough_data (ttys s t) count
           then rbind (copy_data s t buffer count) (\<lambda>(num, s).
                rbind (remove_data s t num) (\<lambda>s. Inr (sint num, s)))
           else case rq_create s file buffer count of (rq, s) \<Rightarrow>
                rbind (list_add_back (lists s) (t_requests (ttys s t)) rq) (\<lambda>h.
                rbind (rq_block (s\<lparr>lists := h\<rparr>) rq) (\<lambda>s.
                rbind (update_cursor s t) (\<lambda>s. Inr (- EAGAIN, s)))))"

fun write_loop :: "'a tty_state_scheme \<Rightarrow> tty_id \<Rightarrow> u32 \<Rightarrow> nat list \<Rightarrow> 'a tty_state_scheme res" where
  "write_loop s t buffer [] = Inr s"
| "write_loop s t buffer (i # is) =
     rbind (kread s (buffer + of_nat i)) (\<lambda>c. rbind (tty_putc s t c) (\<lambda>s. write_loop s t buffer is))"

definition tty_write ::
    "'a tty_state_scheme \<Rightarrow> ptr \<Rightarrow> u32 \<Rightarrow> u32 \<Rightarrow> u32 \<Rightarrow> (int \<times> 'a tty_state_scheme) res" where
  "tty_write s file buffer count offset =
     rbind (file_tty s file) (\<lambda>tt. case tt of
         None \<Rightarrow> Inr (- 1, s)
       | Some t \<Rightarrow> rbind (write_loop s t buffer [0..<unat count]) (\<lambda>s. Inr (sint count, s)))"

definition tty_read_async :: "'a tty_state_scheme \<Rightarrow> ptr \<Rightarrow> (int \<times> 'a tty_state_scheme) res" where
  "tty_read_async s rq = Inr (- ENOSYS, s)"

definition tty_write_async :: "'a tty_state_scheme \<Rightarrow> ptr \<Rightarrow> (int \<times> 'a tty_state_scheme) res" where
  "tty_write_async s rq = Inr (- ENOSYS, s)"

definition tty_ino_ops :: "'a tty_state_scheme inode_ops" where
  "tty_ino_ops = \<lparr>iop_create = None, iop_open = Some tty_open, iop_unlink = None, iop_readdir = None, iop_finddir = None\<rparr>"

definition tty_file_ops :: "'a tty_state_scheme file_ops" where
  "tty_file_ops = \<lparr>fop_close = Some tty_close, fop_dup = None, fop_read = Some tty_read, fop_write = Some tty_write,
     fop_read_async = Some tty_read_async, fop_write_async = Some tty_write_async\<rparr>"

definition select_tty :: "'a tty_state_scheme \<Rightarrow> tty_id \<Rightarrow> 'a tty_state_scheme res" where
  "select_tty s t = update_cursor (flush_tty (s\<lparr>cur_tty := t\<rparr>) t) t"

definition tty_set_cur_term :: "'a tty_state_scheme \<Rightarrow> u8 \<Rightarrow> 'a tty_state_scheme res" where
  "tty_set_cur_term s n = (if unat n < NUM_TTYS then select_tty s (unat n) else Inr s)"

definition tty_get_cur_term :: "'a tty_state_scheme \<Rightarrow> u8" where
  "tty_get_cur_term s = of_nat (t_id (ttys s (cur_tty s)))"

section \<open>kbc.c: scan codes\<close>

definition keycode_normal :: "u8 list" where
  "keycode_normal =
    [0, 1, 2, 3, 4, 5, 6, 7, 8, 9, 10, 11, 12, 13, 14, 15, 16, 17, 18, 19,
     20, 21, 22, 23, 24, 25, 26, 27, 28, 29, 30, 31, 32, 33, 34, 35, 36, 37, 38, 39,
     40, 41, 42, 43, 44, 45, 46, 47, 48, 49, 50, 51, 52, 53, 54, 55, 56, 57, 58, 59,
     60, 61, 62, 63, 64, 65, 66, 67, 68, 69, 70, 71, 72, 73, 74, 75, 76, 77, 78, 79,
     80, 81, 82, 84, 0, 0, 86, 87, 88, 0, 0, 0, 0, 0, 0, 0, 0, 0, 0, 0,
     0, 0, 0, 0, 0, 0, 0, 0, 0, 0, 0, 0, 0, 0, 0, 0, 0, 0, 0, 0,
     0, 0, 0, 0, 0, 0, 0, 0]"

definition keycode_e0 :: "u8 list" where
  "keycode_e0 =
    [0, 0, 0, 0, 0, 0, 0, 0, 0, 0, 0, 0, 0, 0, 0, 0, 0, 0, 0, 0,
     0, 0, 0, 0, 0, 0, 0, 0, 0, 97, 0, 0, 0, 0, 0, 0, 0, 0, 0, 0,
     0, 0, 0, 0, 0, 0, 0, 0, 0, 0, 0, 0, 0, 0, 0, 0, 100, 0, 0, 0,
     0, 0, 0, 0, 0, 0, 0, 0, 0, 0, 0, 102, 103, 104, 0, 105, 0, 106, 0, 107,
     108, 109, 110, 111, 0, 0, 0, 0, 0, 0, 0, 0, 0, 0, 0, 0, 0, 0, 0, 0,
     0, 0, 0, 0, 0, 0, 0, 0, 0, 0, 0, 0, 0, 0, 0, 0, 0, 0, 0, 0,
     0, 0, 0, 0, 0, 0, 0, 0]"

abbreviation (input) KBC_NORMAL :: u8 where "KBC_NORMAL \<equiv> 0"
abbreviation (input) KBC_E0 :: u8 where "KBC_E0 \<equiv> 1"
abbreviation (input) KBC_E1 :: u8 where "KBC_E1 \<equiv> 2"

definition kbc_scan_to_keycode :: "u8 \<Rightarrow> u16 \<Rightarrow> u8 res" where
  "kbc_scan_to_keycode elvl scancode =
     (if elvl = 0 then if unat scancode < 128 then Inr (keycode_normal ! unat scancode) else Inl Bad_access
      else if elvl = 1 then if unat scancode < 128 then Inr (keycode_e0 ! unat scancode) else Inl Bad_access
      else if elvl = 2 \<and> scancode = 0x451D then Inr 119
      else Inr 0)"

section \<open>tty.c: the keyboard interrupt\<close>

text \<open>\<open>data\<close> is the byte read from the keyboard; the result is the key code and whether the key was released.\<close>

definition get_keycode :: "'a tty_state_scheme \<Rightarrow> u8 \<Rightarrow> (u8 \<times> bool \<times> 'a tty_state_scheme) res" where
  "get_keycode s data =
     (let brk = (data AND 0x80 \<noteq> 0 \<and> (key_e1 s \<noteq> 0 \<or> data \<noteq> 0xE1) \<and> (key_e0 s \<noteq> 0 \<or> data \<noteq> 0xE0));
          data = (if brk then data AND NOT 0x80 else data)
      in if key_e0 s \<noteq> 0
         then rbind (kbc_scan_to_keycode KBC_E0 (ucast data)) (\<lambda>k. Inr (k, brk, s\<lparr>key_e0 := 0\<rparr>))
         else if key_e1 s = 2
         then let s = s\<lparr>key_e1_data := key_e1_data s OR push_bit 8 (ucast data), key_e1 := 0\<rparr>
              in rbind (kbc_scan_to_keycode KBC_E1 (key_e1_data s)) (\<lambda>k. Inr (k, brk, s))
         else if key_e1 s = 1 then Inr (0, brk, s\<lparr>key_e1_data := ucast data, key_e1 := key_e1 s + 1\<rparr>)
         else if data = 0xE0 then Inr (0, brk, s\<lparr>key_e0 := 1\<rparr>)
         else if data = 0xE1 then Inr (0, brk, s\<lparr>key_e1 := 1\<rparr>)
         else rbind (kbc_scan_to_keycode KBC_NORMAL (ucast data)) (\<lambda>k. Inr (k, brk, s)))"

abbreviation (input) KEYC_DEL :: u8 where "KEYC_DEL \<equiv> 111"
abbreviation (input) KEYC_END :: u8 where "KEYC_END \<equiv> 107"
abbreviation (input) KEYC_HOME :: u8 where "KEYC_HOME \<equiv> 102"
abbreviation (input) KEYC_PAGE_UP :: u8 where "KEYC_PAGE_UP \<equiv> 104"
abbreviation (input) KEYC_PAGE_DOWN :: u8 where "KEYC_PAGE_DOWN \<equiv> 109"
abbreviation (input) KEYC_F1 :: u8 where "KEYC_F1 \<equiv> 59"
abbreviation (input) KEYC_F8 :: u8 where "KEYC_F8 \<equiv> 66"
abbreviation (input) KEYC_F12 :: u8 where "KEYC_F12 \<equiv> 88"
abbreviation (input) EOT :: u8 where "EOT \<equiv> 0xFF"

definition handle_modifiers :: "'a tty_state_scheme \<Rightarrow> u8 \<Rightarrow> bool \<Rightarrow> bool \<times> 'a tty_state_scheme" where
  "handle_modifiers s code brk =
     (if code = 42 \<or> code = 54 then (True, s\<lparr>modifs := (modifs s)\<lparr>m_shift := \<not> brk\<rparr>\<rparr>)
      else if code = 29 \<or> code = 97 then (True, s\<lparr>modifs := (modifs s)\<lparr>m_ctrl := \<not> brk\<rparr>\<rparr>)
      else if code = 56 then (True, s\<lparr>modifs := (modifs s)\<lparr>m_alt := \<not> brk\<rparr>\<rparr>)
      else if code = 100 then (True, s\<lparr>modifs := (modifs s)\<lparr>m_altgr := \<not> brk\<rparr>\<rparr>)
      else (False, s))"

text \<open>
  Three keys reach the machine: the reset line of the processor, the power management and the debug
  interrupt. \<open>M\<close> is what they do to the state, if the machine goes on.
\<close>

datatype machine_action = Reset_cpu | Acpi_poweroff | Debug_interrupt

definition handle_raw ::
    "(machine_action \<Rightarrow> 'a tty_state_scheme \<Rightarrow> 'a tty_state_scheme res) \<Rightarrow> 'a tty_state_scheme \<Rightarrow> u8 \<Rightarrow> (bool \<times> 'a tty_state_scheme) res" where
  "handle_raw M s code =
     rbind (if m_ctrl (modifs s) \<and> m_shift (modifs s)
            then if code = KEYC_DEL then M Reset_cpu s
                 else if code = KEYC_END
                 then rbind (M Acpi_poweroff s) (\<lambda>s.
                        puts s (cur_tty s) (10 # map of_char ''Could not shutdown. Sorry.'' @ [10]))
                 else if code = KEYC_HOME then M Debug_interrupt s
                 else Inr s
            else Inr s) (\<lambda>s.
     if m_ctrl (modifs s) \<and> code \<ge> KEYC_F1 \<and> code \<le> KEYC_F8
     then rbind (tty_set_cur_term s (code - KEYC_F1)) (\<lambda>s. Inr (True, s))
     else if code = KEYC_F12 then rbind (select_tty s kout_tty) (\<lambda>s. Inr (True, s))
     else if code = KEYC_PAGE_UP then Inr (True, scroll_line_up s)
     else if code = KEYC_PAGE_DOWN then Inr (True, scroll_line_down s)
     else if code = KEYC_HOME then Inr (True, scroll_to_top s)
     else if code = KEYC_END then Inr (True, scroll_to_bottom s (cur_tty s))
     else Inr (False, s))"

text \<open>\<^verbatim>\<open>inbuf[incount++] = c\<close>\<close>

definition put_input :: "'a tty_state_scheme \<Rightarrow> tty_id \<Rightarrow> u8 \<Rightarrow> 'a tty_state_scheme res" where
  "put_input s t c =
     (if t_incount (ttys s t) \<ge> TTY_INBUF_SIZE then Inl Bad_access
      else Inr (upd_tty s t (\<lambda>u. u\<lparr>t_inbuf := (t_inbuf u)(unat (t_incount u) := c), t_incount := t_incount u + 1\<rparr>)))"

definition handle_cbreak_input :: "'a tty_state_scheme \<Rightarrow> u8 \<Rightarrow> (bool \<times> 'a tty_state_scheme) res" where
  "handle_cbreak_input s c =
     (let t = cur_tty s
      in if c = 10 \<or> c = EOT
         then rbind (if c = 10 then rbind (tty_putc s t 10) (\<lambda>s. put_input s t 10) else Inr s) (\<lambda>s.
              rbind (put_input (upd_tty s t (\<lambda>u. u\<lparr>t_eotcount := t_eotcount u + 1\<rparr>)) t 0) (\<lambda>s. Inr (True, s)))
         else if c = 8
         then if t_incount (ttys s t) > 0
              then rbind (tty_putc s t 8) (\<lambda>s.
                   if t_incount (ttys s t) - 1 \<ge> TTY_INBUF_SIZE then Inl Bad_access
                   else Inr (True, upd_tty s t (\<lambda>u. u\<lparr>
                     t_eotcount := (if t_inbuf u (unat (t_incount u - 1)) = 0 then t_eotcount u - 1 else t_eotcount u),
                     t_incount := t_incount u - 1\<rparr>)))
              else Inr (True, s)
         else Inr (False, s))"

text \<open>The loop that answers requests; each round removes one from the list.\<close>

fun answer_loop :: "nat \<Rightarrow> 'a tty_state_scheme drivers \<Rightarrow> 'a tty_state_scheme \<Rightarrow> tty_id \<Rightarrow> 'a tty_state_scheme res" where
  "answer_loop n D s t =
     rbind (can_answer_rq s t) (\<lambda>yes.
       if yes then (case n of 0 \<Rightarrow> Inl Diverges | Suc n \<Rightarrow> rbind (answer_rq D s t) (\<lambda>s. answer_loop n D s t))
       else Inr s)"

declare answer_loop.simps [simp del]

definition key_char :: "modifiers \<Rightarrow> keymap_entry \<Rightarrow> u8" where
  "key_char m e =
     (if m_shift m \<or> m_capslock m then km_shift e
      else if m_altgr m then km_altgr e
      else if m_ctrl m then km_ctrl e
      else km_normal e)"

abbreviation (input) MAX_REQUESTS :: nat where "MAX_REQUESTS \<equiv> 65536"

definition handle_input :: "'a tty_state_scheme drivers \<Rightarrow> 'a tty_state_scheme \<Rightarrow> u8 \<Rightarrow> 'a tty_state_scheme res" where
  "handle_input D s code =
     (case cur_map s of
        None \<Rightarrow> Inr s
      | Some km \<Rightarrow>
          if unat code \<ge> length km then Inl Bad_access
          else let c = key_char (modifs s) (km ! unat code); t = cur_tty s
          in if c = 0 \<or> t_incount (ttys s t) = TTY_INBUF_SIZE then Inr s
             else if t_flags (ttys s t) AND TTY_RAW \<noteq> 0 \<and> c = EOT then Inr s
             else rbind (if t_flags (ttys s t) AND TTY_RAW = 0 then handle_cbreak_input s c else Inr (False, s)) (\<lambda>(done, s).
                  rbind (if done then Inr s
                         else rbind (if t_flags (ttys s t) AND TTY_ECHO \<noteq> 0 \<and> c \<noteq> EOT
                                     then rbind (tty_putc s t c) (\<lambda>s. Inr (scroll_to_bottom s t)) else Inr s) (\<lambda>s.
                                put_input s t c)) (\<lambda>s.
                    answer_loop MAX_REQUESTS D s t)))"

definition tty_irq_handler ::
    "(machine_action \<Rightarrow> 'a tty_state_scheme \<Rightarrow> 'a tty_state_scheme res) \<Rightarrow> 'a tty_state_scheme drivers \<Rightarrow> 'a tty_state_scheme \<Rightarrow> u8
       \<Rightarrow> 'a tty_state_scheme res" where
  "tty_irq_handler M D s data =
     rbind (get_keycode s data) (\<lambda>(keyc, brk, s).
       if keyc = 0 then Inr s
       else case handle_modifiers s keyc brk of (handled, s) \<Rightarrow>
         if handled \<or> brk then Inr s
         else rbind (handle_raw M s keyc) (\<lambda>(handled, s).
                if handled then Inr s else handle_input D s keyc))"

section \<open>tty.c: keymaps and initialisation\<close>

definition tty_register_keymap :: "'a tty_state_scheme \<Rightarrow> string \<Rightarrow> keymap \<Rightarrow> 'a tty_state_scheme res" where
  "tty_register_keymap s name km =
     rbind (krealloc s (keymaps_ptr s) ((of_nat (length (keymaps s)) + 1) * 8)) (\<lambda>(p, s).
       if p = 0 then Inl Null_deref
       else let s = s\<lparr>keymaps_ptr := p, keymaps := keymaps s @ [(name, km)]\<rparr>
            in Inr (if cur_map s = None then s\<lparr>cur_map := Some km\<rparr> else s))"

definition tty_select_keymap :: "'a tty_state_scheme \<Rightarrow> string \<Rightarrow> int \<times> 'a tty_state_scheme" where
  "tty_select_keymap s name =
     (case List.find (\<lambda>(n, m). n = name) (keymaps s) of
        None \<Rightarrow> (- ENOENT, s) | Some (n, m) \<Rightarrow> (0, s\<lparr>cur_map := Some m\<rparr>))"

definition tty_puts :: "'a tty_state_scheme \<Rightarrow> u8 list \<Rightarrow> 'a tty_state_scheme res" where
  "tty_puts s str = puts s (cur_tty s) str"

definition tty_names :: "string list" where
  "tty_names = [''tty0'', ''tty1'', ''tty2'', ''tty3'', ''tty4'', ''tty5'', ''tty6'', ''tty7'']"

abbreviation (input) FS_CHARDEV :: u32 where "FS_CHARDEV \<equiv> 0x04"

definition init_one :: "'a tty_state_scheme \<Rightarrow> tty_id \<Rightarrow> nat \<Rightarrow> bool \<Rightarrow> 'a tty_state_scheme" where
  "init_one s t tid early =
     (let s = s\<lparr>inodes := (inodes s)(t_inode (ttys s t) \<mapsto>
            \<lparr>i_name = tty_names ! tid, i_flags = FS_CHARDEV, i_perm = 0, i_length = 0, i_uid = 0, i_gid = 0, i_opencount = 0,
             i_impl = tid, i_link = NULL, i_ops = TTY_IOPS, i_sb = NULL\<rparr>)\<rparr>;
          s = upd_tty s t (\<lambda>c. c\<lparr>t_id := tid, t_incount := 0, t_status := 0x07, t_flags := TTY_ECHO\<rparr>);
          s = (if early then s
               else case list_create (lists s) of (l, h) \<Rightarrow> upd_tty (s\<lparr>lists := h\<rparr>) t (\<lambda>c. c\<lparr>t_requests := l\<rparr>))
      in clear_tty s t)"

fun init_ttys :: "'a tty_state_scheme \<Rightarrow> nat list \<Rightarrow> 'a tty_state_scheme res" where
  "init_ttys s [] = Inr s"
| "init_ttys s (i # is) =
     (let s = init_one s i i False
      in rbind (devfs_register s (t_inode (ttys s i))) (\<lambda>(_, s). init_ttys s is))"

definition init_tty :: "'a tty_state_scheme \<Rightarrow> 'a tty_state_scheme res" where
  "init_tty s =
     rbind (init_ttys s [0..<NUM_TTYS]) (\<lambda>s.
       case list_create (lists s) of (l, h) \<Rightarrow>
         let s = upd_tty (s\<lparr>lists := h\<rparr>) kout_tty (\<lambda>c. c\<lparr>t_requests := l\<rparr>);
             s = s\<lparr>modifs := (modifs s)\<lparr>m_shift := False, m_ctrl := False, m_alt := False, m_altgr := False\<rparr>,
                   keymaps := [], cur_map := None\<rparr>
         in tty_set_cur_term s 0)"

section \<open>tty.c: kernel output\<close>

definition init_kout :: "'a tty_state_scheme \<Rightarrow> 'a tty_state_scheme" where
  "init_kout s = (init_one s kout_tty kout_id True)\<lparr>cur_tty := kout_tty\<rparr>"

definition kout_puts :: "'a tty_state_scheme \<Rightarrow> u8 list \<Rightarrow> 'a tty_state_scheme res" where
  "kout_puts s str = puts s kout_tty str"

definition kout_set_status :: "'a tty_state_scheme \<Rightarrow> u8 \<Rightarrow> u8 \<times> 'a tty_state_scheme" where
  "kout_set_status s status = (t_status (ttys s kout_tty), upd_tty s kout_tty (\<lambda>c. c\<lparr>t_status := status\<rparr>))"

definition kout_select :: "'a tty_state_scheme \<Rightarrow> 'a tty_state_scheme res" where
  "kout_select s = select_tty s kout_tty"

definition kout_clear :: "'a tty_state_scheme \<Rightarrow> 'a tty_state_scheme" where
  "kout_clear s = flush_tty (clear_tty s kout_tty) kout_tty"

end
