(* ===== verification/Kos_Screen.thy ===== *)
theory Kos_Screen
  imports Kos_Tty Kos_Image
begin

text \<open>
  Results about the terminals: the screen shows the current terminal, printing text with short lines stays
  inside the buffers, long lines do not, a line that is typed is the line that is read, and which scan codes
  can be decoded.
\<close>

section \<open>The screen shows the current terminal\<close>

definition mirrors :: "'a tty_state_scheme \<Rightarrow> bool" where
  "mirrors s \<longleftrightarrow> (\<forall>j < CON_MEM_CHARS. vmem s j = t_outbuf (ttys s (cur_tty s)) j)"

definition screen_view :: "'a tty_state_scheme \<Rightarrow> (tty_id \<Rightarrow> tty_t) \<times> tty_id \<times> (nat \<Rightarrow> u16)" where
  "screen_view s = (ttys s, cur_tty s, vmem s)"

interpretation scr: kernel_frame "screen_view :: 'a tty_state_scheme \<Rightarrow> _"
  by unfold_locales (simp_all add: screen_view_def)

lemma mirrors_view: "screen_view s' = screen_view s \<Longrightarrow> mirrors s' = mirrors s"
  by (simp add: mirrors_def screen_view_def)

lemma mirrors_upd:
  "(\<And>c. t_outbuf (f c) = t_outbuf c) \<Longrightarrow> mirrors (upd_tty s t f) = mirrors s"
  by (simp add: mirrors_def)

lemma mirrors_line [simp]: "mirrors (set_start_line s l) = mirrors s"
  by (simp add: mirrors_def)

lemma mirrors_scroll: "mirrors s \<Longrightarrow> mirrors (scroll s t)"
  by (auto simp: mirrors_def scroll_def scroll_buf_def Let_def)

lemma mirrors_scroll_while: "mirrors s \<Longrightarrow> mirrors (scroll_while s t)"
proof (induction s t rule: scroll_while.induct)
  case (1 s t)
  then show ?case by (subst scroll_while.simps) (auto intro: mirrors_scroll)
qed

lemma mirrors_update_cursor: "update_cursor s t = Inr s' \<Longrightarrow> mirrors s' = mirrors s"
  by (auto simp: update_cursor_def mirrors_def cga_write_def Let_def elim!: resE split: if_splits)

lemma mirrors_put_cell: "put_cell s t c = Inr s' \<Longrightarrow> mirrors s \<longrightarrow> mirrors s'"
  by (auto simp: put_cell_def mirrors_def Let_def split: if_splits)

lemma mirrors_put_end: "put_end s t = Inr s' \<Longrightarrow> mirrors s \<longrightarrow> mirrors s'"
  unfolding put_end_def Let_def
  by (drule mirrors_update_cursor) (auto intro!: mirrors_scroll_while simp: mirrors_upd)

lemma mirrors_put_plain: "put_plain s t c = Inr s' \<Longrightarrow> mirrors s \<longrightarrow> mirrors s'"
  unfolding put_plain_def
  by (auto elim!: resE dest!: mirrors_put_cell mirrors_put_end simp: mirrors_upd split: if_splits)

lemma mirrors_tab: "tab_loop n s t = Inr s' \<Longrightarrow> mirrors s \<longrightarrow> mirrors s'"
proof (induction n arbitrary: s)
  case 0
  then show ?case unfolding tab_loop.simps [of 0] by (auto elim!: resE dest!: mirrors_put_plain)
next
  case (Suc n)
  from Suc.prems show ?case unfolding tab_loop.simps [of "Suc n"]
    by (auto elim!: resE dest!: mirrors_put_plain Suc.IH)
qed

lemma mirrors_putc: "tty_putc s t c = Inr s' \<Longrightarrow> mirrors s \<longrightarrow> mirrors s'"
  unfolding tty_putc_def
  by (auto elim!: resE dest!: mirrors_put_end mirrors_tab mirrors_put_plain split: if_splits)

lemma mirrors_puts: "puts s t cs = Inr s' \<Longrightarrow> mirrors s \<longrightarrow> mirrors s'"
  by (induction cs arbitrary: s) (auto elim!: resE dest!: mirrors_putc)

lemma mirrors_select: "select_tty s t = Inr s' \<Longrightarrow> mirrors s'"
  unfolding select_tty_def by (drule mirrors_update_cursor) (simp add: mirrors_def flush_tty_def)

lemma mirrors_set_cur_term: "tty_set_cur_term s n = Inr s' \<Longrightarrow> mirrors s \<longrightarrow> mirrors s'"
  by (auto simp: tty_set_cur_term_def split: if_splits dest: mirrors_select)

lemma mirrors_scrolling:
  "mirrors (scroll_line_up s) = mirrors s" "mirrors (scroll_line_down s) = mirrors s" "mirrors (scroll_to_top s) = mirrors s"
  "mirrors (scroll_to_bottom s t) = mirrors s"
  by (simp_all add: scroll_line_up_def scroll_line_down_def scroll_to_top_def scroll_to_bottom_def mirrors_upd Let_def)

lemma mirrors_kout_clear: "mirrors s \<Longrightarrow> mirrors (kout_clear s)"
  by (auto simp: kout_clear_def flush_tty_def clear_tty_def mirrors_def)

text \<open>The keyboard interrupt. Callbacks of requests and the machine leave the screen alone.\<close>

definition callbacks_keep :: "('s \<Rightarrow> 'v) \<Rightarrow> 's drivers \<Rightarrow> bool" where
  "callbacks_keep view D \<longleftrightarrow> (\<forall>f s file r b n s'. callback_of D f s file r b n = Inr s' \<longrightarrow> view s' = view s)"

lemma mirrors_rq_finish:
  assumes "callbacks_keep screen_view D"
  shows "rq_finish D s rq = Inr s' \<Longrightarrow> mirrors s' = mirrors s"
proof -
  assume "rq_finish D s rq = Inr s'"
  then have "screen_view s' = screen_view s" using assms unfolding rq_finish_def callbacks_keep_def
    by (auto elim!: resE dest!: scr.view_pm split: if_splits) (simp_all add: screen_view_def)
  then show ?thesis by (rule mirrors_view)
qed

lemma mirrors_copy_data: "copy_data s t b n = Inr (k, s') \<Longrightarrow> mirrors s' = mirrors s"
proof -
  assume "copy_data s t b n = Inr (k, s')"
  then have "screen_view s' = screen_view s" unfolding copy_data_def by (auto elim!: resE dest!: scr.view_pm split: if_splits)
  then show ?thesis by (rule mirrors_view)
qed

lemma mirrors_remove_data: "remove_data s t k = Inr s' \<Longrightarrow> mirrors s' = mirrors s"
  by (auto simp: remove_data_def mirrors_upd Let_def split: if_splits)

lemma mirrors_put_input: "put_input s t c = Inr s' \<Longrightarrow> mirrors s' = mirrors s"
  by (auto simp: put_input_def mirrors_upd split: if_splits)

lemma mirrors_objects [simp]: "mirrors (s\<lparr>lists := h\<rparr>) = mirrors s" "mirrors (s\<lparr>requests := r\<rparr>) = mirrors s"
  by (simp_all add: mirrors_def)

lemma mirrors_answer_rq:
  assumes "callbacks_keep screen_view D"
  shows "answer_rq D s t = Inr s' \<Longrightarrow> mirrors s' = mirrors s"
  unfolding answer_rq_def Let_def
  by (auto elim!: resE dest!: mirrors_rq_finish [OF assms] mirrors_copy_data mirrors_remove_data mirrors_update_cursor)

lemma mirrors_answer_loop:
  assumes C: "callbacks_keep screen_view D"
  shows "answer_loop n D s t = Inr s' \<Longrightarrow> mirrors s' = mirrors s"
proof (induction n arbitrary: s)
  case 0
  then show ?case unfolding answer_loop.simps [of 0] by (auto elim!: resE)
next
  case (Suc n)
  from Suc.prems show ?case unfolding answer_loop.simps [of "Suc n"]
    by (auto elim!: resE dest!: mirrors_answer_rq [OF C] Suc.IH)
qed

lemma mirrors_cbreak: "handle_cbreak_input s c = Inr (b, s') \<Longrightarrow> mirrors s \<longrightarrow> mirrors s'"
  unfolding handle_cbreak_input_def Let_def
  by (auto elim!: resE dest!: mirrors_putc mirrors_put_input simp: mirrors_upd split: if_splits)

lemma mirrors_handle_input:
  assumes C: "callbacks_keep screen_view D"
  shows "handle_input D s code = Inr s' \<Longrightarrow> mirrors s \<longrightarrow> mirrors s'"
  unfolding handle_input_def Let_def
  by (auto elim!: resE dest!: mirrors_answer_loop [OF C] mirrors_cbreak mirrors_putc mirrors_put_input simp: mirrors_scrolling
    split: option.splits if_splits)

definition machine_keeps :: "('s \<Rightarrow> 'v) \<Rightarrow> (machine_action \<Rightarrow> 's \<Rightarrow> 's res) \<Rightarrow> bool" where
  "machine_keeps view M \<longleftrightarrow> (\<forall>a s s'. M a s = Inr s' \<longrightarrow> view s' = view s)"

lemma mirrors_handle_raw:
  assumes M: "machine_keeps screen_view M"
  shows "handle_raw M s code = Inr (b, s') \<Longrightarrow> mirrors s \<longrightarrow> mirrors s'"
proof -
  have m: "M a u = Inr v \<Longrightarrow> mirrors v = mirrors u" for a u v using M unfolding machine_keeps_def by (blast dest: mirrors_view)
  assume "handle_raw M s code = Inr (b, s')"
  then show ?thesis unfolding handle_raw_def
    by (elim rbindE) (auto elim!: resE dest!: m mirrors_puts mirrors_set_cur_term mirrors_select simp: mirrors_scrolling
      simp del: puts.simps split: if_splits)
qed

lemma mirrors_get_keycode: "get_keycode s d = Inr (k, b, s') \<Longrightarrow> mirrors s' = mirrors s"
  unfolding get_keycode_def Let_def by (auto elim!: resE simp: mirrors_def)

lemma mirrors_modifiers: "handle_modifiers s k b = (h, s') \<Longrightarrow> mirrors s' = mirrors s"
  by (auto simp: handle_modifiers_def mirrors_def split: if_splits)

lemma mirrors_irq:
  assumes M: "machine_keeps screen_view M" and C: "callbacks_keep screen_view D"
  shows "tty_irq_handler M D s d = Inr s' \<Longrightarrow> mirrors s \<longrightarrow> mirrors s'"
  unfolding tty_irq_handler_def
  by (auto elim!: resE dest!: mirrors_get_keycode mirrors_modifiers mirrors_handle_raw [OF M] mirrors_handle_input [OF C] split: prod.splits if_splits)

text \<open>Whatever is typed, printed and selected.\<close>

inductive screen_reaches ::
    "(machine_action \<Rightarrow> 'a tty_state_scheme \<Rightarrow> 'a tty_state_scheme res) \<Rightarrow> 'a tty_state_scheme drivers \<Rightarrow> 'a tty_state_scheme
       \<Rightarrow> 'a tty_state_scheme \<Rightarrow> bool" for M D s0 where
  start: "screen_reaches M D s0 s0"
| key: "screen_reaches M D s0 s \<Longrightarrow> tty_irq_handler M D s data = Inr u \<Longrightarrow> screen_reaches M D s0 u"
| program: "screen_reaches M D s0 s \<Longrightarrow> tty_write s file buffer count offset = Inr (r, u) \<Longrightarrow> screen_reaches M D s0 u"
| print: "screen_reaches M D s0 s \<Longrightarrow> kout_puts s cs = Inr u \<Longrightarrow> screen_reaches M D s0 u"
| select: "screen_reaches M D s0 s \<Longrightarrow> tty_set_cur_term s n = Inr u \<Longrightarrow> screen_reaches M D s0 u"
| kout: "screen_reaches M D s0 s \<Longrightarrow> kout_select s = Inr u \<Longrightarrow> screen_reaches M D s0 u"
| kclear: "screen_reaches M D s0 s \<Longrightarrow> screen_reaches M D s0 (kout_clear s)"
| colour: "screen_reaches M D s0 s \<Longrightarrow> kout_set_status s st = (old, u) \<Longrightarrow> screen_reaches M D s0 u"

lemma mirrors_write_loop: "write_loop s t b is = Inr s' \<Longrightarrow> mirrors s \<longrightarrow> mirrors s'"
  by (induction "is" arbitrary: s) (auto elim!: resE dest!: mirrors_putc)

lemma screen_reaches_mirrors:
  assumes "screen_reaches M D s0 s" and "machine_keeps screen_view M" and "callbacks_keep screen_view D" and "mirrors s0"
  shows "mirrors s"
  using assms(1,4)
proof (induction rule: screen_reaches.induct)
  case (program s fl buffer count offset r u)
  then show ?case unfolding tty_write_def by (auto elim!: resE dest!: mirrors_write_loop split: option.splits)
qed (auto dest: mirrors_irq [OF assms(2,3)] mirrors_puts mirrors_set_cur_term mirrors_select
    simp: kout_puts_def kout_select_def mirrors_kout_clear kout_set_status_def mirrors_upd)

text \<open>
  C13. The screen shows the current terminal: whatever keys are pressed, programs and the kernel print on any
  terminal, and however terminals are switched and scrolled, video memory holds what the buffer of the current
  terminal holds.
\<close>

theorem screen_shows_current:
  assumes "screen_reaches M D s0 s" and "machine_keeps screen_view M" and "callbacks_keep screen_view D" and "mirrors s0"
  shows "\<forall>j < 16384. vmem s j = t_outbuf (ttys s (cur_tty s)) j"
  using screen_reaches_mirrors [OF assms] by (simp add: mirrors_def)

section \<open>Scan codes\<close>

lemma u8_low: "\<not> bit (x :: u8) 7 \<Longrightarrow> unat x < 128"
proof -
  assume b: "\<not> bit x 7"
  have "bit x n \<longrightarrow> n < 7" for n
    using b bit_u8_beyond [of n x] by (cases "n < 7"; cases "n = 7") simp_all
  then have "take_bit 7 x = x" by (intro bit_word_eqI) (auto simp: bit_take_bit_iff)
  then have "unat x = take_bit 7 (unat x)" by (metis unsigned_take_bit_eq)
  moreover have "take_bit 7 (unat x) < 2 ^ 7" by (rule take_bit_nat_less_exp)
  ultimately show ?thesis by simp
qed

lemma unat_ucast_u8: "unat (ucast (x :: u8) :: u16) = unat x"
proof -
  have "unat x < 256" using unsigned_less [of x] by simp
  then show ?thesis by (simp add: unsigned_ucast_eq take_bit_nat_eq_self)
qed

lemma key_data:
  "data AND 0x80 = 0 \<Longrightarrow> unat (ucast (data :: u8) :: u16) < 128" "unat (ucast (data AND NOT 0x80) :: u16) < 128"
proof -
  have n: "bit (0x80 :: u8) 7" by (simp add: bit_numeral_rec)
  show "unat (ucast data :: u16) < 128" if "data AND 0x80 = 0"
  proof -
    have "bit (data AND 0x80) 7 = bit (0 :: u8) 7" using that by simp
    with n show ?thesis using u8_low [of data] by (simp add: bit_and_iff unat_ucast_u8)
  qed
  show "unat (ucast (data AND NOT 0x80) :: u16) < 128"
    using n u8_low [of "data AND NOT 0x80"] by (simp add: bit_and_iff bit_not_iff unat_ucast_u8)
qed

text \<open>
  C35. Decoding of scan codes: for every byte the keyboard sends, in every state of the decoder, the index into
  the translation tables is in range, with one exception: the byte \<open>0xE1\<close> after \<open>0xE0\<close>, which reads behind the
  end of the tables.
\<close>

theorem get_keycode_in_range:
  "get_keycode s data = Inl e \<longleftrightarrow> e = Bad_access \<and> key_e0 s \<noteq> 0 \<and> key_e1 s = 0 \<and> data = 0xE1"
proof (cases "data AND 0x80 \<noteq> 0 \<and> (key_e1 s \<noteq> 0 \<or> data \<noteq> 0xE1) \<and> (key_e0 s \<noteq> 0 \<or> data \<noteq> 0xE0)")
  case True
  then show ?thesis using key_data(2) [of data]
    by (auto simp: get_keycode_def Let_def kbc_scan_to_keycode_def)
next
  case False
  then consider "data AND 0x80 = 0" | "data = 0xE1" "key_e1 s = 0" | "data = 0xE0" "key_e0 s = 0" by blast
  then show ?thesis
  proof cases
    case 1
    then have "data \<noteq> 0xE1" "data \<noteq> 0xE0" by auto
    with 1 key_data(1) [of data] show ?thesis by (auto simp: get_keycode_def Let_def kbc_scan_to_keycode_def)
  qed (auto simp: get_keycode_def Let_def kbc_scan_to_keycode_def)
qed

section \<open>Printing stays inside the buffers\<close>

lemma unat_u8_add: "unat (a :: u8) + unat b < 256 \<Longrightarrow> unat (a + b) = unat a + unat b"
  by (simp add: unat_word_ariths)

lemma unat_u8_sub: "unat b \<le> unat (a :: u8) \<Longrightarrow> unat (a - b) = unat a - unat b"
  by (simp add: unat_sub_if_size word_le_nat_alt)

text \<open>
  The cursor is on the screen, the screen ends at the last line written, and it starts at line 0 until the
  first 25 lines are used.
\<close>

definition cursor_ok :: "tty_t \<Rightarrow> bool" where
  "cursor_ok c \<longleftrightarrow> unat (t_x c) < 80 \<and> unat (t_screenY c) < 25 \<and> unat (t_outstart c) \<le> 175
     \<and> unat (t_y c) = unat (t_outstart c) + unat (t_screenY c) \<and> (t_outstart c = 0 \<or> t_screenY c = 24)"

definition requests_ok :: "'a tty_state_scheme \<Rightarrow> tty_id \<Rightarrow> bool" where
  "requests_ok s t \<longleftrightarrow> (case list_size (lists s) (t_requests (ttys s t)) of Inl e \<Rightarrow> False | Inr n \<Rightarrow> True)"

definition tty_ok :: "'a tty_state_scheme \<Rightarrow> tty_id \<Rightarrow> bool" where
  "tty_ok s t \<longleftrightarrow> cursor_ok (ttys s t) \<and> requests_ok s t"

lemma update_cursor_ok:
  "requests_ok s t \<Longrightarrow> \<exists>g. update_cursor s t = Inr (s\<lparr>cga := g\<rparr>)"
proof (cases "t = cur_tty s")
  case False
  then show ?thesis by (intro exI [of _ "cga s"]) (simp add: update_cursor_def)
next
  case True
  assume "requests_ok s t"
  then obtain n where n: "list_size (lists s) (t_requests (ttys s t)) = Inr n" by (auto simp: requests_ok_def split: sum.splits)
  define pos where "pos = (if n > 0 then of_nat (CPOS (ttys s t)) else 2001 :: u16)"
  have "update_cursor s t = Inr (s\<lparr>cga := (cga s)(15 := ucast pos, 14 := ucast (drop_bit 8 pos))\<rparr>)"
    using n True by (simp add: update_cursor_def cga_write_def Let_def pos_def)
  then show ?thesis by blast
qed

lemma scroll_while_idle: "unat (t_screenY (ttys s t)) < 25 \<Longrightarrow> scroll_while s t = s"
  by (subst scroll_while.simps) (simp add: word_le_nat_alt)

lemma requests_ok_upd [simp]:
  "(\<And>c. t_requests (f c) = t_requests c) \<Longrightarrow> requests_ok (upd_tty s t f) t = requests_ok s t" "requests_ok (s\<lparr>cga := g\<rparr>) t = requests_ok s t"
  "requests_ok (s\<lparr>vmem := v\<rparr>) t = requests_ok s t" "requests_ok (set_start_line s l) t = requests_ok s t"
  by (simp_all add: requests_ok_def)

lemma put_end_idle:
  "tty_ok s t \<Longrightarrow> \<exists>g. put_end s t = Inr (s\<lparr>cga := g\<rparr>)"
  using update_cursor_ok [of s t]
  by (simp add: tty_ok_def cursor_ok_def put_end_def scroll_while_idle word_le_nat_alt)

lemma scroll_tty:
  "ttys (scroll s t) t =
     (if t_outstart (ttys s t) + 1 > 175
      then (ttys s t)\<lparr>t_outbuf := scroll_buf (t_outbuf (ttys s t)) (t_status (ttys s t)), t_y := t_y (ttys s t) - 1,
                t_screenY := t_screenY (ttys s t) - 1\<rparr>
      else (ttys s t)\<lparr>t_outstart := t_outstart (ttys s t) + 1, t_screenY := t_screenY (ttys s t) - 1\<rparr>)"
  by (auto simp: scroll_def Let_def)

text \<open>A new line at the end of the screen scrolls once.\<close>

lemma scroll_once:
  assumes c: "unat (t_screenY (ttys s t)) = 25" "unat (t_outstart (ttys s t)) \<le> 175" "unat (t_x (ttys s t)) < 80"
    "unat (t_y (ttys s t)) = unat (t_outstart (ttys s t)) + 25" and r: "requests_ok s t"
  shows "tty_ok (scroll s t) t \<and> t_x (ttys (scroll s t) t) = t_x (ttys s t)"
proof -
  have o: "unat (t_outstart (ttys s t) + 1) = unat (t_outstart (ttys s t)) + 1" using c(2) by (simp add: unat_u8_add)
  have y: "unat (t_y (ttys s t) - 1) = unat (t_outstart (ttys s t)) + 24" using c(4) by (simp add: unat_u8_sub)
  have "t_screenY (ttys s t) = 25" using c(1) by (simp add: word_unat_eq_iff)
  then have z: "t_screenY (ttys s t) - 1 = 24" by simp
  have r': "requests_ok (scroll s t) t" using r by (auto simp: scroll_def Let_def)
  show ?thesis
  proof (cases "t_outstart (ttys s t) + 1 > 175")
    case True
    then have "unat (t_outstart (ttys s t)) = 175" using c(2) o by (simp add: word_less_nat_alt)
    with True c y z r' show ?thesis by (simp add: tty_ok_def cursor_ok_def scroll_tty)
  next
    case False
    with o c z r' show ?thesis by (simp add: tty_ok_def cursor_ok_def scroll_tty word_less_nat_alt)
  qed
qed

lemma put_end_newline:
  assumes "tty_ok s t"
  shows "returns (put_end (upd_tty s t (\<lambda>c. c\<lparr>t_x := 0, t_y := t_y c + 1, t_screenY := t_screenY c + 1\<rparr>)) t)
    (\<lambda>u. tty_ok u t \<and> t_x (ttys u t) = 0)"
proof -
  let ?s = "upd_tty s t (\<lambda>c. c\<lparr>t_x := 0, t_y := t_y c + 1, t_screenY := t_screenY c + 1\<rparr>)"
  from assms have c: "cursor_ok (ttys s t)" and r: "requests_ok ?s t" by (simp_all add: tty_ok_def)
  from c have n: "unat (t_screenY (ttys s t) + 1) = unat (t_screenY (ttys s t)) + 1" "unat (t_y (ttys s t) + 1) = unat (t_y (ttys s t)) + 1"
    by (simp_all add: cursor_ok_def unat_u8_add)
  have u: "put_end ?s t = update_cursor (scroll_while ?s t) t" by (simp add: put_end_def)
  have ok: "tty_ok (scroll_while ?s t) t \<and> t_x (ttys (scroll_while ?s t) t) = 0"
  proof (cases "unat (t_screenY (ttys s t)) = 24")
    case True
    then have "tty_ok (scroll ?s t) t \<and> t_x (ttys (scroll ?s t) t) = t_x (ttys ?s t)"
      using c n r by (intro scroll_once) (simp_all add: cursor_ok_def)
    moreover have "scroll_while ?s t = scroll_while (scroll ?s t) t"
      using True n by (subst scroll_while.simps) (simp add: word_le_nat_alt)
    ultimately show ?thesis using scroll_while_idle [of "scroll ?s t" t] by (simp add: tty_ok_def cursor_ok_def)
  next
    case False
    with c have "unat (t_screenY (ttys ?s t)) < 25" using n by (simp add: cursor_ok_def)
    moreover have "t_outstart (ttys s t) = 0" using c False by (auto simp: cursor_ok_def)
    ultimately show ?thesis using c n r by (simp add: scroll_while_idle tty_ok_def cursor_ok_def)
  qed
  then obtain g where "update_cursor (scroll_while ?s t) t = Inr ((scroll_while ?s t)\<lparr>cga := g\<rparr>)"
    using update_cursor_ok by (auto simp: tty_ok_def)
  with u ok show ?thesis by (simp add: tty_ok_def)
qed

text \<open>The column after a character, and texts that stay left of column 80.\<close>

definition next_col :: "nat \<Rightarrow> u8 \<Rightarrow> nat" where
  "next_col x c = (if c = 10 \<or> c = 13 then 0 else if c = 8 then x - 1 else if c = 9 then (x div 7 + 1) * 7 else x + 1)"

fun text_fits :: "nat \<Rightarrow> u8 list \<Rightarrow> bool" where
  "text_fits x [] = True"
| "text_fits x (c # cs) \<longleftrightarrow> next_col x c < 80 \<and> text_fits (next_col x c) cs"

lemma CPOS_bound: "cursor_ok c \<Longrightarrow> CPOS c < 16384"
  by (auto simp: cursor_ok_def CPOS_def)

lemma put_cell_ok:
  assumes "tty_ok s t"
  shows "\<exists>v. put_cell s t c = Inr ((upd_tty s t (\<lambda>d. d\<lparr>t_outbuf := (t_outbuf d)(CPOS (ttys s t) := cell c (t_status (ttys s t)))\<rparr>))\<lparr>vmem := v\<rparr>)"
proof -
  have "CPOS (ttys s t) < 16384" using assms CPOS_bound by (simp add: tty_ok_def)
  then show ?thesis
    by (cases "t = cur_tty s") (auto simp: put_cell_def Let_def upd_tty_def intro: exI [of _ "vmem s"])
qed

lemma tty_ok_vmem [simp]: "tty_ok (s\<lparr>vmem := v\<rparr>) t = tty_ok s t" "tty_ok (s\<lparr>cga := g\<rparr>) t = tty_ok s t"
  by (simp_all add: tty_ok_def)

lemma upd_tty_vmem: "upd_tty (s\<lparr>vmem := v\<rparr>) t f = (upd_tty s t f)\<lparr>vmem := v\<rparr>"
  by (simp add: upd_tty_def)

lemma upd_tty_twice: "upd_tty (upd_tty s t f) t g = upd_tty s t (\<lambda>d. g (f d))"
  by (simp add: upd_tty_def)

lemma put_plain_char:
  assumes "tty_ok s t" and "c \<noteq> 10" "c \<noteq> 13" "c \<noteq> 8" and "unat (t_x (ttys s t)) < 79"
  shows "\<exists>v g. put_plain s t c = Inr ((upd_tty s t (\<lambda>d. d\<lparr>
      t_outbuf := (t_outbuf d)(CPOS (ttys s t) := cell c (t_status (ttys s t))), t_x := t_x d + 1\<rparr>))\<lparr>vmem := v, cga := g\<rparr>)"
proof -
  from put_cell_ok [OF assms(1), of c] obtain v where
    v: "put_cell s t c = Inr ((upd_tty s t (\<lambda>d. d\<lparr>t_outbuf := (t_outbuf d)(CPOS (ttys s t) := cell c (t_status (ttys s t)))\<rparr>))\<lparr>vmem := v\<rparr>)" ..
  define u where "u = (upd_tty s t (\<lambda>d. d\<lparr>
      t_outbuf := (t_outbuf d)(CPOS (ttys s t) := cell c (t_status (ttys s t))), t_x := t_x d + 1\<rparr>))\<lparr>vmem := v\<rparr>"
  have "tty_ok u t" using assms by (simp add: u_def tty_ok_def cursor_ok_def unat_u8_add)
  from put_end_idle [OF this] obtain g where "put_end u t = Inr (u\<lparr>cga := g\<rparr>)" ..
  moreover have "put_plain s t c = put_end u t" using v assms(2-4) by (simp add: put_plain_def upd_tty_vmem upd_tty_twice u_def)
  ultimately show ?thesis by (auto simp: u_def)
qed

lemma put_plain_ok:
  assumes ok: "tty_ok s t" and c: "c \<noteq> 9" and n: "next_col (unat (t_x (ttys s t))) c < 80"
  shows "returns (put_plain s t c) (\<lambda>u. tty_ok u t \<and> unat (t_x (ttys u t)) = next_col (unat (t_x (ttys s t))) c)"
proof -
  consider "c = 10" | "c = 13" | "c = 8" "1 \<le> t_x (ttys s t)" | "c = 8" "\<not> 1 \<le> t_x (ttys s t)" | "c \<noteq> 10" "c \<noteq> 13" "c \<noteq> 8" by blast
  then show ?thesis
  proof cases
    case 1
    with put_end_newline [OF ok] show ?thesis by (auto simp: put_plain_def next_col_def elim: returns_mono)
  next
    case 2
    have "tty_ok (upd_tty s t (\<lambda>c. c\<lparr>t_x := 0\<rparr>)) t" using ok by (simp add: tty_ok_def cursor_ok_def)
    from put_end_idle [OF this] this 2 show ?thesis by (auto simp: put_plain_def next_col_def)
  next
    case 3
    let ?s = "upd_tty s t (\<lambda>c. c\<lparr>t_x := t_x c - 1\<rparr>)"
    have x: "unat (t_x (ttys s t) - 1) = unat (t_x (ttys s t)) - 1" using 3(2) by (simp add: unat_u8_sub word_le_nat_alt)
    then have "tty_ok ?s t" using ok by (auto simp: tty_ok_def cursor_ok_def)
    from put_cell_ok [OF this, of "0x20"] obtain v where v: "put_cell ?s t 0x20 =
      Inr ((upd_tty ?s t (\<lambda>d. d\<lparr>t_outbuf := (t_outbuf d)(CPOS (ttys ?s t) := cell 0x20 (t_status (ttys ?s t)))\<rparr>))\<lparr>vmem := v\<rparr>)" (is "_ = Inr ?u") ..
    have "tty_ok ?u t" using \<open>tty_ok ?s t\<close> by (simp add: tty_ok_def cursor_ok_def)
    from put_end_idle [OF this] this v 3 x show ?thesis by (auto simp: put_plain_def next_col_def)
  next
    case 4
    then have "unat (t_x (ttys s t)) = 0" by (simp add: word_le_nat_alt)
    with put_end_idle [OF ok] ok 4 show ?thesis by (auto simp: put_plain_def next_col_def)
  next
    case 5
    with n c have x: "unat (t_x (ttys s t)) < 79" by (simp add: next_col_def)
    from put_plain_char [OF ok 5 x] ok 5 c x show ?thesis
      by (auto simp: tty_ok_def cursor_ok_def next_col_def unat_u8_add)
  qed
qed

lemma tab_loop_ok:
  "tty_ok s t \<Longrightarrow> (unat (t_x (ttys s t)) div 7 + 1) * 7 < 80 \<Longrightarrow> 7 \<le> n + 1 + unat (t_x (ttys s t)) mod 7 \<Longrightarrow>
     returns (tab_loop n s t) (\<lambda>u. tty_ok u t \<and> unat (t_x (ttys u t)) = (unat (t_x (ttys s t)) div 7 + 1) * 7)"
proof (induction n arbitrary: s)
  case (0 s)
  let ?x = "unat (t_x (ttys s t))"
  have "next_col ?x 0x20 < 80" using 0 by (simp add: next_col_def)
  from put_plain_ok [OF 0(1) _ this] obtain u where u: "put_plain s t 0x20 = Inr u" "tty_ok u t" "unat (t_x (ttys u t)) = ?x + 1"
    by (auto simp: next_col_def elim!: returnsE)
  have "?x mod 7 = 6" using 0(3) by (simp add: le_less_Suc_eq)
  then have "(?x + 1) mod 7 = 0" by (simp only: mod_next) simp
  moreover from this have "?x + 1 = (?x div 7 + 1) * 7" by (rule next_multiple) simp
  ultimately show ?case using u by (subst tab_loop.simps) (simp add: word_unat_eq_iff unat_mod)
next
  case (Suc n s)
  let ?x = "unat (t_x (ttys s t))"
  have "next_col ?x 0x20 < 80" using Suc.prems by (simp add: next_col_def)
  from put_plain_ok [OF Suc.prems(1) _ this] obtain u where u: "put_plain s t 0x20 = Inr u" "tty_ok u t" "unat (t_x (ttys u t)) = ?x + 1"
    by (auto simp: next_col_def elim!: returnsE)
  show ?case
  proof (cases "(?x + 1) mod 7 = 0")
    case True
    then have "?x + 1 = (?x div 7 + 1) * 7" by (rule next_multiple) simp
    with True u show ?thesis by (subst tab_loop.simps) (simp add: word_unat_eq_iff unat_mod)
  next
    case False
    then have "?x mod 7 + 1 \<noteq> 7" by (metis mod_next)
    then have d: "(?x + 1) div 7 = ?x div 7" "(?x + 1) mod 7 = ?x mod 7 + 1"
      by (simp_all only: mod_next div_next) simp_all
    have "returns (tab_loop n u t) (\<lambda>v. tty_ok v t \<and> unat (t_x (ttys v t)) = (unat (t_x (ttys u t)) div 7 + 1) * 7)"
      using Suc.prems d u by (intro Suc.IH) simp_all
    with False u d show ?thesis by (subst tab_loop.simps) (simp add: word_unat_eq_iff unat_mod)
  qed
qed

lemma putc_ok:
  assumes ok: "tty_ok s t" and n: "next_col (unat (t_x (ttys s t))) c < 80"
  shows "returns (tty_putc s t c) (\<lambda>u. tty_ok u t \<and> unat (t_x (ttys u t)) = next_col (unat (t_x (ttys s t))) c)"
proof (cases "c = 9")
  case True
  then have "returns (tab_loop 80 s t) (\<lambda>u. tty_ok u t \<and> unat (t_x (ttys u t)) = (unat (t_x (ttys s t)) div 7 + 1) * 7)"
    using n by (intro tab_loop_ok [OF ok]) (simp_all add: next_col_def)
  then obtain u where u: "tab_loop 80 s t = Inr u" "tty_ok u t" "unat (t_x (ttys u t)) = (unat (t_x (ttys s t)) div 7 + 1) * 7"
    by (auto elim!: returnsE)
  with put_end_idle [OF u(2)] True show ?thesis by (auto simp: tty_putc_def next_col_def)
qed (use put_plain_ok [OF ok _ n] in \<open>simp add: tty_putc_def\<close>)

lemma puts_ok:
  "tty_ok s t \<Longrightarrow> text_fits (unat (t_x (ttys s t))) cs \<Longrightarrow> returns (puts s t cs) (\<lambda>u. tty_ok u t)"
proof (induction cs arbitrary: s)
  case (Cons c cs)
  then have "next_col (unat (t_x (ttys s t))) c < 80" by simp
  from putc_ok [OF Cons.prems(1) this] obtain u where u: "tty_putc s t c = Inr u" "tty_ok u t"
    "unat (t_x (ttys u t)) = next_col (unat (t_x (ttys s t))) c" by (auto elim!: returnsE)
  with Cons.prems(2) Cons.IH [of u] show ?case by simp
qed simp

text \<open>
  C14. Printing is safe for lines that are shorter than the screen is wide: such a text, of any length and with
  any control characters, is printed without an access outside the buffers, and the cursor and the scroll
  position stay in order.
\<close>

theorem short_lines_safe:
  assumes "tty_ok s t" and "text_fits (unat (t_x (ttys s t))) cs"
  shows "returns (puts s t cs) (\<lambda>u. tty_ok u t)"
  by (rule puts_ok [OF assms])

section \<open>What printing leaves alone\<close>

definition in_part :: "tty_t \<Rightarrow> (nat \<Rightarrow> u8) \<times> u32 \<times> u32 \<times> u8 \<times> u8 \<times> ptr" where
  "in_part c = (t_inbuf c, t_incount c, t_eotcount c, t_flags c, t_status c, t_requests c)"

definition only_screen :: "'a tty_state_scheme \<Rightarrow> 'a tty_state_scheme \<Rightarrow> bool" where
  "only_screen s u \<longleftrightarrow> (\<exists>T v g. u = s\<lparr>ttys := T, vmem := v, cga := g\<rparr> \<and> (\<forall>t. in_part (T t) = in_part (ttys s t)))"

lemma only_screen_trans: "only_screen s t \<Longrightarrow> only_screen t u \<Longrightarrow> only_screen s u"
  unfolding only_screen_def by force

lemma only_screen_put:
  "only_screen s (s\<lparr>vmem := v\<rparr>)" "only_screen s (s\<lparr>cga := g\<rparr>)"
  "(\<And>u. in_part (T u) = in_part (ttys s u)) \<Longrightarrow> only_screen s (s\<lparr>ttys := T\<rparr>)"
proof -
  show "only_screen s (s\<lparr>vmem := v\<rparr>)" unfolding only_screen_def
    by (intro exI [of _ "ttys s"] exI [of _ v] exI [of _ "cga s"]) simp
  show "only_screen s (s\<lparr>cga := g\<rparr>)" unfolding only_screen_def
    by (intro exI [of _ "ttys s"] exI [of _ "vmem s"] exI [of _ g]) simp
  show "(\<And>u. in_part (T u) = in_part (ttys s u)) \<Longrightarrow> only_screen s (s\<lparr>ttys := T\<rparr>)" unfolding only_screen_def
    by (intro exI [of _ T] exI [of _ "vmem s"] exI [of _ "cga s"]) simp
qed

lemma only_screen_upd: "(\<And>c. in_part (f c) = in_part c) \<Longrightarrow> only_screen s (upd_tty s t f)"
  unfolding upd_tty_def by (rule only_screen_put) simp

lemma only_screen_refl: "only_screen s s"
  using only_screen_put(1) [of s "vmem s"] by simp

lemma only_screen_line: "only_screen s (set_start_line s l)"
  by (simp add: set_start_line_def cga_write_def Let_def only_screen_put(2))

lemma only_screen_scroll: "only_screen s (scroll s t)"
proof -
  note u = only_screen_upd [of "\<lambda>c. c\<lparr>t_outstart := t_outstart c + 1\<rparr>"]
    only_screen_upd [of "\<lambda>c. c\<lparr>t_outbuf := scroll_buf (t_outbuf c) (t_status c)\<rparr>"]
    only_screen_upd [of "\<lambda>c. c\<lparr>t_outstart := t_outstart c - 1, t_y := t_y c - 1\<rparr>"]
    only_screen_upd [of "\<lambda>c. c\<lparr>t_screenY := t_screenY c - 1\<rparr>"]
  show ?thesis unfolding scroll_def Let_def
    by (auto simp: in_part_def intro!: only_screen_trans [OF _ u(4)] only_screen_trans [OF _ only_screen_line]
      only_screen_trans [OF _ u(3)] only_screen_trans [OF _ only_screen_put(1)] only_screen_trans [OF _ u(2)] u(1))
qed

lemma only_screen_scroll_while: "only_screen s (scroll_while s t)"
proof (induction s t rule: scroll_while.induct)
  case (1 s t)
  then show ?case by (subst scroll_while.simps) (auto intro: only_screen_refl only_screen_trans [OF only_screen_scroll])
qed

lemma only_screen_cursor: "update_cursor s t = Inr u \<Longrightarrow> only_screen s u"
  unfolding update_cursor_def cga_write_def Let_def
  by (auto elim!: resE intro: only_screen_refl only_screen_trans [OF only_screen_put(2)] only_screen_put(2) split: if_splits)

lemma only_screen_put_end: "put_end s t = Inr u \<Longrightarrow> only_screen s u"
proof -
  assume r: "put_end s t = Inr u"
  let ?s = "if t_x (ttys s t) \<ge> 80 then upd_tty s t (\<lambda>c. c\<lparr>t_y := t_y c + 1, t_x := 0\<rparr>) else s"
  have 1: "only_screen s ?s" using only_screen_upd [of "\<lambda>c. c\<lparr>t_y := t_y c + 1, t_x := 0\<rparr>" s t] by (simp add: in_part_def only_screen_refl)
  have 2: "only_screen (scroll_while ?s t) u" using r by (intro only_screen_cursor) (simp add: put_end_def Let_def)
  show ?thesis by (rule only_screen_trans [OF only_screen_trans [OF 1 only_screen_scroll_while] 2])
qed

lemma only_screen_put_cell: "put_cell s t c = Inr u \<Longrightarrow> only_screen s u"
  unfolding put_cell_def Let_def
  by (auto split: if_splits intro!: only_screen_trans [OF _ only_screen_put(1)] only_screen_upd simp: in_part_def)

lemma only_screen_plain: "put_plain s t c = Inr u \<Longrightarrow> only_screen s u"
proof -
  assume r: "put_plain s t c = Inr u"
  have f: "only_screen s (upd_tty s t (\<lambda>c. c\<lparr>t_x := 0, t_y := t_y c + 1, t_screenY := t_screenY c + 1\<rparr>))"
    "only_screen s (upd_tty s t (\<lambda>c. c\<lparr>t_x := 0\<rparr>))" "only_screen s (upd_tty s t (\<lambda>c. c\<lparr>t_x := t_x c - 1\<rparr>))"
    "\<And>s. only_screen s (upd_tty s t (\<lambda>c. c\<lparr>t_x := t_x c + 1\<rparr>))"
    by (rule only_screen_upd, simp add: in_part_def)+
  consider "c = 10" | "c = 13" | "c = 8" "1 \<le> t_x (ttys s t)" | "c = 8" "\<not> 1 \<le> t_x (ttys s t)" | "c \<noteq> 10" "c \<noteq> 13" "c \<noteq> 8" by blast
  then show ?thesis
  proof cases
    case 3
    with r obtain v where "put_cell (upd_tty s t (\<lambda>c. c\<lparr>t_x := t_x c - 1\<rparr>)) t 0x20 = Inr v" "put_end v t = Inr u"
      by (auto simp: put_plain_def elim!: resE)
    from only_screen_trans [OF only_screen_trans [OF f(3) only_screen_put_cell [OF this(1)]] only_screen_put_end [OF this(2)]] show ?thesis .
  next
    case 5
    with r obtain v where "put_cell s t c = Inr v" "put_end (upd_tty v t (\<lambda>c. c\<lparr>t_x := t_x c + 1\<rparr>)) t = Inr u"
      by (auto simp: put_plain_def elim!: resE)
    from only_screen_trans [OF only_screen_trans [OF only_screen_put_cell [OF this(1)] f(4)] only_screen_put_end [OF this(2)]] show ?thesis .
  qed (use r in \<open>auto simp: put_plain_def dest!: only_screen_put_end intro: only_screen_trans [OF f(1)] only_screen_trans [OF f(2)]\<close>)
qed

lemma only_screen_tab: "tab_loop n s t = Inr u \<Longrightarrow> only_screen s u"
proof (induction n arbitrary: s)
  case 0
  then show ?case unfolding tab_loop.simps [of 0] by (auto elim!: resE dest!: only_screen_plain)
next
  case (Suc n)
  from Suc.prems show ?case unfolding tab_loop.simps [of "Suc n"]
    by (auto elim!: resE dest!: only_screen_plain Suc.IH intro: only_screen_trans)
qed

lemma only_screen_putc: "tty_putc s t c = Inr u \<Longrightarrow> only_screen s u"
  unfolding tty_putc_def
  by (auto elim!: resE dest!: only_screen_put_end only_screen_tab only_screen_plain intro: only_screen_trans split: if_splits)

section \<open>A line typed is the line read\<close>

text \<open>
  The current terminal with echo and line input, nobody waiting for input, and a line begun.
\<close>

definition typed :: "'a tty_state_scheme \<Rightarrow> tty_id \<Rightarrow> u8 list \<Rightarrow> bool" where
  "typed s t cs \<longleftrightarrow> cur_tty s = t \<and> tty_ok s t \<and> t_flags (ttys s t) = TTY_ECHO
     \<and> list_size (lists s) (t_requests (ttys s t)) = Inr 0
     \<and> length cs \<le> 256 \<and> unat (t_incount (ttys s t)) = length cs \<and> map (t_inbuf (ttys s t)) [0..<length cs] = cs"

lemma only_screenD:
  assumes "only_screen s u"
  shows "cur_tty u = cur_tty s" "lists u = lists s" "cur_map u = cur_map s" "modifs u = modifs s" "files u = files s" "inodes u = inodes s"
    "t_inbuf (ttys u t) = t_inbuf (ttys s t)" "t_incount (ttys u t) = t_incount (ttys s t)" "t_eotcount (ttys u t) = t_eotcount (ttys s t)"
    "t_flags (ttys u t) = t_flags (ttys s t)" "t_requests (ttys u t) = t_requests (ttys s t)" "kaddr u = kaddr s" "pmem u = pmem s"
  using assms by (auto simp: only_screen_def in_part_def kaddr_def fun_eq_iff)

lemma typed_same_screen:
  assumes "only_screen s u" and "tty_ok u t" and "typed s t cs"
  shows "typed u t cs"
  using only_screenD [OF assms(1)] assms(2,3) by (simp add: typed_def)

lemma put_input_ok:
  assumes "typed s t cs" and "length cs < 256"
  shows "\<exists>u. put_input s t c = Inr u \<and> typed u t (cs @ [c]) \<and> t_eotcount (ttys u t) = t_eotcount (ttys s t) \<and> t_x (ttys u t) = t_x (ttys s t)
    \<and> u = s\<lparr>ttys := ttys u\<rparr>"
proof -
  let ?f = "\<lambda>u. u\<lparr>t_inbuf := (t_inbuf u)(unat (t_incount u) := c), t_incount := t_incount u + 1\<rparr>"
  from assms have n: "unat (t_incount (ttys s t)) = length cs" by (simp add: typed_def)
  then have n1: "unat (t_incount (ttys s t) + 1) = length cs + 1" using assms(2) by (simp add: unat_add_u32_small)
  have "put_input s t c = Inr (upd_tty s t ?f)" using n assms(2) by (simp add: put_input_def word_le_nat_alt)
  moreover have "typed (upd_tty s t ?f) t (cs @ [c])"
    using assms n n1 by (auto simp: typed_def tty_ok_def cursor_ok_def intro!: nth_equalityI)
  ultimately show ?thesis by (intro exI [of _ "upd_tty s t ?f"]) (simp add: upd_tty_def)
qed

lemma scroll_to_bottom_ok:
  assumes "tty_ok s t"
  shows "only_screen s (scroll_to_bottom s t) \<and> tty_ok (scroll_to_bottom s t) t \<and> t_x (ttys (scroll_to_bottom s t) t) = t_x (ttys s t)"
proof -
  let ?o = "if t_y (ttys s t) > 24 then t_y (ttys s t) - 24 else 0"
  from assms have c: "cursor_ok (ttys s t)" by (simp add: tty_ok_def)
  have o: "?o = t_outstart (ttys s t)"
  proof (cases "t_y (ttys s t) > 24")
    case True
    then have "unat (t_y (ttys s t) - 24) = unat (t_y (ttys s t)) - 24" by (simp add: unat_u8_sub word_less_nat_alt)
    with True c show ?thesis by (auto simp: cursor_ok_def word_less_nat_alt word_unat_eq_iff)
  next
    case False
    with c show ?thesis by (auto simp: cursor_ok_def word_less_nat_alt word_unat_eq_iff)
  qed
  have u: "upd_tty s t (\<lambda>c. c\<lparr>t_outstart := t_outstart (ttys s t)\<rparr>) = s" by (simp add: upd_tty_def)
  show ?thesis unfolding scroll_to_bottom_def Let_def o u
    using assms by (auto simp: tty_ok_def intro: only_screen_line only_screen_refl)
qed

lemma can_answer_none: "typed s t cs \<Longrightarrow> answer_loop n D s t = Inr s"
  by (subst answer_loop.simps) (simp add: can_answer_rq_def typed_def)

text \<open>A character of the line.\<close>

lemma type_char:
  assumes t: "typed s t cs" and km: "cur_map s = Some km" "unat k < length km" "key_char (modifs s) (km ! unat k) = c"
    and c: "c \<noteq> 0" "c \<noteq> 8" "c \<noteq> 10" "c \<noteq> 0xFF" and x: "next_col (unat (t_x (ttys s t))) c < 80" and l: "length cs < 256"
  shows "\<exists>u. handle_input D s k = Inr u \<and> typed u t (cs @ [c]) \<and> unat (t_x (ttys u t)) = next_col (unat (t_x (ttys s t))) c
    \<and> t_eotcount (ttys u t) = t_eotcount (ttys s t) \<and> cur_map u = cur_map s \<and> modifs u = modifs s \<and> files u = files s \<and> inodes u = inodes s
    \<and> kaddr u = kaddr s"
proof -
  have ct: "cur_tty s = t" and ok: "tty_ok s t" and fl: "t_flags (ttys s t) = 1" and n: "unat (t_incount (ttys s t)) = length cs"
    using t by (simp_all add: typed_def)
  from putc_ok [OF ok x] obtain v where v: "tty_putc s t c = Inr v" "tty_ok v t" "unat (t_x (ttys v t)) = next_col (unat (t_x (ttys s t))) c"
    by (auto elim!: returnsE)
  define w where "w = scroll_to_bottom v t"
  from scroll_to_bottom_ok [OF v(2)] have w: "only_screen v w" "tty_ok w t" "t_x (ttys w t) = t_x (ttys v t)" by (simp_all add: w_def)
  from only_screen_trans [OF only_screen_putc [OF v(1)] w(1)] have sw: "only_screen s w" .
  from typed_same_screen [OF sw w(2) t] have "typed w t cs" .
  from put_input_ok [OF this l, of c] obtain u where u: "put_input w t c = Inr u" "typed u t (cs @ [c])"
    "t_eotcount (ttys u t) = t_eotcount (ttys w t)" "t_x (ttys u t) = t_x (ttys w t)" "u = w\<lparr>ttys := ttys u\<rparr>" by blast
  have "t_incount (ttys s t) \<noteq> 256" using n l by auto
  then have "handle_input D s k = Inr u"
    using km c ct fl v(1) u(1) can_answer_none [OF u(2)]
    by (simp add: handle_input_def handle_cbreak_input_def Let_def flip: w_def)
  moreover have "cur_map u = cur_map w" "modifs u = modifs w" "files u = files w" "inodes u = inodes w" "kaddr u = kaddr w"
    by (subst u(5), simp add: kaddr_def [abs_def])+
  ultimately show ?thesis using u v(3) w(3) only_screenD [OF sw] by simp
qed

text \<open>The end of the line.\<close>

lemma type_newline:
  assumes t: "typed s t cs" and km: "cur_map s = Some km" "unat k < length km" "key_char (modifs s) (km ! unat k) = 10"
    and l: "length cs + 2 \<le> 256"
  shows "\<exists>u. handle_input D s k = Inr u \<and> typed u t (cs @ [10, 0]) \<and> t_eotcount (ttys u t) = t_eotcount (ttys s t) + 1
    \<and> files u = files s \<and> inodes u = inodes s \<and> kaddr u = kaddr s"
proof -
  have ct: "cur_tty s = t" and ok: "tty_ok s t" and fl: "t_flags (ttys s t) = 1" and n: "unat (t_incount (ttys s t)) = length cs"
    using t by (simp_all add: typed_def)
  have "next_col (unat (t_x (ttys s t))) 10 < 80" by (simp add: next_col_def)
  from putc_ok [OF ok this] obtain v where v: "tty_putc s t 10 = Inr v" "tty_ok v t" by (auto elim!: returnsE)
  note sv = only_screen_putc [OF v(1)]
  from typed_same_screen [OF sv v(2) t] have "typed v t cs" .
  from put_input_ok [OF this, of 10] l obtain w where w: "put_input v t 10 = Inr w" "typed w t (cs @ [10])"
    "t_eotcount (ttys w t) = t_eotcount (ttys v t)" "w = v\<lparr>ttys := ttys w\<rparr>" by auto
  define w' where "w' = upd_tty w t (\<lambda>u. u\<lparr>t_eotcount := t_eotcount u + 1\<rparr>)"
  have "typed w' t (cs @ [10])" using w(2) by (simp add: w'_def typed_def tty_ok_def cursor_ok_def)
  from put_input_ok [OF this, of 0] l obtain u where u: "put_input w' t 0 = Inr u" "typed u t (cs @ [10, 0])"
    "t_eotcount (ttys u t) = t_eotcount (ttys w' t)" "u = w'\<lparr>ttys := ttys u\<rparr>" by auto
  have "t_incount (ttys s t) \<noteq> 256" using n l by auto
  then have "handle_input D s k = Inr u"
    using km ct fl v(1) w(1) u(1) can_answer_none [OF u(2)]
    by (simp add: handle_input_def handle_cbreak_input_def Let_def flip: w'_def)
  moreover have "files w = files v" "inodes w = inodes v" "kaddr w = kaddr v" by (subst w(4), simp add: kaddr_def [abs_def])+
  moreover have "files u = files w'" "inodes u = inodes w'" "kaddr u = kaddr w'" by (subst u(4), simp add: kaddr_def [abs_def])+
  moreover have "files w' = files w" "inodes w' = inodes w" "kaddr w' = kaddr w" by (simp_all add: w'_def upd_tty_def kaddr_def [abs_def])
  moreover have "t_eotcount (ttys w' t) = t_eotcount (ttys w t) + 1" by (simp add: w'_def)
  ultimately show ?thesis using u(2,3) w(3) only_screenD [OF sv] by simp
qed

text \<open>
  C36. A line that does not fit: with 255 characters typed before the end of the line, \<^verbatim>\<open>handle_input\<close> stores the
  line feed in the last byte of the input buffer and the null byte behind its end.
\<close>

theorem full_line_overflows:
  assumes "typed s t cs" and "length cs = 255" and "cur_map s = Some km" and "unat k < length km"
    and "key_char (modifs s) (km ! unat k) = 10"
  shows "handle_input D s k = Inl Bad_access"
proof -
  have ct: "cur_tty s = t" and ok: "tty_ok s t" and fl: "t_flags (ttys s t) = 1" and n: "unat (t_incount (ttys s t)) = length cs"
    using assms(1) by (simp_all add: typed_def)
  have "next_col (unat (t_x (ttys s t))) 10 < 80" by (simp add: next_col_def)
  from putc_ok [OF ok this] obtain v where v: "tty_putc s t 10 = Inr v" "tty_ok v t" by (auto elim!: returnsE)
  from typed_same_screen [OF only_screen_putc [OF v(1)] v(2) assms(1)] have "typed v t cs" .
  from put_input_ok [OF this, of 10] assms(2) obtain w where w: "put_input v t 10 = Inr w" "typed w t (cs @ [10])" by auto
  then have "unat (t_incount (ttys w t)) = 256" using assms(2) by (simp add: typed_def)
  then have "put_input (upd_tty w t (\<lambda>u. u\<lparr>t_eotcount := t_eotcount u + 1\<rparr>)) t 0 = Inl Bad_access"
    by (simp add: put_input_def word_le_nat_alt)
  moreover have "t_incount (ttys s t) \<noteq> 256" using n assms(2) by auto
  ultimately show ?thesis using assms(3-5) ct fl v(1) w(1)
    by (simp add: handle_input_def handle_cbreak_input_def Let_def)
qed

lemma inbuf_string_line:
  assumes "map (t_inbuf c) [0..<length cs + 1] = cs @ [0]" and "0 \<notin> set cs" and "length cs < 256"
  shows "inbuf_string c = Inr cs"
proof -
  have nz: "t_inbuf c i = cs ! i" if "i < length cs" for i
    using that arg_cong [OF assms(1), of "\<lambda>xs. xs ! i"] by (simp add: nth_append del: upt_Suc)
  have z: "t_inbuf c (length cs) = 0" using arg_cong [OF assms(1), of "\<lambda>xs. xs ! length cs"] by (simp del: upt_Suc)
  have "List.find (\<lambda>i. t_inbuf c i = 0) [0..<length cs] = None"
    using nz assms(2) by (auto simp: find_None_iff) (metis nth_mem)
  moreover have "[0..<256] = [0..<length cs] @ length cs # [Suc (length cs)..<256]"
    using assms(3) upt_add_eq_append [of 0 "length cs" "256 - length cs"] by (simp add: upt_conv_Cons)
  ultimately have "List.find (\<lambda>i. t_inbuf c i = 0) [0..<256] = Some (length cs)" using z by (simp add: find_append)
  moreover have "map (t_inbuf c) [0..<length cs] = cs" using nz by (intro nth_equalityI) simp_all
  ultimately show ?thesis by (simp add: inbuf_string_def)
qed

lemma read_line:
  assumes t: "typed s t (cs @ [0])" and z: "0 \<notin> set cs" and e: "t_eotcount (ttys s t) > 0" and fl: "file_tty s file = Inr (Some t)"
    and f: "kmapped s buf (length cs + 1) f" "inj_on f {..<length cs + 1}"
  shows "returns (tty_read s file buf count off) (\<lambda>(n, v). n = int (length cs) \<and> map (\<lambda>i. pmem v (f i)) [0..<length cs + 1] = cs @ [0]
    \<and> t_incount (ttys v t) = 0 \<and> t_eotcount (ttys v t) = t_eotcount (ttys s t) - 1)"
proof -
  have fe: "t_flags (ttys s t) = 1" and n: "unat (t_incount (ttys s t)) = length cs + 1" and l: "length cs < 256"
    and m: "map (t_inbuf (ttys s t)) [0..<length cs + 1] = cs @ [0]"
    using t by (simp_all add: typed_def)
  note str = inbuf_string_line [OF m z l]
  from kwrite_bytes_mapped [of s buf "cs @ [0]" f] f obtain mem where w: "kwrite_bytes s buf (cs @ [0]) = Inr (s\<lparr>pmem := mem\<rparr>)"
    "\<forall>i < length cs + 1. mem (f i) = (cs @ [0]) ! i" by auto
  define v where "v = upd_tty (s\<lparr>pmem := mem\<rparr>) t (\<lambda>c. c\<lparr>
      t_inbuf := (\<lambda>j. if j < 256 - unat (of_nat (length cs) + 1 :: u32) then t_inbuf c (j + unat (of_nat (length cs) + 1 :: u32)) else t_inbuf c j),
      t_incount := t_incount c - (of_nat (length cs) + 1), t_eotcount := t_eotcount c - 1\<rparr>)"
  have c: "unat (of_nat (length cs) + 1 :: u32) = length cs + 1" using l by (simp add: unat_add_u32_small)
  have cp: "copy_data s t buf count = Inr (of_nat (length cs), s\<lparr>pmem := mem\<rparr>)" using str w(1) fe by (simp add: copy_data_def)
  have rm: "remove_data (s\<lparr>pmem := mem\<rparr>) t (of_nat (length cs)) = Inr v"
    using fe c l by (simp add: remove_data_def Let_def v_def)
  have "sint (of_nat (length cs) :: u32) = int (length cs)" using l by (intro sint_u32_small [THEN trans]) simp_all
  then have "tty_read s file buf count off = Inr (int (length cs), v)"
    using fl fe e cp rm by (simp add: tty_read_def enough_data_def)
  moreover have "map (\<lambda>i. mem (f i)) [0..<length cs + 1] = cs @ [0]" using w(2) by (intro nth_equalityI) (simp_all del: upt_Suc)
  moreover have "t_incount (ttys s t) = of_nat (length cs) + 1" using n c by (simp add: u32_eq_iff_unat)
  ultimately show ?thesis by (simp add: v_def) (simp add: upd_tty_def)
qed

text \<open>Typing keys one after the other.\<close>

fun type_keys :: "'a tty_state_scheme drivers \<Rightarrow> 'a tty_state_scheme \<Rightarrow> u8 list \<Rightarrow> 'a tty_state_scheme res" where
  "type_keys D s [] = Inr s"
| "type_keys D s (k # ks) = rbind (handle_input D s k) (\<lambda>s. type_keys D s ks)"

definition key_gives :: "'a tty_state_scheme \<Rightarrow> u8 \<Rightarrow> u8 \<Rightarrow> bool" where
  "key_gives s k c \<longleftrightarrow>
     (case cur_map s of None \<Rightarrow> False | Some km \<Rightarrow> unat k < length km \<and> key_char (modifs s) (km ! unat k) = c)"

definition line_char :: "u8 \<Rightarrow> bool" where
  "line_char c \<longleftrightarrow> c \<noteq> 0 \<and> c \<noteq> 8 \<and> c \<noteq> 10 \<and> c \<noteq> 0xFF"

lemma type_line:
  "typed s t bs \<Longrightarrow> list_all2 (key_gives s) ks cs \<Longrightarrow> list_all line_char cs \<Longrightarrow> key_gives s nl 10 \<Longrightarrow>
     text_fits (unat (t_x (ttys s t))) cs \<Longrightarrow> length bs + length cs + 2 \<le> 256 \<Longrightarrow>
     \<exists>u. type_keys D s (ks @ [nl]) = Inr u \<and> typed u t (bs @ cs @ [10, 0]) \<and> t_eotcount (ttys u t) = t_eotcount (ttys s t) + 1
       \<and> files u = files s \<and> inodes u = inodes s \<and> kaddr u = kaddr s"
proof (induction ks arbitrary: s bs cs)
  case Nil
  then obtain km where "cur_map s = Some km" "unat nl < length km" "key_char (modifs s) (km ! unat nl) = 10"
    by (auto simp: key_gives_def split: option.splits)
  from type_newline [OF Nil.prems(1) this, of D] Nil.prems show ?case by auto
next
  case (Cons k ks)
  then obtain c cs' where cs: "cs = c # cs'" by (auto simp: list_all2_Cons1)
  with Cons.prems obtain km where km: "cur_map s = Some km" "unat k < length km" "key_char (modifs s) (km ! unat k) = c"
    by (auto simp: key_gives_def split: option.splits)
  from Cons.prems cs have c: "c \<noteq> 0" "c \<noteq> 8" "c \<noteq> 10" "c \<noteq> 0xFF" "next_col (unat (t_x (ttys s t))) c < 80" "length bs < 256"
    by (simp_all add: line_char_def)
  from type_char [OF Cons.prems(1) km c, of D] obtain v where v: "handle_input D s k = Inr v" "typed v t (bs @ [c])"
    "unat (t_x (ttys v t)) = next_col (unat (t_x (ttys s t))) c" "t_eotcount (ttys v t) = t_eotcount (ttys s t)"
    "cur_map v = cur_map s" "modifs v = modifs s" "files v = files s" "inodes v = inodes s" "kaddr v = kaddr s" by blast
  have "key_gives v = key_gives s" by (simp only: key_gives_def [abs_def] v(5,6))
  with Cons.IH [of v "bs @ [c]" cs'] Cons.prems cs v show ?case by auto
qed


section \<open>Lines longer than the screen is wide\<close>

definition print_char :: "u8 \<Rightarrow> bool" where
  "print_char c \<longleftrightarrow> c \<noteq> 8 \<and> c \<noteq> 9 \<and> c \<noteq> 10 \<and> c \<noteq> 13"

text \<open>After \<open>n\<close> characters without a line feed; \<^verbatim>\<open>putc\<close> counts the lines it starts itself in \<^verbatim>\<open>y\<close> but not in \<^verbatim>\<open>screenY\<close>.\<close>

definition on_line :: "'a tty_state_scheme \<Rightarrow> tty_id \<Rightarrow> nat \<Rightarrow> bool" where
  "on_line s t n \<longleftrightarrow> unat (t_x (ttys s t)) = n mod 80 \<and> unat (t_y (ttys s t)) = n div 80 \<and> t_screenY (ttys s t) = 0 \<and> requests_ok s t"

lemma on_line_step:
  assumes o: "on_line s t n" and c: "print_char c" and n: "n < 16384"
  shows "\<exists>u. tty_putc s t c = Inr u \<and> on_line u t (n + 1)"
proof -
  have p: "CPOS (ttys s t) = n" using o by (simp add: CPOS_def on_line_def)
  have "\<exists>v. put_cell s t c = Inr ((upd_tty s t (\<lambda>d. d\<lparr>t_outbuf := (t_outbuf d)(n := cell c (t_status (ttys s t)))\<rparr>))\<lparr>vmem := v\<rparr>)"
    using p n by (cases "t = cur_tty s") (auto simp: put_cell_def Let_def upd_tty_def intro: exI [of _ "vmem s"])
  then obtain v where v: "put_cell s t c = Inr ((upd_tty s t (\<lambda>d. d\<lparr>t_outbuf := (t_outbuf d)(n := cell c (t_status (ttys s t)))\<rparr>))\<lparr>vmem := v\<rparr>)" ..
  define w where "w = (upd_tty s t (\<lambda>d. d\<lparr>t_outbuf := (t_outbuf d)(n := cell c (t_status (ttys s t))), t_x := t_x d + 1\<rparr>))\<lparr>vmem := v\<rparr>"
  define x where "x = (if t_x (ttys w t) \<ge> 80 then upd_tty w t (\<lambda>c. c\<lparr>t_y := t_y c + 1, t_x := 0\<rparr>) else w)"
  have pc: "tty_putc s t c = put_end w t"
    using v c by (simp add: tty_putc_def put_plain_def print_char_def upd_tty_vmem upd_tty_twice w_def)
  have wx: "unat (t_x (ttys w t)) = n mod 80 + 1" "unat (t_y (ttys w t)) = n div 80" "t_screenY (ttys w t) = 0" "requests_ok w t"
    using o by (simp_all add: w_def on_line_def unat_u8_add)
  have "on_line x t (n + 1)"
  proof (cases "n mod 80 = 79")
    case True
    then have d: "(n + 1) mod 80 = 0" "(n + 1) div 80 = n div 80 + 1"
      by (simp_all only: mod_next div_next) simp_all
    have "80 \<le> t_x (ttys w t)" using True wx(1) by (simp add: word_le_nat_alt)
    moreover have "unat (t_y (ttys w t) + 1) = n div 80 + 1" using wx(2) n by (subst unat_u8_add) simp_all
    ultimately show ?thesis using d wx by (simp add: on_line_def x_def)
  next
    case False
    then have d: "(n + 1) mod 80 = n mod 80 + 1" "(n + 1) div 80 = n div 80"
      by (simp_all only: mod_next div_next) simp_all
    have "n mod 80 < 80" by simp
    with False have "\<not> 80 \<le> t_x (ttys w t)" using wx(1) by (simp add: word_le_nat_alt)
    then show ?thesis using d wx by (simp add: on_line_def x_def)
  qed
  moreover have "put_end w t = update_cursor x t"
    using calculation by (simp add: put_end_def x_def [symmetric] Let_def scroll_while_idle on_line_def)
  moreover from calculation(1) obtain g where "update_cursor x t = Inr (x\<lparr>cga := g\<rparr>)" using update_cursor_ok by (auto simp: on_line_def)
  ultimately show ?thesis using pc by (simp add: on_line_def)
qed

lemma long_line:
  "on_line s t n \<Longrightarrow> list_all print_char cs \<Longrightarrow> n \<le> 16384 \<Longrightarrow> 16384 < n + length cs \<Longrightarrow> puts s t cs = Inl Bad_access"
proof (induction cs arbitrary: s n)
  case (Cons c cs)
  show ?case
  proof (cases "n = 16384")
    case True
    then have "CPOS (ttys s t) = 16384" using Cons.prems(1) by (simp add: on_line_def CPOS_def)
    then show ?thesis using Cons.prems(2) by (simp add: tty_putc_def put_plain_def put_cell_def print_char_def)
  next
    case False
    with on_line_step [OF Cons.prems(1), of c] Cons.prems obtain u where "tty_putc s t c = Inr u" "on_line u t (n + 1)" by auto
    with Cons.IH [of u "n + 1"] Cons.prems False show ?thesis by simp
  qed
qed simp

text \<open>
  C37. Printing more than 16384 characters without a line feed writes behind the end of the terminal's buffer: at the
  end of a screen line \<^verbatim>\<open>putc\<close> goes to the next one without telling the scroll logic.
\<close>

theorem long_line_overflows:
  assumes "t_x (ttys s t) = 0" and "t_y (ttys s t) = 0" and "t_screenY (ttys s t) = 0" and "requests_ok s t"
    and "list_all print_char cs" and "16384 < length cs"
  shows "puts s t cs = Inl Bad_access"
  by (rule long_line [of _ _ 0]) (use assms in \<open>simp_all add: on_line_def\<close>)

section \<open>Examples\<close>

text \<open>Empty terminals; the file 9 is the first one, key 1 is the letter a and key 2 is enter.\<close>

definition demo_term :: "nat \<Rightarrow> tty_t" where
  "demo_term n = \<lparr>t_id = n, t_inode = 9, t_inbuf = (\<lambda>_. 0), t_incount = 0, t_eotcount = 0, t_outbuf = (\<lambda>_. 0), t_outstart = 0,
     t_x = 0, t_y = 0, t_screenY = 0, t_status = 7, t_flags = TTY_ECHO, t_requests = l_fresh (lists (demo_calls 0))\<rparr>"

definition demo_tty :: tty_state where
  "demo_tty = sc_state.extend ((demo_calls 0)\<lparr>lists := snd (list_create (lists (demo_calls 0))),
      files := [9 \<mapsto> \<lparr>f_inode = 9, f_pos = 0, f_fops = TTY_FOPS\<rparr>],
      inodes := [9 \<mapsto> \<lparr>i_name = ''tty0'', i_flags = FS_CHARDEV, i_perm = 0, i_length = 0, i_uid = 0, i_gid = 0, i_opencount = 0,
        i_impl = 0, i_link = NULL, i_ops = TTY_IOPS, i_sb = NULL\<rparr>]\<rparr>)
    (tty_state.fields demo_term 0 (\<lambda>_. 0) (\<lambda>_. 0) \<lparr>m_shift = False, m_ctrl = False, m_alt = False, m_altgr = False, m_capslock = False\<rparr>
       [] 0 (Some [\<lparr>km_normal = 0, km_shift = 0, km_altgr = 0, km_ctrl = 0\<rparr>, \<lparr>km_normal = 97, km_shift = 65, km_altgr = 0, km_ctrl = 0\<rparr>,
       \<lparr>km_normal = 10, km_shift = 10, km_altgr = 10, km_ctrl = 10\<rparr>]) 0 0 0)"

lemma demo_tty_simps:
  "ttys demo_tty = demo_term" "cur_tty demo_tty = 0" "vmem demo_tty = (\<lambda>_. 0)" "lists demo_tty = snd (list_create (lists (demo_calls 0)))"
  "files demo_tty = [9 \<mapsto> \<lparr>f_inode = 9, f_pos = 0, f_fops = TTY_FOPS\<rparr>]" "kaddr demo_tty = kaddr (demo_calls 0)"
  "modifs demo_tty = \<lparr>m_shift = False, m_ctrl = False, m_alt = False, m_altgr = False, m_capslock = False\<rparr>"
  "cur_map demo_tty = Some [\<lparr>km_normal = 0, km_shift = 0, km_altgr = 0, km_ctrl = 0\<rparr>, \<lparr>km_normal = 97, km_shift = 65, km_altgr = 0, km_ctrl = 0\<rparr>,
       \<lparr>km_normal = 10, km_shift = 10, km_altgr = 10, km_ctrl = 10\<rparr>]"
  by (simp_all add: demo_tty_def sc_state.defs tty_state.defs kaddr_def fun_eq_iff)

lemma demo_tty_size: "list_size (lists demo_tty) (t_requests (demo_term n)) = Inr 0"
  by (simp add: demo_tty_simps demo_term_def list_create_def list_size_def list_empty_def get_list_def Let_def)

lemma demo_tty_ok: "tty_ok demo_tty t" "typed demo_tty 0 []"
  using demo_tty_size [of t] demo_tty_size [of 0]
  by (simp_all add: tty_ok_def requests_ok_def typed_def cursor_ok_def demo_tty_simps) (simp_all add: demo_term_def)

lemma demo_tty_keys: "key_gives demo_tty 1 97" "key_gives demo_tty 2 10"
  by (simp_all add: key_gives_def demo_tty_simps key_char_def)

lemma demo_tty_file: "file_tty demo_tty 9 = Inr (Some 0)"
  by (simp add: file_tty_def demo_tty_simps deref_def) (simp add: demo_tty_def sc_state.defs tty_state.defs)

theorem screen_shows_current_witness:
  "vmem (kout_clear demo_tty) 5 = t_outbuf (ttys (kout_clear demo_tty) (cur_tty (kout_clear demo_tty))) 5"
proof -
  have "screen_reaches (\<lambda>_ s. Inr s) no_drivers demo_tty (kout_clear demo_tty)"
    by (rule screen_reaches.kclear [OF screen_reaches.start])
  moreover have "machine_keeps screen_view (\<lambda>_ s. Inr s)" by (simp add: machine_keeps_def)
  moreover have "callbacks_keep screen_view no_drivers" by (simp add: callbacks_keep_def no_drivers_def)
  moreover have "mirrors demo_tty" by (simp add: mirrors_def demo_tty_simps demo_term_def)
  ultimately have "\<forall>j < 16384. vmem (kout_clear demo_tty) j = t_outbuf (ttys (kout_clear demo_tty) (cur_tty (kout_clear demo_tty))) j"
    by (rule screen_shows_current)
  then show ?thesis by simp
qed

theorem short_lines_safe_witness: "returns (puts demo_tty 3 [97, 9, 10, 98, 8, 13]) (\<lambda>u. tty_ok u 3)"
  by (rule short_lines_safe [OF demo_tty_ok(1)]) (simp add: demo_tty_simps demo_term_def next_col_def)

theorem full_line_overflows_witness:
  "handle_input no_drivers (demo_tty\<lparr>ttys := (ttys demo_tty)(0 := (demo_term 0)\<lparr>t_inbuf := (\<lambda>_. 97), t_incount := 255\<rparr>)\<rparr>) 2 = Inl Bad_access"
proof (rule full_line_overflows [where cs = "replicate 255 97" and km = "the (cur_map demo_tty)"])
  show "typed (demo_tty\<lparr>ttys := (ttys demo_tty)(0 := (demo_term 0)\<lparr>t_inbuf := (\<lambda>_. 97), t_incount := 255\<rparr>)\<rparr>) 0 (replicate 255 97)"
    using demo_tty_ok(2) by (simp add: typed_def tty_ok_def requests_ok_def cursor_ok_def demo_tty_simps map_replicate_const)
qed (simp_all add: demo_tty_simps key_char_def)


theorem long_line_overflows_witness: "puts demo_tty 0 (replicate 16385 97) = Inl Bad_access"
  using demo_tty_ok(1) [of 0]
  by (intro long_line_overflows) (simp_all add: demo_tty_simps demo_term_def tty_ok_def list_all_iff print_char_def)

end
