(* ===== verification/Spec2Isabelle.thy ===== *)
theory Spec2Isabelle
  imports Kos_Prelude Kos_Bitop Kos_Fifo Kos_List Kos_Ringbuffer Kos_Array Kos_Error_Context Kos_Mm Kos_Virt
    Kos_Vm_Util Kos_Kmalloc Kos_Addrspace Kos_Frame Kos_Pm Kos_Vfs Kos_Initrd Kos_Mkinitrd Kos_Image Kos_Proc Kos_Loader
    Kos_Table Kos_Ipc Kos_Syscall Kos_Tty Kos_Screen
begin

text \<open>
  \<^bold>\<open>kos, a small operating system kernel for the i386: a verification development\<close>

  \<^bold>\<open>The program.\<close> The kernel lives in \<^verbatim>\<open>src/kernel\<close>. At boot it builds a bitmap of physical pages from
  the multiboot information (\<^verbatim>\<open>mm/mm.c\<close>), sets up page directories and tables (\<^verbatim>\<open>mm/virt.c\<close>), a heap on
  top of them (\<^verbatim>\<open>mm/kmalloc.c\<close>) and address spaces (\<^verbatim>\<open>mm/util.c\<close>); processes are kept in a table and a
  singly linked run queue (\<^verbatim>\<open>pm.c\<close>) driven by the timer interrupt (\<^verbatim>\<open>timer.c\<close>); a virtual file system
  (\<^verbatim>\<open>fs/\<close>) dispatches through operation tables to a ramdisk parsed from a boot module and to a directory
  of devices. Programs are loaded from ELF images in memory (\<^verbatim>\<open>loader.c\<close>), processes exchange messages
  (\<^verbatim>\<open>ipc.c\<close>) and enter the kernel through one gate that dispatches on a table of functions
  (\<^verbatim>\<open>syscall.c\<close>). Eight terminals share the screen and the keyboard (\<^verbatim>\<open>tty.c\<close>, \<^verbatim>\<open>kbc.c\<close>); each is a device
  file, and a read on it waits as a request until a line has been typed. Containers used throughout are a
  doubly linked list, a ring buffer and a dynamic array (\<^verbatim>\<open>util/\<close>). The ramdisk image is written on the host
  by \<^verbatim>\<open>src/share/src/mkinitrd\<close>.

  \<^bold>\<open>The model.\<close> Definitions follow the C functions one by one and keep their names. Machine words are
  \<^verbatim>\<open>32 word\<close>, so that sums wrap as in C; object pointers are natural numbers with 0 for \<^verbatim>\<open>NULL\<close>, kept in
  maps from addresses to records, and a freed object is not in the map any more. A function that may go
  wrong returns a value of the type \<open>res\<close>: \<open>Inl\<close> of a fault (a null or dangling pointer, a page fault, a
  failed assertion or panic, a loop without end) or \<open>Inr\<close> of its result and the new state. \<open>returns r P\<close> says
  that the call returns and its result satisfies \<open>P\<close>, so it includes the absence of faults and
  termination. Debug output has no effect in the model.

  The state grows with the components as extensible records: \<open>mm_state\<close> (bitmap, memory size), \<open>vm_state\<close>
  (directories and tables), \<open>um_state\<close> (bytes of physical memory), \<open>km_state\<close> (heap node lists),
  \<open>as_state\<close> (address spaces), \<open>pm_state\<close> (process table, run queue, timer), \<open>vfs_state\<close> (inodes, files, super
  blocks, directory entries, requests, lists), \<open>idev_state\<close> (ramdisk and devices), \<open>kp_state\<close> (terminal,
  cleanup function and loader data of a process), \<open>sc_state\<close> (the system call table) and \<open>tty_state\<close> (terminals, video
  memory, keyboard). Each operation is stated for every extension of the record it uses. Where a component
  above must not be disturbed by one below, a locale says so: \<^verbatim>\<open>mem_frame\<close>, and over it \<^verbatim>\<open>heap_frame\<close>,
  \<^verbatim>\<open>as_frame\<close>, \<^verbatim>\<open>fs_frame\<close> and \<^verbatim>\<open>kernel_frame\<close>, fix a view of the state that the updates of a layer do not
  change, and prove that its operations leave the view alone. They are interpreted with the heap's node
  lists, the process table and its links, the system call table and the screen as the view.

  \<^bold>\<open>Theories.\<close>
  \<^item> \<^verbatim>\<open>Kos_Prelude\<close>: faults and results, word arithmetic, shared lemmas and collections.
  \<^item> \<^verbatim>\<open>Kos_Bitop\<close>: \<^verbatim>\<open>include/bitop.h\<close>, the page macros of \<^verbatim>\<open>include/arch/i386/page.h\<close> and \<^verbatim>\<open>mm/intern.h\<close>; an
    address is its directory index, table index and offset, and how page counts round.
  \<^item> \<^verbatim>\<open>Kos_Fifo\<close>: the interface of a bounded queue as a locale, with what any sequence of calls gives;
    interpreted by the list, the ring buffer and the messages of a process.
  \<^item> \<^verbatim>\<open>Kos_List\<close>, \<^verbatim>\<open>Kos_Ringbuffer\<close>, \<^verbatim>\<open>Kos_Array\<close>: the containers over an explicit store of entries, what every
    operation does to the abstract sequence, and refinement of the queue.
  \<^item> \<^verbatim>\<open>Kos_Error_Context\<close>: \<^verbatim>\<open>error.c\<close> and \<^verbatim>\<open>context.c\<close>.
  \<^item> \<^verbatim>\<open>Kos_Mm\<close>: the page bitmap; allocation is first fit over the free pages, single pages, runs, DMA blocks,
    and the state \<^verbatim>\<open>init_mm\<close> builds.
  \<^item> \<^verbatim>\<open>Kos_Virt\<close>, \<^verbatim>\<open>Kos_Vm_Util\<close>, \<^verbatim>\<open>Kos_Addrspace\<close>: paging. Mapping changes the translation of exactly the
    pages meant; searches return the lowest unmapped page; temporary mappings; copies in kernel memory;
    \<^verbatim>\<open>sbrk\<close>; creating, cloning, selecting and destroying address spaces.
  \<^item> \<^verbatim>\<open>Kos_Kmalloc\<close>: the heap; live blocks are disjoint, a freed block is reused.
  \<^item> \<^verbatim>\<open>Kos_Pm\<close>: processes and timer; the run queue as a list, scheduling as rotation (locale
    \<^verbatim>\<open>round_robin\<close>), the invariant kept by every tick, yield and sleep, and who wakes when.
  \<^item> \<^verbatim>\<open>Kos_Vfs\<close>: inodes, files, path lookup as a walk over components, mounting, requests, per-process
    data and system calls. The locales \<^verbatim>\<open>directory\<close> and \<^verbatim>\<open>file_driver\<close> state what the lookup and
    opening rely on of a driver.
  \<^item> \<^verbatim>\<open>Kos_Frame\<close>: the locale \<^verbatim>\<open>mem_frame\<close>, what the memory manager leaves alone.
  \<^item> \<^verbatim>\<open>Kos_Initrd\<close>: both file systems, which interpret these locales, reading, mounting and registering.
  \<^item> \<^verbatim>\<open>Kos_Mkinitrd\<close>, \<^verbatim>\<open>Kos_Image\<close>: the host tool; the image it writes equals a recursive encoding of the
    directory tree, and the kernel that parses this image finds every file of the tree with its contents.
  \<^item> \<^verbatim>\<open>Kos_Proc\<close>, \<^verbatim>\<open>Kos_Table\<close>: creation, fork, exit, waiting and destruction of processes, and the process
    table over every sequence of these and of scheduling steps: live processes are found by their
    identifiers. Two sequences of calls that end in a null pointer access are shown as such.
  \<^item> \<^verbatim>\<open>Kos_Loader\<close>: ELF headers and segments, and the system call that starts a program.
  \<^item> \<^verbatim>\<open>Kos_Ipc\<close>: sending, receiving and waking a receiver; messages arrive in order, with the sender.
  \<^item> \<^verbatim>\<open>Kos_Syscall\<close>: the gate and all system calls the kernel registers at boot; after boot the dispatch
    calls the function registered under a number with as many arguments as it takes, and a call with
    another number ends the process.
  \<^item> \<^verbatim>\<open>Kos_Tty\<close>, \<^verbatim>\<open>Kos_Screen\<close>: the terminals, and what is shown of them: the screen mirrors the buffer of
    the current terminal whatever happens, a line that is typed is the line that is read, text with short
    lines stays inside the buffers; and the inputs that leave the buffers or the translation tables.

  \<^bold>\<open>Bounds.\<close> Loops over the C data structures are structural recursions, or run on an explicit bound
  after which the model reports \<open>Diverges\<close>; the bounds are larger than any structure the invariants
  allow: list walks are bounded by the number of addresses ever allocated, the search for a
  predecessor in the run queue by 1024 steps (there are 257 process objects), the copy loop of
  \<^verbatim>\<open>vm_clone_addrspace\<close> by the number of pages of an address space, and strings by \<open>2 ^ 20\<close> characters.
  The segments of an ELF image are bounded by 65536, because their number is a 16-bit field; a tabulator
  by 80 columns, because a column that is a multiple of 7 is at most 7 steps away; the requests that one
  key answers by 65536. The bound of the ramdisk parser and of the image writer is a parameter, and the
  round trip holds for every value at least twice the number of entries of the tree.

  \<^bold>\<open>Not modelled.\<close> Descriptor and interrupt tables, the commands of the keyboard controller, the serial
  port, the CDI drivers, ACPI and PCI probing are inline assembly and device accesses around constants;
  the keymaps are data; formatted output and the debug facilities only print; the C library under \<^verbatim>\<open>lib\<close> is
  a vendored one; the user programs are small programs over it. What the kernel reaches through function
  pointers outside the modelled code (other drivers, interrupt handlers) is an argument of the definitions.
\<close>

end
